(* ===== verification/Famez_Prelude.thy ===== *)
theory Famez_Prelude
  imports Main "HOL-Library.Word" "HOL-Library.Monad_Syntax" "HOL-Library.Signed_Division"
begin

unbundle bit_operations_syntax

text \<open>
  Shared vocabulary of the development: the C integer types at their widths, the errno
  constants the drivers return, the conversions C applies implicitly between integer
  types, byte arrays with checked accesses, and C strings.

  A driver function that can go wrong in a way the kernel does not survive (a NULL
  dereference, an access outside an array, a lock taken twice, \<open>BUG_ON\<close>) or that
  never returns is modelled in the option monad: the value \<open>None\<close> is that outcome. A
  negative errno is an ordinary return value, an \<open>int\<close>, as in C.
\<close>

section \<open>Integer types and errno values\<close>

type_synonym u16 = "16 word"
type_synonym u32 = "32 word"
type_synonym u64 = "64 word"

text \<open>\<open>int32_t\<close> fields are kept as 32-bit words too and read with \<open>sint\<close>.\<close>

type_synonym s32 = "32 word"

text \<open>A byte array is a list of characters (HOL characters are bytes).\<close>

type_synonym bytes = "char list"

text \<open>The values of \<open>asm-generic/errno-base.h\<close> and \<open>errno.h\<close> that the code uses.\<close>

abbreviation EINTR :: int where "EINTR \<equiv> 4"
abbreviation EIO :: int where "EIO \<equiv> 5"
abbreviation E2BIG :: int where "E2BIG \<equiv> 7"
abbreviation EAGAIN :: int where "EAGAIN \<equiv> 11"
abbreviation ENOMEM :: int where "ENOMEM \<equiv> 12"
abbreviation EFAULT :: int where "EFAULT \<equiv> 14"
abbreviation EBUSY :: int where "EBUSY \<equiv> 16"
abbreviation ENODEV :: int where "ENODEV \<equiv> 19"
abbreviation EINVAL :: int where "EINVAL \<equiv> 22"
abbreviation ENOSPC :: int where "ENOSPC \<equiv> 28"
abbreviation EDOM :: int where "EDOM \<equiv> 33"
abbreviation EBADSLT :: int where "EBADSLT \<equiv> 57"
abbreviation ENODATA :: int where "ENODATA \<equiv> 61"
abbreviation EBADMSG :: int where "EBADMSG \<equiv> 74"
abbreviation ENETUNREACH :: int where "ENETUNREACH \<equiv> 101"
abbreviation ETIMEDOUT :: int where "ETIMEDOUT \<equiv> 110"
abbreviation EALREADY :: int where "EALREADY \<equiv> 114"
abbreviation ERESTARTSYS :: int where "ERESTARTSYS \<equiv> 512"

section \<open>Collections of facts\<close>

named_theorems fz_step \<open>equations that run an operation on a well-formed state\<close>
named_theorems fz_frame \<open>what an operation leaves unchanged\<close>

section \<open>Conversions between C integer types\<close>

text \<open>
  \<open>to_int\<close> is the conversion of a 64-bit unsigned value to \<open>int\<close> (the low 32 bits, read
  as two's complement), \<open>to_u64\<close> that of an \<open>int\<close> to a 64-bit unsigned value (sign
  extension).
\<close>

definition to_int :: "u64 \<Rightarrow> int" where
  "to_int x = sint (ucast x :: 32 word)"

definition to_u64 :: "int \<Rightarrow> u64" where
  "to_u64 i = word_of_int i"

lemma uint_less_unat: "unat x < n \<Longrightarrow> uint x < int n"
  by (metis of_nat_less_iff uint_nat)

lemma to_int_small:
  assumes "unat x < 2 ^ 31"
  shows "to_int x = int (unat x)"
proof -
  from uint_less_unat [OF assms] have u: "uint x < 2 ^ 31" by simp
  have "uint (ucast x :: 32 word) = uint x"
    using u by (simp add: unsigned_ucast_eq take_bit_int_eq_self)
  then have "sint (ucast x :: 32 word) = uint x"
    using u signed_take_bit_int_eq_self [of 31 "uint x"] uint_ge_0 [of x]
    by (simp add: sint_uint)
  then show ?thesis by (simp add: to_int_def)
qed

lemma to_u64_to_int:
  assumes "unat x < 2 ^ 31"
  shows "to_u64 (to_int x) = x"
  by (simp add: to_int_small [OF assms] to_u64_def)

text \<open>
  \<open>time_before(a, b)\<close> of \<open>linux/jiffies.h\<close>: the difference of the two counters, read as
  a signed \<open>long\<close>, is negative.
\<close>

definition time_before :: "u64 \<Rightarrow> u64 \<Rightarrow> bool" where
  "time_before a b \<longleftrightarrow> sint (a - b) < 0"

lemma sint_neg_iff_half: "sint (x :: u64) < 0 \<longleftrightarrow> 2 ^ 63 \<le> unat x"
proof -
  have l: "uint x < 2 ^ 64" using uint_lt2p [of x] by simp
  have "sint x < 0 \<longleftrightarrow> odd (uint x div 2 ^ 63)"
    by (simp add: sint_uint bit_iff_odd)
  also have "\<dots> \<longleftrightarrow> 2 ^ 63 \<le> uint x"
  proof
    assume "odd (uint x div 2 ^ 63)"
    then have "uint x div 2 ^ 63 \<noteq> 0" by (metis even_zero)
    then show "2 ^ 63 \<le> uint x" by (metis div_pos_pos_trivial not_le uint_ge_0)
  next
    assume "2 ^ 63 \<le> uint x"
    with l have "uint x div 2 ^ 63 = 1"
      by (intro int_div_pos_eq [where r = "uint x - 2 ^ 63"]) auto
    then show "odd (uint x div 2 ^ 63)" by simp
  qed
  also have "\<dots> \<longleftrightarrow> 2 ^ 63 \<le> unat x"
    using of_nat_le_iff [of "2 ^ 63" "unat x", where ?'a = int] by (simp del: of_nat_le_iff)
  finally show ?thesis .
qed

text \<open>While both counters are below the sign bit the comparison is the numeric one.\<close>

lemma time_before_iff:
  assumes "unat a < 2 ^ 63" and "unat b < 2 ^ 63"
  shows "time_before a b \<longleftrightarrow> unat a < unat b"
proof (cases "b \<le> a")
  case True
  then have "unat (a - b) = unat a - unat b" by (rule unat_sub)
  with assms True show ?thesis
    by (simp add: time_before_def sint_neg_iff_half word_le_nat_alt)
next
  case False
  then have lt: "unat a < unat b" by (simp add: word_le_nat_alt)
  have "unat (a - b) = (if unat b \<le> unat a then unat a - unat b else unat a + 2 ^ 64 - unat b)"
    by (simp add: unat_sub_if_size word_size)
  with assms lt show ?thesis
    by (simp add: time_before_def sint_neg_iff_half)
qed

section \<open>Byte arrays with checked accesses\<close>

text \<open>\<open>a[i] = c\<close> and \<open>memcpy(dst, src, n)\<close>: \<open>None\<close> outside the arrays.\<close>

definition put_byte :: "bytes \<Rightarrow> nat \<Rightarrow> char \<Rightarrow> bytes option" where
  "put_byte a i c = (if i < length a then Some (a[i := c]) else None)"

definition memcpy :: "bytes \<Rightarrow> bytes \<Rightarrow> nat \<Rightarrow> bytes option" where
  "memcpy dst src n =
     (if n \<le> length dst \<and> n \<le> length src then Some (take n src @ drop n dst) else None)"

lemma put_byte_Some [simp]: "i < length a \<Longrightarrow> put_byte a i c = Some (a[i := c])"
  by (simp add: put_byte_def)

lemma memcpy_Some [simp]:
  "n \<le> length dst \<Longrightarrow> n \<le> length src \<Longrightarrow> memcpy dst src n = Some (take n src @ drop n dst)"
  by (simp add: memcpy_def)

lemma put_byte_length: "put_byte a i c = Some b \<Longrightarrow> length b = length a"
  by (auto simp: put_byte_def split: if_splits)

lemma memcpy_length: "memcpy dst src n = Some b \<Longrightarrow> length b = length dst"
  by (auto simp: memcpy_def split: if_splits)

end
