(* ===== verification/Famez_Kalloc.thy ===== *)
theory Famez_Kalloc
  imports Famez_Prelude
begin

text \<open>
  What the drivers rely on from the kernel's allocator and locks.

  \<open>kzalloc\<close> may fail at any call: whether the \<open>i\<close>-th call of a run succeeds is the
  parameter \<open>k_ok\<close> of the heap, so every statement below is for every pattern of
  failures. Addresses are numbers that are never reused; freeing an address that is not
  live is a double free and has no result. A spin lock is a boolean; taking a held lock
  (the kernel would spin forever on the same CPU) and releasing a free one have no
  result either.

  The locale \<open>kobject_lifecycle\<close> is the contract of a constructor and its destructor:
  a failing constructor leaks nothing, a successful one owns fresh blocks, and the
  destructor frees exactly those.
\<close>

section \<open>The allocator\<close>

record kheap =
  k_ok :: "nat \<Rightarrow> bool"
  k_next :: nat
  k_live :: "nat set"

definition kzalloc :: "kheap \<Rightarrow> nat option \<times> kheap" where
  "kzalloc h =
     (if k_ok h (k_next h)
      then (Some (k_next h), h\<lparr>k_next := Suc (k_next h), k_live := insert (k_next h) (k_live h)\<rparr>)
      else (None, h\<lparr>k_next := Suc (k_next h)\<rparr>))"

definition kfree :: "nat option \<Rightarrow> kheap \<Rightarrow> kheap option" where
  "kfree p h =
     (case p of
        None \<Rightarrow> Some h
      | Some a \<Rightarrow> if a \<in> k_live h then Some (h\<lparr>k_live := k_live h - {a}\<rparr>) else None)"

definition wf_heap :: "kheap \<Rightarrow> bool" where
  "wf_heap h \<longleftrightarrow> (\<forall>a \<in> k_live h. a < k_next h)"

lemma wf_heap_fresh: "wf_heap h \<Longrightarrow> k_next h \<notin> k_live h"
  by (auto simp: wf_heap_def)

lemma kzalloc_wf: "kzalloc h = (p, h') \<Longrightarrow> wf_heap h \<Longrightarrow> wf_heap h'"
  by (auto simp: kzalloc_def wf_heap_def less_Suc_eq split: if_splits)

lemma kzalloc_Some:
  "kzalloc h = (Some a, h') \<Longrightarrow> wf_heap h \<Longrightarrow>
     a \<notin> k_live h \<and> k_live h' = insert a (k_live h) \<and> wf_heap h'"
  by (auto simp: kzalloc_def wf_heap_def less_Suc_eq split: if_splits)

lemma kzalloc_None: "kzalloc h = (None, h') \<Longrightarrow> k_live h' = k_live h"
  by (auto simp: kzalloc_def split: if_splits)

lemma kfree_NULL [simp]: "kfree None h = Some h"
  by (simp add: kfree_def)

lemma kfree_live [simp]: "a \<in> k_live h \<Longrightarrow> kfree (Some a) h = Some (h\<lparr>k_live := k_live h - {a}\<rparr>)"
  by (simp add: kfree_def)

lemma kfree_twice: "kfree (Some a) h = Some h' \<Longrightarrow> kfree (Some a) h' = None"
  by (auto simp: kfree_def split: if_splits)

lemma wf_heap_shrink: "wf_heap h \<Longrightarrow> L \<subseteq> k_live h \<Longrightarrow> wf_heap (h\<lparr>k_live := L\<rparr>)"
  by (auto simp: wf_heap_def)

text \<open>Two allocations in a row, the first undone when the second fails.\<close>

lemma kzalloc_pair:
  assumes wf: "wf_heap h"
  obtains (none) h1 where "kzalloc h = (None, h1)" and "wf_heap h1" and "k_live h1 = k_live h"
  | (one) p h1 h2 h3 where "kzalloc h = (Some p, h1)" and "kzalloc h1 = (None, h2)" and "kfree (Some p) h2 = Some h3"
      and "wf_heap h3" and "k_live h3 = k_live h"
  | (two) p q h1 h2 where "kzalloc h = (Some p, h1)" and "kzalloc h1 = (Some q, h2)" and "p \<noteq> q" and "wf_heap h2"
      and "{p, q} \<inter> k_live h = {}" and "k_live h2 = k_live h \<union> {p, q}"
proof -
  obtain x h1 where 1: "kzalloc h = (x, h1)" by (metis surj_pair)
  obtain y h2 where 2: "kzalloc h1 = (y, h2)" by (metis surj_pair)
  have w1: "wf_heap h1" and w2: "wf_heap h2" using kzalloc_wf 1 2 wf by auto
  show thesis
  proof (cases x)
    case None
    then show thesis using none [of h1] 1 w1 kzalloc_None [of h h1] by simp
  next
    case (Some p)
    have p: "p \<notin> k_live h" "k_live h1 = insert p (k_live h)" using kzalloc_Some [of h p h1] 1 Some wf by simp_all
    show thesis
    proof (cases y)
      case None
      then have l: "k_live h2 = insert p (k_live h)" using kzalloc_None [of h1 h2] 2 p by simp
      moreover from this have "wf_heap (h2\<lparr>k_live := k_live h\<rparr>)" using w2 by (auto intro: wf_heap_shrink)
      ultimately show thesis using one [of p h1 h2 "h2\<lparr>k_live := k_live h\<rparr>"] 1 2 Some None p by simp
    next
      case q: (Some q)
      have "q \<notin> k_live h1" "k_live h2 = insert q (k_live h1)" using kzalloc_Some [of h1 q h2] 2 q w1 by simp_all
      then show thesis using two [of p h1 q h2] 1 2 Some q p w2 by auto
    qed
  qed
qed

section \<open>Constructors and destructors\<close>

locale kobject_lifecycle =
  fixes create :: "kheap \<Rightarrow> ((int + 'r) \<times> kheap) option"
    and destroy :: "'r \<Rightarrow> kheap \<Rightarrow> kheap option"
    and owns :: "'r \<Rightarrow> nat set"
    and valid :: "'r \<Rightarrow> bool"
  assumes create_returns: "wf_heap h \<Longrightarrow> create h \<noteq> None"
    and create_wf: "wf_heap h \<Longrightarrow> create h = Some (res, h') \<Longrightarrow> wf_heap h'"
    and create_err: "wf_heap h \<Longrightarrow> create h = Some (Inl e, h') \<Longrightarrow> e < 0 \<and> k_live h' = k_live h"
    and create_ok: "wf_heap h \<Longrightarrow> create h = Some (Inr r, h') \<Longrightarrow>
      valid r \<and> owns r \<inter> k_live h = {} \<and> k_live h' = k_live h \<union> owns r"
    and destroy_frees: "valid r \<Longrightarrow> owns r \<subseteq> k_live h \<Longrightarrow>
      \<exists>h'. destroy r h = Some h' \<and> k_live h' = k_live h - owns r \<and> k_next h' = k_next h
        \<and> k_ok h' = k_ok h"
begin

text \<open>Creating and destroying an object leaves the set of live blocks as it was.\<close>

lemma lifecycle_balanced:
  assumes "wf_heap h" and "create h = Some (Inr r, h1)"
  shows "\<exists>h2. destroy r h1 = Some h2 \<and> k_live h2 = k_live h"
proof -
  from create_ok [OF assms] have v: "valid r"
    and o: "owns r \<inter> k_live h = {}" "k_live h1 = k_live h \<union> owns r" by auto
  then have "owns r \<subseteq> k_live h1" by simp
  from destroy_frees [OF v this] obtain h2
    where "destroy r h1 = Some h2" and "k_live h2 = k_live h1 - owns r" by auto
  with o show ?thesis by (intro exI [of _ h2]) auto
qed

text \<open>Two objects never share a block, so destroying one keeps the other alive.\<close>

lemma lifecycle_disjoint:
  assumes "wf_heap h" and "create h = Some (Inr r, h1)" and "create h1 = Some (Inr s, h2)"
  shows "owns r \<inter> owns s = {}"
proof -
  from create_ok [OF assms(1,2)] have "owns r \<subseteq> k_live h1" by auto
  moreover from create_ok [OF create_wf [OF assms(1,2)] assms(3)] have "owns s \<inter> k_live h1 = {}"
    by simp
  ultimately show ?thesis by blast
qed

end

section \<open>Locks\<close>

definition spin_lock :: "bool \<Rightarrow> bool option" where
  "spin_lock held = (if held then None else Some True)"

definition spin_unlock :: "bool \<Rightarrow> bool option" where
  "spin_unlock held = (if held then Some False else None)"

text \<open>A mutex or semaphore no other thread holds behaves the same way.\<close>

abbreviation mutex_lock :: "bool \<Rightarrow> bool option" where "mutex_lock \<equiv> spin_lock"
abbreviation mutex_unlock :: "bool \<Rightarrow> bool option" where "mutex_unlock \<equiv> spin_unlock"

lemma spin_lock_free [simp]: "spin_lock False = Some True"
  by (simp add: spin_lock_def)

lemma spin_unlock_held [simp]: "spin_unlock True = Some False"
  by (simp add: spin_unlock_def)

lemma spin_lock_held [simp]: "spin_lock True = None"
  by (simp add: spin_lock_def)

lemma spin_unlock_free [simp]: "spin_unlock False = None"
  by (simp add: spin_unlock_def)

end
