(* ===== verification/Genz_Core.thy ===== *)
theory Genz_Core
  imports Famez_Kalloc
begin

text \<open>
  The Gen-Z core structure: \<open>struct genz_core_structure\<close> of
  \<open>kernel/genz/genz_baseline.h\<close> and its constructor and destructor in
  \<open>kernel/genz/genz_device.c\<close>. A pointer to a core structure is a pair of its address
  and its contents; the optional destination table is only an address, since nothing
  reads it. The pair is shown to satisfy the contract \<open>kobject_lifecycle\<close>.
\<close>

section \<open>Data\<close>

record genz_core_structure =
  CCE :: u32
  Base_C_Class_str :: bytes
  CID0 :: s32
  SID0 :: s32
  PMCID :: s32
  PFMCID :: s32
  PFMSID :: s32
  SFMCID :: s32
  SFMSID :: s32
  comp_dest_table :: "nat option"

definition zero_core :: genz_core_structure where
  "zero_core = \<lparr>CCE = 0, Base_C_Class_str = replicate 32 (CHR 0x00), CID0 = 0, SID0 = 0,
     PMCID = 0, PFMCID = 0, PFMSID = 0, SFMCID = 0, SFMSID = 0, comp_dest_table = None\<rparr>"

text \<open>\<open>enum genz_core_structure_optional_substructures\<close>\<close>

definition GENZ_CORE_STRUCTURE_ALLOC_COMP_DEST_TABLE :: u64 where
  "GENZ_CORE_STRUCTURE_ALLOC_COMP_DEST_TABLE = push_bit 0 1"

definition GENZ_CORE_STRUCTURE_ALLOC_XYZZY_TABLE :: u64 where
  "GENZ_CORE_STRUCTURE_ALLOC_XYZZY_TABLE = push_bit 1 1"

definition GENZ_CORE_STRUCTURE_ALLOC_ALL :: u64 where
  "GENZ_CORE_STRUCTURE_ALLOC_ALL = push_bit 2 1 - 1"

type_synonym core_ptr = "nat \<times> genz_core_structure"

section \<open>Operations\<close>

definition genz_core_structure_destroy :: "core_ptr \<Rightarrow> kheap \<Rightarrow> kheap option" where
  "genz_core_structure_destroy c h0 = do {
     h1 \<leftarrow> (case comp_dest_table (snd c) of
              None \<Rightarrow> Some h0
            | Some t \<Rightarrow> kfree (Some t) h0);
     kfree (Some (fst c)) h1
   }"

definition genz_core_structure_create :: "u64 \<Rightarrow> kheap \<Rightarrow> ((int + core_ptr) \<times> kheap) option" where
  "genz_core_structure_create alloc h0 =
     (case kzalloc h0 of
        (None, h1) \<Rightarrow> Some (Inl (- ENOMEM), h1)
      | (Some a, h1) \<Rightarrow>
          if alloc AND GENZ_CORE_STRUCTURE_ALLOC_COMP_DEST_TABLE \<noteq> 0 then
            (case kzalloc h1 of
               (None, h2) \<Rightarrow> do {
                 h3 \<leftarrow> genz_core_structure_destroy (a, zero_core) h2;
                 Some (Inl (- ENOMEM), h3)
               }
             | (Some t, h2) \<Rightarrow> Some (Inr (a, zero_core\<lparr>comp_dest_table := Some t\<rparr>), h2))
          else Some (Inr (a, zero_core), h1))"

definition core_owns :: "core_ptr \<Rightarrow> nat set" where
  "core_owns c = insert (fst c) (case comp_dest_table (snd c) of None \<Rightarrow> {} | Some t \<Rightarrow> {t})"

section \<open>The contract\<close>

text \<open>A core structure whose table is a block of its own; what the constructor returns.\<close>

definition core_sep :: "core_ptr \<Rightarrow> bool" where
  "core_sep c \<longleftrightarrow> comp_dest_table (snd c) \<noteq> Some (fst c)"

lemma zero_core_table [simp]: "comp_dest_table zero_core = None"
  by (simp add: zero_core_def)

lemma destroy_core_frees:
  assumes "core_owns c \<subseteq> k_live h" and "core_sep c"
  shows "genz_core_structure_destroy c h = Some (h\<lparr>k_live := k_live h - core_owns c\<rparr>)"
  using assms
  by (cases "comp_dest_table (snd c)")
    (auto simp: genz_core_structure_destroy_def core_owns_def core_sep_def
      intro!: arg_cong [where f = "\<lambda>L. h\<lparr>k_live := L\<rparr>"])

lemma create_core_cases:
  assumes wf: "wf_heap h" and c: "genz_core_structure_create alloc h = Some (r, h')"
  shows "wf_heap h' \<and>
    (case r of
       Inl e \<Rightarrow> e = - ENOMEM \<and> k_live h' = k_live h
     | Inr p \<Rightarrow> core_owns p \<inter> k_live h = {} \<and> k_live h' = k_live h \<union> core_owns p \<and> core_sep p \<and>
         snd p\<lparr>comp_dest_table := None\<rparr> = zero_core)"
proof (cases "kzalloc h")
  case (Pair p h1)
  show ?thesis
  proof (cases p)
    case None
    with Pair c show ?thesis
      using kzalloc_None [of h h1] kzalloc_wf [OF _ wf]
      by (auto simp: genz_core_structure_create_def)
  next
    case (Some a)
    with Pair wf have 1: "a \<notin> k_live h" "k_live h1 = insert a (k_live h)" "wf_heap h1"
      using kzalloc_Some by blast+
    show ?thesis
    proof (cases "alloc AND GENZ_CORE_STRUCTURE_ALLOC_COMP_DEST_TABLE = 0")
      case True
      with c Pair Some 1 show ?thesis
        by (auto simp: genz_core_structure_create_def core_owns_def core_sep_def zero_core_def)
    next
      case t: False
      obtain q h2 where 2: "kzalloc h1 = (q, h2)" by (cases "kzalloc h1")
      show ?thesis
      proof (cases q)
        case None
        with 2 1 have l: "k_live h2 = insert a (k_live h)" "wf_heap h2"
          using kzalloc_None kzalloc_wf by blast+
        with c Pair Some t 2 None 1 show ?thesis
          by (auto simp: genz_core_structure_create_def genz_core_structure_destroy_def
              intro: wf_heap_shrink)
      next
        case (Some b)
        with 2 1 have "b \<notin> k_live h1" "k_live h2 = insert b (k_live h1)" "wf_heap h2"
          using kzalloc_Some by blast+
        with c Pair \<open>p = Some a\<close> t 2 Some 1 show ?thesis
          by (auto simp: genz_core_structure_create_def core_owns_def core_sep_def zero_core_def)
      qed
    qed
  qed
qed

lemmas create_core_err = create_core_cases [where r = "Inl e" for e, simplified]
  and create_core_ok = create_core_cases [where r = "Inr p" for p, simplified]

interpretation genz_core: kobject_lifecycle
  "genz_core_structure_create alloc" genz_core_structure_destroy core_owns core_sep
proof unfold_locales
  fix h :: kheap
  assume "wf_heap h"
  show "genz_core_structure_create alloc h \<noteq> None"
  proof (cases "kzalloc h")
    case (Pair p h1)
    show ?thesis
    proof (cases p)
      case (Some a)
      with Pair \<open>wf_heap h\<close> have "a \<in> k_live h1" using kzalloc_Some [of h a h1] by simp
      moreover from this have "k_live h2 = k_live h1 \<Longrightarrow> kfree (Some a) h2 \<noteq> None" for h2
        by simp
      ultimately show ?thesis using Pair Some
        by (auto simp: genz_core_structure_create_def genz_core_structure_destroy_def
            dest!: kzalloc_None split: prod.splits option.splits)
    qed (use Pair in \<open>simp add: genz_core_structure_create_def\<close>)
  qed
next
  fix h h' :: kheap and r
  assume "wf_heap h" and "genz_core_structure_create alloc h = Some (r, h')"
  then show "wf_heap h'" by (rule create_core_cases [THEN conjunct1])
next
  fix h h' :: kheap and e
  assume "wf_heap h" and "genz_core_structure_create alloc h = Some (Inl e, h')"
  from create_core_err [OF this] show "e < 0 \<and> k_live h' = k_live h" by simp
next
  fix h h' :: kheap and r
  assume "wf_heap h" and "genz_core_structure_create alloc h = Some (Inr r, h')"
  from create_core_ok [OF this]
  show "core_sep r \<and> core_owns r \<inter> k_live h = {} \<and> k_live h' = k_live h \<union> core_owns r" by simp
qed (simp add: destroy_core_frees)

section \<open>Properties\<close>

text \<open>
  Whatever allocation fails, creating a core structure returns; a failure leaves the
  set of live blocks as it was, and destroying what a success created frees exactly the
  blocks the creation had taken.
\<close>

theorem core_lifecycle:
  assumes "wf_heap h"
  shows "\<exists>r h1. genz_core_structure_create alloc h = Some (r, h1) \<and>
    (case r of
       Inl e \<Rightarrow> e < 0 \<and> k_live h1 = k_live h
     | Inr c \<Rightarrow> core_owns c \<inter> k_live h = {} \<and> (\<exists>h2. genz_core_structure_destroy c h1 = Some h2 \<and> k_live h2 = k_live h))"
proof -
  obtain r h1 where c: "genz_core_structure_create alloc h = Some (r, h1)"
    using genz_core.create_returns [OF assms, where alloc = alloc] by auto
  show ?thesis
  proof (cases r)
    case (Inl e)
    then show ?thesis using c genz_core.create_err [OF assms, of alloc e h1] by simp
  next
    case (Inr p)
    then show ?thesis using c genz_core.create_ok [OF assms, of alloc p h1] genz_core.lifecycle_balanced [OF assms, of alloc p h1]
      by simp
  qed
qed

text \<open>A heap in which every allocation up to the \<open>n\<close>-th succeeds.\<close>

definition demo_heap :: "nat \<Rightarrow> kheap" where
  "demo_heap n = \<lparr>k_ok = (\<lambda>i. i < n), k_next = 0, k_live = {}\<rparr>"

lemma demo_heap_wf [simp]: "wf_heap (demo_heap n)" "k_live (demo_heap n) = {}"
  by (simp_all add: wf_heap_def demo_heap_def)

theorem core_lifecycle_witness:
  "\<exists>r h1. genz_core_structure_create GENZ_CORE_STRUCTURE_ALLOC_ALL (demo_heap 1) = Some (r, h1) \<and>
    (case r of
       Inl e \<Rightarrow> e < 0 \<and> k_live h1 = k_live (demo_heap 1)
     | Inr c \<Rightarrow> core_owns c \<inter> k_live (demo_heap 1) = {} \<and>
         (\<exists>h2. genz_core_structure_destroy c h1 = Some h2 \<and> k_live h2 = k_live (demo_heap 1)))"
  by (rule core_lifecycle) simp

end
