(* ===== verification/Famez_Cstring.thy ===== *)
theory Famez_Cstring
  imports Famez_Prelude
begin

text \<open>
  The C string routines the drivers call: NUL-terminated strings in byte arrays
  (\<open>strlen\<close>, \<open>strcmp\<close>, \<open>strncmp\<close>, \<open>strchr\<close>), the conversions \<open>%d\<close>, \<open>%llu\<close>, \<open>%02x\<close>
  and \<open>%03llu\<close> of the \<open>printf\<close> family, \<open>snprintf\<close>'s truncation, and the subset of
  \<open>sscanf\<close> that literal text, white space and \<open>%d\<close> need. As in \<open>lib/vsprintf.c\<close> of
  the kernel, \<open>%d\<close> skips white space and takes an optional minus sign (no plus sign). White
  space is that of ASCII; the no-break space 0xA0, which the kernel's \<open>isspace\<close> also accepts, is
  not. The string in an array without a NUL is taken to end with the array.

  The lemmas lead to one fact: reading what was printed gives back the value.
\<close>

section \<open>Strings in byte arrays\<close>

abbreviation NUL :: char where "NUL \<equiv> CHR 0x00"

text \<open>The C string an array holds: the bytes before the first NUL.\<close>

definition cstr :: "bytes \<Rightarrow> string" where
  "cstr b = takeWhile (\<lambda>c. c \<noteq> NUL) b"

definition strlen :: "bytes \<Rightarrow> nat" where
  "strlen b = length (cstr b)"

text \<open>The macros \<open>STREQ\<close> and \<open>STREQ_N\<close> of \<open>famez.h\<close>.\<close>

definition STREQ :: "bytes \<Rightarrow> bytes \<Rightarrow> bool" where
  "STREQ s1 s2 \<longleftrightarrow> cstr s1 = cstr s2"

definition STREQ_N :: "bytes \<Rightarrow> bytes \<Rightarrow> nat \<Rightarrow> bool" where
  "STREQ_N s1 s2 n \<longleftrightarrow> take n (cstr s1) = take n (cstr s2)"

text \<open>\<open>strchr\<close>: the index of the first such character of the string.\<close>

fun index_of :: "char \<Rightarrow> string \<Rightarrow> nat option" where
  "index_of c [] = None"
| "index_of c (x # xs) = (if x = c then Some 0 else map_option Suc (index_of c xs))"

definition strchr :: "bytes \<Rightarrow> char \<Rightarrow> nat option" where
  "strchr b c = index_of c (cstr b)"

lemma cstr_no_nul [simp]: "NUL \<notin> set s \<Longrightarrow> cstr s = s"
  by (simp add: cstr_def takeWhile_eq_all_conv) blast

lemma cstr_append_nul [simp]: "NUL \<notin> set s \<Longrightarrow> cstr (s @ NUL # r) = s"
  by (induction s) (auto simp: cstr_def)

lemma cstr_length_le: "length (cstr b) \<le> length b"
  by (simp add: cstr_def length_takeWhile_le)

text \<open>What follows the first NUL is not part of the string.\<close>

lemma cstr_terminated: "cstr (tx @ NUL # r) = cstr tx"
  by (induction tx) (simp_all add: cstr_def)

lemma NUL_notin_cstr [simp]: "NUL \<notin> set (cstr b)"
  by (auto simp: cstr_def dest: set_takeWhileD)

lemma index_of_None: "index_of c xs = None \<longleftrightarrow> c \<notin> set xs"
  by (induction xs) auto

lemma index_of_append: "c \<notin> set xs \<Longrightarrow> index_of c (xs @ c # ys) = Some (length xs)"
  by (induction xs) auto

lemma index_of_Some: "index_of c xs = Some i \<Longrightarrow> i < length xs \<and> xs ! i = c \<and> c \<notin> set (take i xs)"
proof (induction xs arbitrary: i)
  case (Cons x xs)
  show ?case
  proof (cases "x = c")
    case False
    with Cons.prems obtain j where "i = Suc j" and "index_of c xs = Some j" by auto
    with Cons.IH False show ?thesis by auto
  qed (use Cons.prems in auto)
qed simp

section \<open>Printing numbers\<close>

definition digit_char :: "nat \<Rightarrow> char" where
  "digit_char d = char_of (48 + d)"

fun dec_nat :: "nat \<Rightarrow> string" where
  "dec_nat n = (if n < 10 then [digit_char n] else dec_nat (n div 10) @ [digit_char (n mod 10)])"

declare dec_nat.simps [simp del]

text \<open>\<open>%d\<close> of an \<open>int\<close>, \<open>%llu\<close> of a 64-bit value.\<close>

definition dec_int :: "int \<Rightarrow> string" where
  "dec_int i = (if i < 0 then CHR ''-'' # dec_nat (nat (- i)) else dec_nat (nat i))"

definition dec_u64 :: "u64 \<Rightarrow> string" where
  "dec_u64 x = dec_nat (unat x)"

text \<open>\<open>%0wd\<close>-style padding, \<open>%x\<close> and \<open>%02x\<close>.\<close>

definition pad0 :: "nat \<Rightarrow> string \<Rightarrow> string" where
  "pad0 w s = replicate (w - length s) (CHR ''0'') @ s"

definition hex_char :: "nat \<Rightarrow> char" where
  "hex_char d = (if d < 10 then char_of (48 + d) else char_of (87 + d))"

fun hex_nat :: "nat \<Rightarrow> string" where
  "hex_nat n = (if n < 16 then [hex_char n] else hex_nat (n div 16) @ [hex_char (n mod 16)])"

declare hex_nat.simps [simp del]

definition hex02 :: "nat \<Rightarrow> string" where
  "hex02 n = pad0 2 (hex_nat n)"

text \<open>
  \<open>snprintf(dst, sz, \<dots>)\<close> for a formatted text \<open>s\<close>: at most \<open>sz - 1\<close> bytes and a NUL
  are stored (nothing when \<open>sz\<close> is 0), and the return value is the length of the
  whole text. \<open>sprintf\<close> stores all of it, which is outside the array unless it fits.
\<close>

definition snprintf :: "bytes \<Rightarrow> nat \<Rightarrow> string \<Rightarrow> (bytes \<times> nat) option" where
  "snprintf dst sz s =
     (if sz = 0 then Some (dst, length s)
      else let t = take (sz - 1) s @ [NUL] in
        map_option (\<lambda>d. (d, length s)) (memcpy dst t (length t)))"

definition sprintf :: "bytes \<Rightarrow> string \<Rightarrow> bytes option" where
  "sprintf dst s = memcpy dst (s @ [NUL]) (length s + 1)"

text \<open>\<open>strncpy(dst, src, n)\<close>: padded with NULs, and without one if the source is too long.\<close>

definition strncpy :: "bytes \<Rightarrow> bytes \<Rightarrow> nat \<Rightarrow> bytes option" where
  "strncpy dst src n = memcpy dst (take n (cstr src @ replicate n NUL)) n"

lemma of_char_digit_char [simp]: "d < 10 \<Longrightarrow> (of_char (digit_char d) :: nat) = 48 + d"
  by (simp add: digit_char_def)

lemma digit_char_neq:
  assumes "d < 10" and "\<not> (48 \<le> (of_char c :: nat) \<and> (of_char c :: nat) \<le> 57)"
  shows "digit_char d \<noteq> c"
proof
  assume "digit_char d = c"
  then have "(of_char c :: nat) = 48 + d" using assms(1) of_char_digit_char by metis
  with assms show False by simp
qed

lemma dec_nat_not_Nil [simp]: "dec_nat n \<noteq> []"
  by (subst dec_nat.simps) simp

lemma dec_nat_digits: "c \<in> set (dec_nat n) \<Longrightarrow> \<exists>d < 10. c = digit_char d"
proof (induction n rule: dec_nat.induct)
  case (1 n)
  show ?case
  proof (cases "n < 10")
    case True
    with "1.prems" show ?thesis by (auto simp: dec_nat.simps [of n])
  next
    case False
    with "1.prems" have "c \<in> set (dec_nat (n div 10)) \<or> c = digit_char (n mod 10)"
      by (auto simp: dec_nat.simps [of n])
    then show ?thesis
    proof
      assume "c \<in> set (dec_nat (n div 10))"
      with False show ?thesis by (rule "1.IH")
    next
      assume "c = digit_char (n mod 10)"
      then show ?thesis by (intro exI [of _ "n mod 10"]) simp
    qed
  qed
qed

text \<open>A number below \<open>10 ^ k\<close> prints in at most \<open>k\<close> digits.\<close>

lemma dec_nat_length: "n < 10 ^ k \<Longrightarrow> 0 < k \<Longrightarrow> length (dec_nat n) \<le> k"
proof (induction k arbitrary: n)
  case (Suc k)
  show ?case
  proof (cases "n < 10")
    case True
    then show ?thesis by (simp add: dec_nat.simps [of n])
  next
    case False
    then have "0 < k" using Suc.prems by (cases k) auto
    moreover have "n div 10 < 10 ^ k"
      using Suc.prems by (simp add: less_mult_imp_div_less mult.commute)
    ultimately have "length (dec_nat (n div 10)) \<le> k" by (intro Suc.IH)
    with False show ?thesis by (simp add: dec_nat.simps [of n])
  qed
qed simp

lemma dec_u64_length: "length (dec_u64 x) \<le> 20"
proof -
  have "unat x < 2 ^ 64" using unsigned_less [of x, where ?'a = nat] by simp
  then have "unat x < 10 ^ 20" by simp
  then show ?thesis unfolding dec_u64_def by (intro dec_nat_length) simp_all
qed

text \<open>\<open>%d\<close> of a 32-bit integer takes at most eleven characters.\<close>

lemma dec_int_s32_length: "length (dec_int (sint (x :: s32))) \<le> 11"
proof -
  have b: "- (2 ^ 31) \<le> sint x" "sint x < 2 ^ 31"
    using sint_ge [of x] sint_lt [of x] by simp_all
  show ?thesis
  proof (cases "sint x < 0")
    case True
    with b have "nat (- sint x) < 10 ^ 10" by simp
    then have "length (dec_nat (nat (- sint x))) \<le> 10" by (rule dec_nat_length) simp
    with True show ?thesis by (simp add: dec_int_def)
  next
    case False
    with b have "nat (sint x) < 10 ^ 10" by simp
    then have "length (dec_nat (nat (sint x))) \<le> 10" by (rule dec_nat_length) simp
    with False show ?thesis by (simp add: dec_int_def)
  qed
qed

lemma NUL_notin_dec_nat [simp]: "NUL \<notin> set (dec_nat n)"
  by (auto dest!: dec_nat_digits simp: digit_char_neq [symmetric])

lemma NUL_notin_dec_int [simp]: "NUL \<notin> set (dec_int i)"
  by (simp add: dec_int_def)

lemma NUL_notin_dec_u64 [simp]: "NUL \<notin> set (dec_u64 x)"
  by (simp add: dec_u64_def)

section \<open>Reading numbers: the part of sscanf the drivers use\<close>

definition isspace :: "char \<Rightarrow> bool" where
  "isspace c \<longleftrightarrow> of_char c = (32::nat) \<or> (9 \<le> (of_char c :: nat) \<and> (of_char c :: nat) \<le> 13)"

definition isdigit :: "char \<Rightarrow> bool" where
  "isdigit c \<longleftrightarrow> 48 \<le> (of_char c :: nat) \<and> (of_char c :: nat) \<le> 57"

definition skip_spaces :: "string \<Rightarrow> string" where
  "skip_spaces s = dropWhile isspace s"

fun read_digits :: "nat \<Rightarrow> string \<Rightarrow> nat \<times> string" where
  "read_digits acc [] = (acc, [])"
| "read_digits acc (c # cs) =
     (if isdigit c then read_digits (10 * acc + (of_char c - 48)) cs else (acc, c # cs))"

text \<open>One \<open>%d\<close>: the value and the rest of the input, \<open>None\<close> for a matching failure.\<close>

definition scan_d :: "string \<Rightarrow> (int \<times> string) option" where
  "scan_d s0 =
     (case skip_spaces s0 of
        [] \<Rightarrow> None
      | c # cs \<Rightarrow>
          if c = CHR ''-'' then
            (case cs of
               [] \<Rightarrow> None
             | d # _ \<Rightarrow> if isdigit d then
                 (let (n, r) = read_digits 0 cs in Some (- int n, r)) else None)
          else if isdigit c then (let (n, r) = read_digits 0 (c # cs) in Some (int n, r))
          else None)"

text \<open>
  \<open>sscanf(str, fmt, \<dots>)\<close> for a format of literals, white space and \<open>%d\<close>: the list of the
  values converted before the first failure; its length is the return value.
\<close>

fun sscanf :: "string \<Rightarrow> string \<Rightarrow> int list" where
  "sscanf [] str = []"
| "sscanf (f # fmt) str =
     (if isspace f then sscanf fmt (skip_spaces str)
      else case fmt of
        d # fmt' \<Rightarrow>
          if f = CHR ''%'' \<and> d = CHR ''d'' then
            (case scan_d str of None \<Rightarrow> [] | Some (i, r) \<Rightarrow> i # sscanf fmt' r)
          else (case str of [] \<Rightarrow> [] | c # cs \<Rightarrow> if c = f then sscanf fmt cs else [])
      | [] \<Rightarrow> [])"

lemma isdigit_digit_char [simp]: "d < 10 \<Longrightarrow> isdigit (digit_char d)"
  by (simp add: isdigit_def)

lemma isdigit_not_space: "isdigit c \<Longrightarrow> \<not> isspace c"
  by (auto simp: isdigit_def isspace_def)

lemma isdigit_not_minus: "isdigit c \<Longrightarrow> c \<noteq> CHR ''-''"
  by (auto simp: isdigit_def)

definition stops :: "string \<Rightarrow> bool" where
  "stops r \<longleftrightarrow> r = [] \<or> \<not> isdigit (hd r)"

lemma read_digits_append:
  "read_digits a (dec_nat n @ r) = read_digits (a * 10 ^ length (dec_nat n) + n) r"
proof (induction n arbitrary: a r rule: dec_nat.induct)
  case (1 n)
  show ?case
  proof (cases "n < 10")
    case True
    then show ?thesis by (simp add: dec_nat.simps [of n] mult.commute)
  next
    case False
    have "read_digits a (dec_nat n @ r)
        = read_digits (a * 10 ^ length (dec_nat (n div 10)) + n div 10) (digit_char (n mod 10) # r)"
      using False "1.IH" [of a "digit_char (n mod 10) # r"] by (simp add: dec_nat.simps [of n])
    also have "\<dots> = read_digits (10 * (a * 10 ^ length (dec_nat (n div 10)) + n div 10) + n mod 10) r"
      by simp
    also have "10 * (a * 10 ^ length (dec_nat (n div 10)) + n div 10) + n mod 10
        = a * 10 ^ length (dec_nat n) + n"
      using False by (simp add: dec_nat.simps [of n] algebra_simps)
    finally show ?thesis .
  qed
qed

lemma read_digits_dec_nat: "stops r \<Longrightarrow> read_digits 0 (dec_nat n @ r) = (n, r)"
  using read_digits_append [of 0 n r] by (cases r) (auto simp: stops_def)

lemma dec_nat_Cons: obtains c cs where "dec_nat n = c # cs" and "isdigit c"
proof -
  obtain c cs where e: "dec_nat n = c # cs" by (cases "dec_nat n") auto
  then have "c \<in> set (dec_nat n)" by simp
  then obtain d where "d < 10" and "c = digit_char d" using dec_nat_digits by blast
  then have "isdigit c" by simp
  with e that show thesis by blast
qed

text \<open>Reading back a printed integer, whatever non-digit follows it.\<close>

theorem scan_d_dec_int: "stops r \<Longrightarrow> scan_d (dec_int i @ r) = Some (i, r)"
proof -
  assume r: "stops r"
  show ?thesis
  proof (cases "i < 0")
    case True
    obtain c cs where c: "dec_nat (nat (- i)) = c # cs" "isdigit c" by (rule dec_nat_Cons)
    have "skip_spaces (dec_int i @ r) = CHR ''-'' # dec_nat (nat (- i)) @ r"
      using True by (simp add: dec_int_def skip_spaces_def isspace_def)
    moreover have "read_digits 0 (dec_nat (nat (- i)) @ r) = (nat (- i), r)"
      using r by (rule read_digits_dec_nat)
    ultimately show ?thesis using True c by (simp add: scan_d_def)
  next
    case False
    obtain c cs where c: "dec_nat (nat i) = c # cs" "isdigit c" by (rule dec_nat_Cons)
    then have "skip_spaces (dec_int i @ r) = dec_nat (nat i) @ r"
      using False by (simp add: dec_int_def skip_spaces_def isdigit_not_space)
    moreover have "read_digits 0 (dec_nat (nat i) @ r) = (nat i, r)"
      using r by (rule read_digits_dec_nat)
    ultimately show ?thesis using False c isdigit_not_minus by (simp add: scan_d_def)
  qed
qed

text \<open>Scanning steps over the literal text of a format and reads what \<open>%d\<close> printed.\<close>

definition plain :: "string \<Rightarrow> bool" where
  "plain s \<longleftrightarrow> (\<forall>c \<in> set s. \<not> isspace c \<and> c \<noteq> CHR ''%'')"

lemma sscanf_literal:
  "plain lit \<Longrightarrow> sscanf (lit @ fmt) (lit @ str) = sscanf fmt str"
proof (induction lit)
  case (Cons c lit)
  then have "\<not> isspace c" and "c \<noteq> CHR ''%''" and IH: "sscanf (lit @ fmt) (lit @ str) = sscanf fmt str"
    by (auto simp: plain_def)
  then show ?case by (cases "lit @ fmt") auto
qed simp

lemma sscanf_d:
  "stops r \<Longrightarrow> sscanf (''%d'' @ fmt) (dec_int i @ r) = i # sscanf fmt r"
  by (simp add: scan_d_dec_int isspace_def)

lemma sscanf_space:
  "\<not> isspace c \<Longrightarrow> sscanf (CHR '' '' # fmt) (CHR '' '' # c # str) = sscanf fmt (c # str)"
  by (simp add: skip_spaces_def) (simp add: isspace_def)

lemma stops_nondigit [simp]: "\<not> isdigit c \<Longrightarrow> stops (c # s)"
  by (simp add: stops_def)

lemma stops_Nil [simp]: "stops []"
  by (simp add: stops_def)

lemma sprintf_fits:
  "length s < length dst \<Longrightarrow> \<exists>d. sprintf dst s = Some d \<and> (NUL \<notin> set s \<longrightarrow> cstr d = s) \<and>
    length d = length dst \<and> take (length s) d = s"
  by (simp add: sprintf_def)

end
