(* ===== verification/Famez_Mailbox.thy ===== *)
theory Famez_Mailbox
  imports Genz_Core Famez_Cstring
begin

text \<open>
  The data of \<open>kernel/famez/famez.h\<close> and \<open>kernel/famez/fz_bridge.h\<close>, and
  \<open>calculate_mailslot\<close> of \<open>kernel/famez/famez_adapter.c\<close>.

  All guests map the same IVSHMEM memory (BAR 2) at their own virtual address. A
  \<open>struct famez_mailslot *\<close> is modelled by its byte offset from \<open>adapter->globals\<close>, the
  same number in every guest, \<open>None\<close> being NULL; the memory itself is a map from byte
  offsets to mailslots. \<open>slots_disjoint\<close> below justifies that typed view: two different
  slot numbers that \<open>calculate_mailslot\<close> accepts give byte ranges that do not meet, and
  none meets the globals at offset 0.

  \<open>regs\<close> and \<open>globals\<close> of the adapter record whether BAR 0 and BAR 2 are mapped
  (non-NULL). What is read through them is in \<open>fz_world\<close>, together with the doorbell
  writes in the order they were made, the guest's jiffies counter and the static
  variable \<open>longest\<close> of \<open>famez_IVSHMSG.c\<close>.
\<close>

section \<open>Data\<close>

record ivshmem_registers =
  Rev1Reserved1 :: u32
  Rev1Reserved2 :: u32
  IVPosition :: u32
  Doorbell :: u32

record famez_globals =
  slotsize :: u64
  buf_offset :: u64
  nClients :: u64
  nEvents :: u64
  server_id :: u64

record famez_mailslot =
  nodename :: bytes
  buflen :: u64
  peer_id :: u64
  last_responder :: u64
  peer_SID :: u64
  peer_CID :: u64
  buf :: bytes

text \<open>\<open>offsetof(struct famez_mailslot, buf)\<close>: the name, five counters, seven words of padding.\<close>

definition offsetof_buf :: u64 where
  "offsetof_buf = 32 + 5 * 8 + 7 * 8"

text \<open>\<open>struct msix_entry\<close> of \<open>linux/pci.h\<close>.\<close>

record msix_entry =
  vector :: u32
  entry :: u16

record bridge_buffers =
  buffers_addr :: nat
  wbuf_addr :: nat
  wbuf :: bytes
  wbuf_mutex :: bool

record famez_adapter =
  nr_users :: int
  pdev :: "nat option"
  max_buflen :: u64
  my_id :: u16
  regs :: bool
  globals :: bool
  my_slot :: "u64 option"
  IRQ_private :: "(nat \<times> msix_entry list) option"
  incoming_slot :: "u64 option"
  incoming_slot_lock :: bool
  outgoing :: "bridge_buffers option"
  core :: "core_ptr option"

abbreviation FAMEZ_SID_DEFAULT :: u64 where "FAMEZ_SID_DEFAULT \<equiv> 27"
abbreviation FAMEZ_SID_CID_IS_PEER_ID :: int where "FAMEZ_SID_CID_IS_PEER_ID \<equiv> - 42"

record fz_world =
  bar0 :: ivshmem_registers
  bar2_globals :: famez_globals
  bar2 :: "u64 \<Rightarrow> famez_mailslot"
  doorbells :: "u32 list"
  jiffies :: u64
  longest :: u64

section \<open>Access through pointers\<close>

definition deref_globals :: "famez_adapter \<Rightarrow> fz_world \<Rightarrow> famez_globals option" where
  "deref_globals a w = (if globals a then Some (bar2_globals w) else None)"

definition deref_slot :: "u64 option \<Rightarrow> fz_world \<Rightarrow> famez_mailslot option" where
  "deref_slot p w = map_option (bar2 w) p"

definition put_slot :: "u64 \<Rightarrow> famez_mailslot \<Rightarrow> fz_world \<Rightarrow> fz_world" where
  "put_slot p m w = w\<lparr>bar2 := (bar2 w)(p := m)\<rparr>"

definition ring :: "u32 \<Rightarrow> fz_world \<Rightarrow> fz_world" where
  "ring d w = w\<lparr>bar0 := (bar0 w)\<lparr>Doorbell := d\<rparr>, doorbells := doorbells w @ [d]\<rparr>"

lemma bar2_put_slot [simp]: "bar2 (put_slot p m w) q = (if q = p then m else bar2 w q)"
  by (simp add: put_slot_def)

lemma put_slot_simps [simp]:
  "bar2_globals (put_slot p m w) = bar2_globals w"
  "doorbells (put_slot p m w) = doorbells w"
  "jiffies (put_slot p m w) = jiffies w"
  "longest (put_slot p m w) = longest w"
  "bar0 (put_slot p m w) = bar0 w"
  by (simp_all add: put_slot_def)

lemma ring_simps [simp]:
  "bar2_globals (ring d w) = bar2_globals w"
  "bar2 (ring d w) = bar2 w"
  "doorbells (ring d w) = doorbells w @ [d]"
  "jiffies (ring d w) = jiffies w"
  "longest (ring d w) = longest w"
  by (simp_all add: ring_def)

lemma deref_slot_Some [simp]: "deref_slot (Some p) w = Some (bar2 w p)"
  by (simp add: deref_slot_def)

lemma deref_slot_None [simp]: "deref_slot None w = None"
  by (simp add: deref_slot_def)

lemma deref_globals_mapped [simp]: "globals a \<Longrightarrow> deref_globals a w = Some (bar2_globals w)"
  by (simp add: deref_globals_def)

section \<open>Finding a slot\<close>

definition valid_slotnum :: "famez_globals \<Rightarrow> u32 \<Rightarrow> bool" where
  "valid_slotnum g n \<longleftrightarrow>
     \<not> ((n < 1 \<or> (ucast n :: u64) > nClients g) \<and> (ucast n :: u64) \<noteq> server_id g)"

definition calculate_mailslot :: "famez_adapter \<Rightarrow> u32 \<Rightarrow> fz_world \<Rightarrow> u64 option option" where
  "calculate_mailslot a slotnum w = do {
     g \<leftarrow> deref_globals a w;
     if (slotnum < 1 \<or> (ucast slotnum :: u64) > nClients g) \<and> (ucast slotnum :: u64) \<noteq> server_id g
     then Some None
     else Some (Some (ucast slotnum * slotsize g))
   }"

text \<open>
  The geometry the server publishes (\<open>famez_mailbox.py\<close>, \<open>twisted_server.py\<close>): the
  server follows the last client, there is one event per slot and slot 0, and the file
  is far smaller than the address space.
\<close>

definition geometry :: "famez_globals \<Rightarrow> bool" where
  "geometry g \<longleftrightarrow>
     buf_offset g = offsetof_buf \<and> offsetof_buf < slotsize g \<and> unat (slotsize g) < 2 ^ 31 \<and>
     unat (nClients g) < 2 ^ 16 - 2 \<and> 0 < unat (nClients g) \<and>
     server_id g = nClients g + 1 \<and> nEvents g = nClients g + 2"

definition slot_off :: "famez_globals \<Rightarrow> nat \<Rightarrow> u64" where
  "slot_off g n = of_nat n * slotsize g"

lemma unat_less_2p [simp]: "unat (x :: u64) < 18446744073709551616"
  using unsigned_less [of x, where ?'a = nat] by simp

lemma geometry_unat:
  assumes "geometry g"
  shows "unat (server_id g) = unat (nClients g) + 1" and "unat (nEvents g) = unat (nClients g) + 2"
proof -
  from assms have "unat (nClients g) < 2 ^ 16 - 2" by (simp add: geometry_def)
  then show "unat (server_id g) = unat (nClients g) + 1"
    and "unat (nEvents g) = unat (nClients g) + 2"
    using assms by (simp_all add: geometry_def unat_word_ariths)
qed

lemma unat_ucast_u32 [simp]: "unat (ucast (n :: u32) :: u64) = unat n"
  using unsigned_less [of n, where ?'a = nat]
  by (simp add: unsigned_ucast_eq take_bit_nat_eq_self)

lemma valid_slotnum_bounds:
  assumes "geometry g" and "valid_slotnum g n"
  shows "0 < unat n" and "unat n \<le> unat (nClients g) + 1"
proof -
  have "1 \<le> unat n \<and> unat n \<le> unat (nClients g) + 1"
  proof (cases "(ucast n :: u64) = server_id g")
    case True
    then have "unat n = unat (nClients g) + 1"
      using geometry_unat(1) [OF assms(1)] by (metis unat_ucast_u32)
    then show ?thesis by simp
  next
    case False
    with assms(2) have "n \<noteq> 0" and "(ucast n :: u64) \<le> nClients g"
      by (auto simp: valid_slotnum_def)
    then show ?thesis by (auto simp: word_le_nat_alt unat_eq_0 Suc_le_eq unat_gt_0)
  qed
  then show "0 < unat n" and "unat n \<le> unat (nClients g) + 1" by auto
qed

text \<open>No slot address wraps around.\<close>

lemma unat_slot_off:
  assumes "geometry g" and "n \<le> 2 ^ 16"
  shows "unat (slot_off g n) = n * unat (slotsize g)"
proof -
  from assms have "n * unat (slotsize g) \<le> 2 ^ 16 * 2 ^ 31"
    by (intro mult_le_mono) (auto simp: geometry_def)
  then have "n * unat (slotsize g) < 2 ^ 64" by simp
  with assms(2) show ?thesis
    by (simp add: slot_off_def unat_word_ariths unat_of_nat)
qed


lemma calculate_mailslot_valid [fz_step]:
  assumes "globals a" and "valid_slotnum (bar2_globals w) n"
  shows "calculate_mailslot a n w = Some (Some (slot_off (bar2_globals w) (unat n)))"
  using assms by (auto simp: calculate_mailslot_def valid_slotnum_def slot_off_def)

lemma calculate_mailslot_invalid [fz_step]:
  "globals a \<Longrightarrow> \<not> valid_slotnum (bar2_globals w) n \<Longrightarrow> calculate_mailslot a n w = Some None"
  by (auto simp: calculate_mailslot_def valid_slotnum_def)

text \<open>The byte range of a slot.\<close>

definition slot_range :: "famez_globals \<Rightarrow> u64 \<Rightarrow> nat set" where
  "slot_range g p = {unat p ..< unat p + unat (slotsize g)}"

lemma slot_ranges_apart:
  assumes g: "geometry g" and "m \<le> 2 ^ 16" and "n \<le> 2 ^ 16" and "m < n"
  shows "slot_range g (slot_off g m) \<inter> slot_range g (slot_off g n) = {}"
proof -
  have "m * unat (slotsize g) + unat (slotsize g) = Suc m * unat (slotsize g)" by simp
  also have "\<dots> \<le> n * unat (slotsize g)" using \<open>m < n\<close> by (intro mult_le_mono) auto
  finally show ?thesis
    using assms by (auto simp: slot_range_def unat_slot_off)
qed

lemma slot_off_inj:
  assumes g: "geometry g" and "m \<le> 2 ^ 16" and "n \<le> 2 ^ 16" and "slot_off g m = slot_off g n"
  shows "m = n"
proof -
  from assms have "m * unat (slotsize g) = n * unat (slotsize g)" by (metis unat_slot_off)
  moreover have "0 < unat (slotsize g)" using g by (auto simp: geometry_def word_less_nat_alt)
  ultimately show ?thesis by simp
qed

section \<open>Properties\<close>

text \<open>
  C23. Two different slot numbers that \<open>calculate_mailslot\<close> accepts give mailslots whose
  bytes do not overlap, and neither overlaps the globals in slot 0.
\<close>

theorem slots_disjoint:
  assumes "geometry (bar2_globals w)" and "globals a" and "m \<noteq> n"
    and "calculate_mailslot a m w = Some (Some p)" and "calculate_mailslot a n w = Some (Some q)"
  shows "slot_range (bar2_globals w) p \<inter> slot_range (bar2_globals w) q = {} \<and>
    slot_range (bar2_globals w) p \<inter> slot_range (bar2_globals w) 0 = {}"
proof -
  let ?g = "bar2_globals w"
  have v: "valid_slotnum ?g m" "valid_slotnum ?g n"
    using assms(2,4,5) by (auto simp: calculate_mailslot_def valid_slotnum_def split: if_splits)
  then have pq: "p = slot_off ?g (unat m)" "q = slot_off ?g (unat n)"
    using assms(4,5) calculate_mailslot_valid [OF assms(2)] by auto
  have b: "0 < unat m" "unat m \<le> 2 ^ 16" "unat n \<le> 2 ^ 16"
    using valid_slotnum_bounds [OF assms(1)] v assms(1) by (force simp: geometry_def)+
  have "unat m \<noteq> unat n" using assms(3) by (simp add: word_unat_eq_iff)
  then have "slot_range ?g p \<inter> slot_range ?g q = {}"
    using slot_ranges_apart [OF assms(1), of "unat m" "unat n"] slot_ranges_apart [OF assms(1), of "unat n" "unat m"] b
    unfolding pq by (metis Int_commute nat_neq_iff)
  moreover have "slot_range ?g p \<inter> slot_range ?g (slot_off ?g 0) = {}"
    using slot_ranges_apart [OF assms(1), of 0 "unat m"] b unfolding pq by (metis Int_commute zero_le_numeral zero_le_power)
  ultimately show ?thesis by (simp add: slot_off_def)
qed

text \<open>A mailbox as the server lays it out: 512-byte slots, four clients.\<close>

definition demo_globals :: famez_globals where
  "demo_globals = \<lparr>slotsize = 512, buf_offset = 128, nClients = 4, nEvents = 6, server_id = 5\<rparr>"

definition demo_slot :: "u64 \<Rightarrow> string \<Rightarrow> famez_mailslot" where
  "demo_slot i tx = \<lparr>nodename = replicate 32 NUL, buflen = of_nat (length tx), peer_id = i, last_responder = 0,
     peer_SID = 0, peer_CID = 0, buf = tx @ replicate (384 - length tx) NUL\<rparr>"

definition demo_world :: fz_world where
  "demo_world = \<lparr>bar0 = \<lparr>Rev1Reserved1 = 0, Rev1Reserved2 = 0, IVPosition = 1, Doorbell = 0\<rparr>,
     bar2_globals = demo_globals, bar2 = (\<lambda>p. demo_slot (p div 512) []), doorbells = [],
     jiffies = 1000, longest = 0\<rparr>"

definition demo_adapter :: famez_adapter where
  "demo_adapter = \<lparr>nr_users = 0, pdev = Some 0, max_buflen = 384, my_id = 1, regs = True, globals = True,
     my_slot = Some 512, IRQ_private = None, incoming_slot = None, incoming_slot_lock = False,
     outgoing = None, core = Some (7, zero_core\<lparr>Base_C_Class_str := ''FAME-Z Adapter'' @ replicate 18 NUL\<rparr>)\<rparr>"

lemma demo_geometry [simp]: "geometry demo_globals"
  by (simp add: geometry_def demo_globals_def offsetof_buf_def)

lemma demo_world_globals [simp]: "bar2_globals demo_world = demo_globals"
  by (simp add: demo_world_def)

theorem slots_disjoint_witness:
  "slot_range (bar2_globals demo_world) 512 \<inter> slot_range (bar2_globals demo_world) 1024 = {} \<and>
   slot_range (bar2_globals demo_world) 512 \<inter> slot_range (bar2_globals demo_world) 0 = {}"
  by (rule slots_disjoint [of demo_world demo_adapter 1 2])
    (simp_all add: calculate_mailslot_def demo_adapter_def, simp_all add: demo_globals_def)

end
