(* ===== verification/Mail_Sender.thy ===== *)
theory Mail_Sender
  imports Famez_Prelude
begin

text \<open>
  The contract of an operation that posts one message in the caller's mailslot and rings
  the receiver, and what a caller that restarts it can rely on. Both generations of the
  driver have such an operation (\<open>famez_create_outgoing\<close>, and \<open>famez_sendmail\<close> of the
  monolithic driver); both interpret the locale.

  \<open>restart_send\<close> is the loop of \<open>famez_bridge_write\<close> (\<open>kernel/famez/fz_bridge.c\<close>) around
  the send: a spurious timeout is retried, at most \<open>n\<close> times.
\<close>

fun restart_send :: "nat \<Rightarrow> ('w \<Rightarrow> (int \<times> 'w) option) \<Rightarrow> 'w \<Rightarrow> (int \<times> 'w) option" where
  "restart_send n f w = do {
     (ret, w1) \<leftarrow> f w;
     if ret = - ERESTARTSYS then
       (case n of 0 \<Rightarrow> Some (- ETIMEDOUT, w1) | Suc m \<Rightarrow> restart_send m f w1)
     else Some (ret, w1)
   }"

declare restart_send.simps [simp del]

locale mail_sender =
  fixes send :: "'d \<Rightarrow> bytes \<Rightarrow> u64 \<Rightarrow> 'w \<Rightarrow> (int \<times> 'w) option"
    and inv :: "'w \<Rightarrow> bool"
    and room :: "nat \<Rightarrow> 'w \<Rightarrow> bool"
    and dest :: "'d \<Rightarrow> nat"
    and me :: nat
    and my_mail :: "'w \<Rightarrow> (nat \<times> bytes) option"
    and bells :: "'w \<Rightarrow> (nat \<times> nat) list"
  assumes send_returns: "inv w \<Longrightarrow> unat n \<le> length m \<Longrightarrow> room (Suc k) w \<Longrightarrow>
      \<exists>r w'. send d m n w = Some (r, w') \<and> room k w'"
    and send_inv: "inv w \<Longrightarrow> unat n \<le> length m \<Longrightarrow> send d m n w = Some (r, w') \<Longrightarrow> inv w'"
    and send_posts: "inv w \<Longrightarrow> unat n \<le> length m \<Longrightarrow> send d m n w = Some (r, w') \<Longrightarrow> 0 < r \<Longrightarrow>
      r = int (unat n) \<and> my_mail w' = Some (dest d, take (unat n) m) \<and> bells w' = bells w @ [(dest d, me)]"
    and send_fails: "inv w \<Longrightarrow> unat n \<le> length m \<Longrightarrow> send d m n w = Some (r, w') \<Longrightarrow> \<not> 0 < r \<Longrightarrow>
      - 4095 \<le> r \<and> r < 0 \<and> bells w' = bells w"
begin

text \<open>The loop returns if there is room for all its attempts.\<close>

lemma restart_returns:
  assumes "inv w" and len: "unat n \<le> length m" and "room (Suc k) w"
  shows "\<exists>r w'. restart_send k (send d m n) w = Some (r, w')"
  using assms(1,3)
proof (induction k arbitrary: w)
  case 0
  with send_returns [OF 0(1) len, of 0 d] show ?case by (auto simp: restart_send.simps)
next
  case (Suc k)
  from send_returns [OF Suc.prems(1) len Suc.prems(2)] obtain r w'
    where s: "send d m n w = Some (r, w')" "room (Suc k) w'" by blast
  with Suc.IH [OF send_inv [OF Suc.prems(1) len s(1)] s(2)] show ?case
    by (simp add: restart_send.simps [of "Suc k"])
qed

text \<open>
  Restarting never posts twice: a positive result means that exactly one message was
  posted and one bell rung, any other result that none was.
\<close>

lemma restart_once:
  assumes "inv w" and len: "unat n \<le> length m" and "restart_send k (send d m n) w = Some (r, w')"
  shows "inv w' \<and> r \<noteq> 0 \<and> r \<noteq> - ERESTARTSYS \<and>
    (if 0 < r then r = int (unat n) \<and> my_mail w' = Some (dest d, take (unat n) m) \<and>
       bells w' = bells w @ [(dest d, me)]
     else - 4095 \<le> r \<and> r < 0 \<and> bells w' = bells w)"
  using assms(1,3)
proof (induction k arbitrary: w)
  case 0
  then obtain r1 where s: "send d m n w = Some (r1, w')"
    and r: "r = (if r1 = - ERESTARTSYS then - ETIMEDOUT else r1)"
    by (auto simp: restart_send.simps split: bind_splits if_splits)
  with send_inv [OF 0(1) len s] send_posts [OF 0(1) len s] send_fails [OF 0(1) len s]
  show ?case by (auto split: if_splits)
next
  case (Suc k)
  then obtain r1 w1 where s: "send d m n w = Some (r1, w1)"
    and rest: "if r1 = - ERESTARTSYS then restart_send k (send d m n) w1 = Some (r, w')
      else r = r1 \<and> w' = w1"
    by (auto simp: restart_send.simps [of "Suc k"] split: bind_splits if_splits)
  note facts = send_inv [OF Suc.prems(1) len s] send_posts [OF Suc.prems(1) len s]
    send_fails [OF Suc.prems(1) len s]
  show ?case
  proof (cases "r1 = - ERESTARTSYS")
    case True
    with rest facts Suc.IH [of w1] show ?thesis by (auto split: if_splits)
  next
    case False
    with rest facts show ?thesis by (cases "0 < r1") auto
  qed
qed

end

end
