(* ===== verification/Famez_IVSHMSG.thy ===== *)
theory Famez_IVSHMSG
  imports Famez_Mailbox Mail_Sender
begin

text \<open>
  \<open>kernel/famez/famez_IVSHMSG.c\<close>: posting a message in the own mailslot and ringing the
  peer's doorbell (\<open>famez_create_outgoing\<close>), waiting for an incoming message
  (\<open>famez_await_incoming\<close>) and giving the sender's slot back
  (\<open>famez_release_incoming\<close>).

  What the code calls outside the repository is the record \<open>kenv\<close>: the tick rate, whether
  the caller runs in interrupt context, what a delay of some milliseconds does to the
  world (the clock moves and the other guests run), and what a sleep on the wait queue
  ends with. \<open>mdelay\<close> and \<open>msleep\<close> are told apart by the first argument of
  \<open>delay_ms\<close>. The loop that waits for the previous message to be taken is a
  \<open>partial_function\<close>: \<open>None\<close> if it never ends.
\<close>

section \<open>The environment\<close>

record kenv =
  HZ :: u64
  in_interrupt :: bool
  delay_ms :: "bool \<Rightarrow> nat \<Rightarrow> fz_world \<Rightarrow> fz_world"
  wait_event_incoming :: "famez_adapter \<Rightarrow> fz_world \<Rightarrow> int \<times> famez_adapter \<times> fz_world"

text \<open>
  Documented behaviour of a delay: other guests change the contents of the shared memory,
  not its layout, and this guest's device registers stay.
\<close>

definition same_layout :: "fz_world \<Rightarrow> fz_world \<Rightarrow> bool" where
  "same_layout w w' \<longleftrightarrow> bar2_globals w' = bar2_globals w \<and> doorbells w' = doorbells w \<and>
     (\<forall>p. length (buf (bar2 w' p)) = length (buf (bar2 w p)))"

definition delay_keeps_layout :: "kenv \<Rightarrow> bool" where
  "delay_keeps_layout K \<longleftrightarrow> (\<forall>irq ms w. same_layout w (delay_ms K irq ms w))"

text \<open>
  The clock, for the delays of the context the caller runs in: a delay lasts at least one
  tick, and a delay of a few milliseconds does not last 2 ^ 32 ticks. In process context
  that is what \<open>msleep\<close> promises. In interrupt context \<open>mdelay\<close> does not promise it: it
  holds only as long as another processor keeps the time. So nothing about the interrupt
  handler is proved from this hypothesis alone; what it waits for is stated where it matters.
\<close>

definition clock_runs :: "kenv \<Rightarrow> bool" where
  "clock_runs K \<longleftrightarrow> (\<forall>ms w. unat (jiffies w) < 2 ^ 62 \<longrightarrow>
     unat (jiffies w) < unat (jiffies (delay_ms K (in_interrupt K) ms w)) \<and>
     unat (jiffies (delay_ms K (in_interrupt K) ms w)) \<le> unat (jiffies w) + 2 ^ 32)"

text \<open>The counter is far from its end: room for \<open>n\<close> more waits.\<close>

definition clock_room :: "kenv \<Rightarrow> nat \<Rightarrow> fz_world \<Rightarrow> bool" where
  "clock_room K n w \<longleftrightarrow> unat (jiffies w) + n * (5 * unat (HZ K) + 2 ^ 32) < 2 ^ 62"

section \<open>famez_create_outgoing\<close>

definition PRIOR_RESP_WAIT :: "kenv \<Rightarrow> u64" where
  "PRIOR_RESP_WAIT K = 5 * HZ K"

definition DELAY_MS_LOOP_MAX :: nat where
  "DELAY_MS_LOOP_MAX = 10"

text \<open>
  The loop "wait until my_slot has pushed a previous write through": the state is
  \<open>this_delay\<close>, \<open>now\<close> and the world.
\<close>

partial_function (option) hw_ready_wait ::
  "kenv \<Rightarrow> u64 \<Rightarrow> u64 \<Rightarrow> nat \<Rightarrow> u64 \<Rightarrow> fz_world \<Rightarrow> (nat \<times> u64 \<times> fz_world) option" where
  "hw_ready_wait K p hw_timeout this_delay now w =
     (if buflen (bar2 w p) \<noteq> 0 \<and> time_before now hw_timeout then
        (let w1 = delay_ms K (in_interrupt K) this_delay w in
         hw_ready_wait K p hw_timeout
           (if this_delay < DELAY_MS_LOOP_MAX then this_delay + 2 else this_delay) (jiffies w1) w1)
      else Some (this_delay, now, w))"

text \<open>The union \<open>ringer\<close>: \<open>vector\<close> is the lower half of \<open>Doorbell\<close>, \<open>peer\<close> the upper.\<close>

definition ringer :: "u16 \<Rightarrow> u16 \<Rightarrow> u32" where
  "ringer peer vec = push_bit 16 (ucast peer) OR ucast vec"

definition ringer_peer :: "u32 \<Rightarrow> u16" where
  "ringer_peer d = ucast (drop_bit 16 d)"

definition ringer_vector :: "u32 \<Rightarrow> u16" where
  "ringer_vector d = ucast d"

text \<open>The destination: \<open>CID\<close> itself or, with a subnet, \<open>CID / 100\<close> (an \<open>int\<close> division).\<close>

definition outgoing_peer :: "int \<Rightarrow> int \<Rightarrow> u32" where
  "outgoing_peer CID SID =
     word_of_int (if SID = FAMEZ_SID_CID_IS_PEER_ID then CID else CID sdiv 100)"

definition famez_create_outgoing ::
  "kenv \<Rightarrow> int \<Rightarrow> int \<Rightarrow> bytes \<Rightarrow> u64 \<Rightarrow> famez_adapter \<Rightarrow> fz_world \<Rightarrow> (int \<times> fz_world) option" where
  "famez_create_outgoing K CID SID msg len a w = do {
     let hw_timeout = jiffies w + PRIOR_RESP_WAIT K;
     let peer = outgoing_peer CID SID;
     if SID \<noteq> 27 \<and> SID \<noteq> FAMEZ_SID_CID_IS_PEER_ID then Some (- ENETUNREACH, w)
     else do {
       g \<leftarrow> deref_globals a w;
       if peer < 1 \<or> (ucast peer :: u64) > server_id g then Some (- EBADSLT, w)
       else if len \<ge> max_buflen a then Some (- E2BIG, w)
       else if len = 0 then Some (- ENODATA, w)
       else do {
         p \<leftarrow> my_slot a;
         (this_delay, now, w1) \<leftarrow> hw_ready_wait K p hw_timeout 1 0 w;
         let left = hw_timeout - now;
         let w2 = (if left > longest w1 then w1\<lparr>longest := left\<rparr> else w1);
         if buflen (bar2 w2 p) \<noteq> 0 then Some (- ERESTARTSYS, w2)
         else do {
           let m = bar2 w2 p;
           b1 \<leftarrow> put_byte (buf m) (unat len) NUL;
           b2 \<leftarrow> memcpy b1 msg (unat len);
           let w3 = put_slot p (m\<lparr>buflen := len, last_responder := ucast peer, buf := b2\<rparr>) w2;
           _ \<leftarrow> (if regs a then Some () else None);
           Some (to_int len, ring (ringer (ucast peer) (my_id a)) w3)
         }
       }
     }
   }"

section \<open>famez_await_incoming and famez_release_incoming\<close>

text \<open>
  The result is \<open>ERR_PTR(e)\<close> as \<open>Inl e\<close> or the pointer. \<open>wait_event_interruptible\<close>
  returns 0 once the condition holds and a negative value after a signal.
\<close>

definition famez_await_incoming ::
  "kenv \<Rightarrow> bool \<Rightarrow> famez_adapter \<Rightarrow> fz_world \<Rightarrow> (int + u64 option) \<times> famez_adapter \<times> fz_world" where
  "famez_await_incoming K nonblocking a w =
     (if incoming_slot a \<noteq> None then (Inr (incoming_slot a), a, w)
      else if nonblocking then (Inl (- EAGAIN), a, w)
      else (case wait_event_incoming K a w of
              (ret, a1, w1) \<Rightarrow>
                if ret \<noteq> 0 then (Inl ret, a1, w1) else (Inr (incoming_slot a1), a1, w1)))"

definition famez_release_incoming ::
  "famez_adapter \<Rightarrow> fz_world \<Rightarrow> (famez_adapter \<times> fz_world) option" where
  "famez_release_incoming a w = do {
     l1 \<leftarrow> spin_lock (incoming_slot_lock a);
     p \<leftarrow> incoming_slot a;
     let w1 = put_slot p ((bar2 w p)\<lparr>buflen := 0\<rparr>) w;
     l2 \<leftarrow> spin_unlock l1;
     Some (a\<lparr>incoming_slot := None, incoming_slot_lock := l2\<rparr>, w1)
   }"

section \<open>The doorbell value\<close>

lemma ringer_roundtrip:
  "ringer_peer (ringer peer vec) = peer \<and> ringer_vector (ringer peer vec) = vec"
  unfolding ringer_peer_def ringer_vector_def ringer_def
  by (intro conjI; rule bit_eqI) (auto simp: bit_simps dest: bit_imp_le_length)

section \<open>The waiting loop\<close>

text \<open>A property of the world that every delay keeps holds when the loop ends.\<close>

lemma hw_ready_wait_rule:
  assumes keep: "\<And>irq ms v. I v \<Longrightarrow> I (delay_ms K irq ms v)" and I: "I w" and d: "odd d" "d \<le> 11"
    and ret: "hw_ready_wait K p to d now w = Some (d', now', w')"
  shows "I w' \<and> odd d' \<and> d' \<le> 11 \<and> (buflen (bar2 w' p) = 0 \<or> \<not> time_before now' to)"
proof -
  have "I w \<longrightarrow> odd d \<longrightarrow> d \<le> 11 \<longrightarrow>
    I w' \<and> odd d' \<and> d' \<le> 11 \<and> (buflen (bar2 w' p) = 0 \<or> \<not> time_before now' to)"
    (is "?P K p to d now w (d', now', w')")
  proof (rule hw_ready_wait.raw_induct [where P = "\<lambda>K' p to d now w r. K' = K \<longrightarrow> I w \<longrightarrow> odd d
      \<longrightarrow> d \<le> 11 \<longrightarrow> I (snd (snd r)) \<and> odd (fst r) \<and> fst r \<le> 11 \<and>
        (buflen (bar2 (snd (snd r)) p) = 0 \<or> \<not> time_before (fst (snd r)) to)",
      OF _ ret, simplified], goal_cases)
    case (1 f K' p to d now w r)
    then show ?case
      using keep by (auto simp: Let_def DELAY_MS_LOOP_MAX_def split: if_splits)
  qed
  with I d show ?thesis by blast
qed

text \<open>With a running clock the loop ends, at the latest when the timeout has passed.\<close>

lemma hw_ready_wait_from_clock:
  assumes clock: "clock_runs K" and to: "unat to < 2 ^ 62"
  shows "unat (jiffies w) \<le> unat to + 2 ^ 32 \<Longrightarrow> \<exists>d' now' w'.
    hw_ready_wait K p to d (jiffies w) w = Some (d', now', w') \<and> unat (jiffies w') \<le> unat to + 2 ^ 32"
proof (induction "unat to - unat (jiffies w)" arbitrary: d w rule: less_induct)
  case less
  show ?case
  proof (cases "buflen (bar2 w p) \<noteq> 0 \<and> time_before (jiffies w) to")
    case True
    with less.prems to have lt: "unat (jiffies w) < unat to" by (simp add: time_before_iff)
    let ?w1 = "delay_ms K (in_interrupt K) d w"
    from lt to have "unat (jiffies w) < 2 ^ 62" by simp
    with clock have adv: "unat (jiffies w) < unat (jiffies ?w1)"
      "unat (jiffies ?w1) \<le> unat (jiffies w) + 2 ^ 32"
      by (auto simp: clock_runs_def)
    with lt have "unat to - unat (jiffies ?w1) < unat to - unat (jiffies w)"
      and "unat (jiffies ?w1) \<le> unat to + 2 ^ 32" by simp_all
    from less.hyps [OF this] True show ?thesis
      by (subst hw_ready_wait.simps) (simp add: Let_def)
  next
    case False
    with less.prems show ?thesis by (subst hw_ready_wait.simps) auto
  qed
qed

lemma clock_room_unfold:
  assumes "clock_room K (Suc n) w"
  shows "unat (jiffies w + PRIOR_RESP_WAIT K) = unat (jiffies w) + 5 * unat (HZ K)"
    and "unat (jiffies w) + 5 * unat (HZ K) + 2 ^ 32 < 2 ^ 62"
proof -
  have "5 * unat (HZ K) + 2 ^ 32 \<le> Suc n * (5 * unat (HZ K) + 2 ^ 32)" by simp
  with assms show "unat (jiffies w) + 5 * unat (HZ K) + 2 ^ 32 < 2 ^ 62"
    unfolding clock_room_def by linarith
  then show "unat (jiffies w + PRIOR_RESP_WAIT K) = unat (jiffies w) + 5 * unat (HZ K)"
    by (simp add: PRIOR_RESP_WAIT_def unat_word_ariths)
qed

lemma hw_ready_wait_returns:
  assumes "clock_runs K" and room: "clock_room K (Suc n) w"
  shows "\<exists>d now w'. hw_ready_wait K p (jiffies w + PRIOR_RESP_WAIT K) 1 0 w = Some (d, now, w') \<and>
    clock_room K n w'"
proof -
  let ?to = "jiffies w + PRIOR_RESP_WAIT K" and ?w1 = "delay_ms K (in_interrupt K) 1 w"
  note to = clock_room_unfold [OF room]
  have *: "unat (jiffies w') \<le> unat ?to + 2 ^ 32 \<Longrightarrow> clock_room K n w'" for w'
    using room unfolding to(1) clock_room_def by (simp add: algebra_simps)
  show ?thesis
  proof (cases "buflen (bar2 w p) \<noteq> 0 \<and> time_before 0 ?to")
    case True
    have "unat (jiffies w) < 2 ^ 62" using to by simp
    with assms(1) have "unat (jiffies ?w1) \<le> unat (jiffies w) + 2 ^ 32"
      unfolding clock_runs_def by blast
    then have "unat (jiffies ?w1) \<le> unat ?to + 2 ^ 32" unfolding to(1) by simp
    moreover have "unat ?to < 2 ^ 62" using to by simp
    ultimately obtain d now w'
      where "hw_ready_wait K p ?to 3 (jiffies ?w1) ?w1 = Some (d, now, w')"
      and "unat (jiffies w') \<le> unat ?to + 2 ^ 32"
      using hw_ready_wait_from_clock [OF assms(1)] by blast
    with True * show ?thesis
      by (subst hw_ready_wait.simps) (auto simp: Let_def DELAY_MS_LOOP_MAX_def numeral_3_eq_3)
  next
    case False
    with * [of w] to show ?thesis by (subst hw_ready_wait.simps) auto
  qed
qed

text \<open>
  Without a running clock it does not: if a delay neither moves the clock nor lets
  another guest clear the slot, the loop never ends.
\<close>

lemma hw_ready_wait_stuck:
  assumes stuck: "\<And>irq ms. delay_ms K irq ms w = w"
    and busy: "buflen (bar2 w p) \<noteq> 0" and "time_before now to" and "time_before (jiffies w) to"
  shows "hw_ready_wait K p to d now w = None"
proof (rule ccontr)
  assume "hw_ready_wait K p to d now w \<noteq> None"
  then obtain r where r: "hw_ready_wait K p to d now w = Some r" by blast
  have "K = K \<longrightarrow> w = w \<longrightarrow> p = p \<longrightarrow> to = to \<longrightarrow> time_before now to \<longrightarrow> False"
  proof (rule hw_ready_wait.raw_induct [where P = "\<lambda>K' p' to' d now w' r. K' = K \<longrightarrow> w' = w \<longrightarrow>
      p' = p \<longrightarrow> to' = to \<longrightarrow> time_before now to \<longrightarrow> False", OF _ r], goal_cases)
    case (1 f K' p' to' d now w' r)
    then show ?case using stuck busy assms(4) by (cases r) (fastforce simp: Let_def split: if_splits)
  qed
  with assms(3) show False by simp
qed

section \<open>Well-formed adapters\<close>

text \<open>
  What \<open>famez_adapter_create\<close> establishes and the rest of the driver relies on: both
  regions are mapped, the own slot belongs to the own id, and every message buffer has
  the size the globals announce.
\<close>

definition adapter_inv :: "famez_adapter \<Rightarrow> fz_world \<Rightarrow> bool" where
  "adapter_inv a w \<longleftrightarrow>
     regs a \<and> globals a \<and> geometry (bar2_globals w) \<and>
     0 < unat (my_id a) \<and> unat (my_id a) \<le> unat (nClients (bar2_globals w)) \<and>
     my_slot a = Some (slot_off (bar2_globals w) (unat (my_id a))) \<and>
     max_buflen a = slotsize (bar2_globals w) - offsetof_buf \<and>
     (\<forall>p. length (buf (bar2 w p)) = unat (max_buflen a))"

lemma adapter_inv_layout: "adapter_inv a w \<Longrightarrow> same_layout w w' \<Longrightarrow> adapter_inv a w'"
  by (simp add: adapter_inv_def same_layout_def)

lemma adapter_inv_put_slot:
  "adapter_inv a w \<Longrightarrow> length (buf m) = length (buf (bar2 w p)) \<Longrightarrow> adapter_inv a (put_slot p m w)"
  by (simp add: adapter_inv_def)

lemma adapter_inv_fields [simp]:
  "adapter_inv (a\<lparr>incoming_slot := x\<rparr>) w = adapter_inv a w"
  "adapter_inv (a\<lparr>incoming_slot_lock := l\<rparr>) w = adapter_inv a w"
  "adapter_inv (a\<lparr>core := c\<rparr>) w = adapter_inv a w"
  "adapter_inv (a\<lparr>outgoing := b\<rparr>) w = adapter_inv a w"
  "adapter_inv (a\<lparr>nr_users := n\<rparr>) w = adapter_inv a w"
  by (simp_all add: adapter_inv_def)

lemma same_layout_refl [simp]: "same_layout w w"
  by (simp add: same_layout_def)

lemma same_layout_trans: "same_layout u v \<Longrightarrow> same_layout v w \<Longrightarrow> same_layout u w"
  by (simp add: same_layout_def)

lemma hw_ready_wait_layout:
  assumes "delay_keeps_layout K" and "hw_ready_wait K p to 1 0 w = Some (d, now, w')"
  shows "same_layout w w'" and "d \<le> 11"
proof -
  have "same_layout w v \<Longrightarrow> same_layout w (delay_ms K irq ms v)" for irq ms v
    using assms(1) by (auto simp: delay_keeps_layout_def intro: same_layout_trans)
  from hw_ready_wait_rule [where I = "same_layout w", OF this _ _ _ assms(2)]
  show "same_layout w w'" and "d \<le> 11" by auto
qed

lemma max_buflen_bound:
  assumes "adapter_inv a w"
  shows "unat (max_buflen a) = unat (slotsize (bar2_globals w)) - 128" and "unat (max_buflen a) < 2 ^ 31"
proof -
  have "offsetof_buf \<le> slotsize (bar2_globals w)" using assms
    by (simp add: adapter_inv_def geometry_def order.strict_implies_order)
  then show "unat (max_buflen a) = unat (slotsize (bar2_globals w)) - 128"
    using assms by (simp add: adapter_inv_def unat_sub offsetof_buf_def)
  then show "unat (max_buflen a) < 2 ^ 31"
    using assms by (simp add: adapter_inv_def geometry_def less_imp_diff_less)
qed

section \<open>What famez_create_outgoing does\<close>

text \<open>The arguments every check of the function lets through.\<close>

definition outgoing_ok :: "int \<Rightarrow> int \<Rightarrow> u64 \<Rightarrow> famez_adapter \<Rightarrow> fz_world \<Rightarrow> bool" where
  "outgoing_ok CID SID len a w \<longleftrightarrow>
     (SID = 27 \<or> SID = FAMEZ_SID_CID_IS_PEER_ID) \<and>
     0 < unat (outgoing_peer CID SID) \<and> unat (outgoing_peer CID SID) \<le> unat (server_id (bar2_globals w)) \<and>
     0 < unat len \<and> unat len < unat (max_buflen a)"

text \<open>The mailslot after a message for \<open>peer\<close> has been written into it.\<close>

definition posted_slot :: "u32 \<Rightarrow> bytes \<Rightarrow> u64 \<Rightarrow> famez_mailslot \<Rightarrow> famez_mailslot" where
  "posted_slot peer msg len m =
     m\<lparr>buflen := len, last_responder := ucast peer,
       buf := take (unat len) msg @ NUL # drop (Suc (unat len)) (buf m)\<rparr>"

definition note_longest :: "u64 \<Rightarrow> fz_world \<Rightarrow> fz_world" where
  "note_longest left w = (if left > longest w then w\<lparr>longest := left\<rparr> else w)"

lemma note_longest_simps [simp]:
  "bar2 (note_longest t w) = bar2 w"
  "bar2_globals (note_longest t w) = bar2_globals w"
  "doorbells (note_longest t w) = doorbells w"
  "jiffies (note_longest t w) = jiffies w"
  by (simp_all add: note_longest_def)

lemma same_layout_note_longest [simp]: "same_layout w (note_longest t w') = same_layout w w'"
  by (simp add: same_layout_def)

lemma drop_list_update_self:
  "n < length xs \<Longrightarrow> drop n (xs[n := x]) = x # drop (Suc n) xs"
  by (metis Cons_nth_drop_Suc drop_update_cancel length_list_update lessI nth_list_update_eq)

lemma create_outgoing_run:
  assumes inv: "adapter_inv a w" and ok: "outgoing_ok CID SID len a w"
    and msg: "unat len \<le> length msg" and lay: "same_layout w w1"
    and p: "p = slot_off (bar2_globals w) (unat (my_id a))"
    and wait: "hw_ready_wait K p (jiffies w + PRIOR_RESP_WAIT K) 1 0 w = Some (d, now, w1)"
    and w2: "w2 = note_longest (jiffies w + PRIOR_RESP_WAIT K - now) w1"
  shows "famez_create_outgoing K CID SID msg len a w =
    (if buflen (bar2 w1 p) \<noteq> 0 then Some (- ERESTARTSYS, w2)
     else Some (int (unat len),
       ring (ringer (ucast (outgoing_peer CID SID)) (my_id a))
         (put_slot p (posted_slot (outgoing_peer CID SID) msg len (bar2 w1 p)) w2)))"
proof -
  have g: "deref_globals a w = Some (bar2_globals w)" "my_slot a = Some p" "regs a"
    using inv p by (simp_all add: adapter_inv_def)
  have peer: "\<not> (outgoing_peer CID SID < 1 \<or> server_id (bar2_globals w) < ucast (outgoing_peer CID SID))"
    using ok by (auto simp: outgoing_ok_def word_less_nat_alt)
  have len: "\<not> max_buflen a \<le> len" "len \<noteq> 0" "unat len < unat (max_buflen a)"
    using ok by (auto simp: outgoing_ok_def word_le_nat_alt)
  have SID: "SID = 27 \<or> SID = FAMEZ_SID_CID_IS_PEER_ID" using ok by (auto simp: outgoing_ok_def)
  have size: "length (buf (bar2 w1 p)) = unat (max_buflen a)"
    using adapter_inv_layout [OF inv lay] by (simp add: adapter_inv_def)
  have int_len: "to_int len = int (unat len)"
    using len(3) max_buflen_bound(2) [OF inv] by (intro to_int_small) simp
  show ?thesis
    using SID g peer len wait msg unfolding famez_create_outgoing_def Let_def
    by (elim disjE)
      (simp_all add: size drop_list_update_self posted_slot_def int_len w2 note_longest_def
        del: not_le not_less)
qed

text \<open>The own slot is free: no waiting.\<close>

lemma create_outgoing_free [fz_step]:
  assumes "adapter_inv a w" and "outgoing_ok CID SID len a w" and "unat len \<le> length msg"
    and "p = slot_off (bar2_globals w) (unat (my_id a))" and "buflen (bar2 w p) = 0"
  shows "famez_create_outgoing K CID SID msg len a w = Some (int (unat len),
       ring (ringer (ucast (outgoing_peer CID SID)) (my_id a))
         (put_slot p (posted_slot (outgoing_peer CID SID) msg len (bar2 w p))
           (note_longest (jiffies w + PRIOR_RESP_WAIT K) w)))"
proof -
  have "hw_ready_wait K p (jiffies w + PRIOR_RESP_WAIT K) 1 0 w = Some (1, 0, w)"
    using assms(5) by (subst hw_ready_wait.simps) simp
  from create_outgoing_run [OF assms(1,2,3) same_layout_refl assms(4) this refl] assms(5)
  show ?thesis by simp
qed

text \<open>Each check in the order of the code; nothing is changed when one fails.\<close>

lemma create_outgoing_rejects:
  assumes "globals a"
  shows "SID \<noteq> 27 \<Longrightarrow> SID \<noteq> FAMEZ_SID_CID_IS_PEER_ID \<Longrightarrow>
      famez_create_outgoing K CID SID msg len a w = Some (- ENETUNREACH, w)"
    and "SID = 27 \<or> SID = FAMEZ_SID_CID_IS_PEER_ID \<Longrightarrow>
      unat (outgoing_peer CID SID) = 0 \<or> unat (server_id (bar2_globals w)) < unat (outgoing_peer CID SID) \<Longrightarrow>
      famez_create_outgoing K CID SID msg len a w = Some (- EBADSLT, w)"
    and "SID = 27 \<or> SID = FAMEZ_SID_CID_IS_PEER_ID \<Longrightarrow>
      \<not> (unat (outgoing_peer CID SID) = 0 \<or> unat (server_id (bar2_globals w)) < unat (outgoing_peer CID SID)) \<Longrightarrow>
      unat (max_buflen a) \<le> unat len \<Longrightarrow>
      famez_create_outgoing K CID SID msg len a w = Some (- E2BIG, w)"
    and "SID = 27 \<or> SID = FAMEZ_SID_CID_IS_PEER_ID \<Longrightarrow>
      \<not> (unat (outgoing_peer CID SID) = 0 \<or> unat (server_id (bar2_globals w)) < unat (outgoing_peer CID SID)) \<Longrightarrow>
      len = 0 \<Longrightarrow> 0 < unat (max_buflen a) \<Longrightarrow>
      famez_create_outgoing K CID SID msg len a w = Some (- ENODATA, w)"
  using assms
  by (auto simp: famez_create_outgoing_def Let_def word_less_nat_alt word_le_nat_alt unat_eq_0)

lemma create_outgoing_not_ok:
  assumes "globals a" and "\<not> outgoing_ok CID SID len a w"
  shows "\<exists>e. famez_create_outgoing K CID SID msg len a w = Some (- e, w) \<and>
    e \<in> {ENETUNREACH, EBADSLT, E2BIG, ENODATA}"
proof (cases "SID = 27 \<or> SID = FAMEZ_SID_CID_IS_PEER_ID")
  case SID: True
  show ?thesis
  proof (cases "unat (outgoing_peer CID SID) = 0 \<or> unat (server_id (bar2_globals w)) < unat (outgoing_peer CID SID)")
    case False
    with SID assms(2) have "unat (max_buflen a) \<le> unat len \<or> len = 0 \<and> 0 < unat (max_buflen a)"
      by (auto simp: outgoing_ok_def unat_eq_0 unat_gt_0)
    then show ?thesis
      using create_outgoing_rejects(3,4) [OF assms(1) SID False] by blast
  qed (use create_outgoing_rejects(2) [OF assms(1) SID] in blast)
qed (use create_outgoing_rejects(1) [OF assms(1)] in blast)

text \<open>With an empty own slot sending never waits: it returns, and touches no other slot.\<close>

lemma create_outgoing_at_once:
  assumes inv: "adapter_inv a w" and len: "unat len \<le> length msg"
    and p: "p = slot_off (bar2_globals w) (unat (my_id a))" and free: "buflen (bar2 w p) = 0"
  shows "\<exists>r w'. famez_create_outgoing K CID SID msg len a w = Some (r, w') \<and> adapter_inv a w' \<and>
    bar2_globals w' = bar2_globals w \<and> (\<forall>q. q \<noteq> p \<longrightarrow> bar2 w' q = bar2 w q)"
proof (cases "outgoing_ok CID SID len a w")
  case True
  have "length (buf (posted_slot (outgoing_peer CID SID) msg len (bar2 w p))) = length (buf (bar2 w p))"
    using True len inv by (simp add: posted_slot_def outgoing_ok_def adapter_inv_def)
  then show ?thesis using create_outgoing_free [OF inv True len p free, of K] inv
    by (simp add: adapter_inv_def)
next
  case False
  then show ?thesis using create_outgoing_not_ok [OF _ False, of K msg] inv by (auto simp: adapter_inv_def)
qed

lemma create_outgoing_cases:
  assumes inv: "adapter_inv a w" and K: "delay_keeps_layout K" and len: "unat len \<le> length msg"
    and run: "famez_create_outgoing K CID SID msg len a w = Some (r, w')"
  obtains (rejected) e where "\<not> outgoing_ok CID SID len a w" "r = - e" "w' = w"
      "e \<in> {ENETUNREACH, EBADSLT, E2BIG, ENODATA}"
    | (busy) d now w1 where "outgoing_ok CID SID len a w" "r = - ERESTARTSYS"
      "hw_ready_wait K (slot_off (bar2_globals w) (unat (my_id a))) (jiffies w + PRIOR_RESP_WAIT K) 1 0 w
        = Some (d, now, w1)"
      "buflen (bar2 w1 (slot_off (bar2_globals w) (unat (my_id a)))) \<noteq> 0"
      "w' = note_longest (jiffies w + PRIOR_RESP_WAIT K - now) w1" "same_layout w w1"
    | (posted) d now w1 where "outgoing_ok CID SID len a w" "r = int (unat len)"
      "hw_ready_wait K (slot_off (bar2_globals w) (unat (my_id a))) (jiffies w + PRIOR_RESP_WAIT K) 1 0 w
        = Some (d, now, w1)"
      "buflen (bar2 w1 (slot_off (bar2_globals w) (unat (my_id a)))) = 0"
      "w' = ring (ringer (ucast (outgoing_peer CID SID)) (my_id a))
         (put_slot (slot_off (bar2_globals w) (unat (my_id a)))
           (posted_slot (outgoing_peer CID SID) msg len (bar2 w1 (slot_off (bar2_globals w) (unat (my_id a)))))
           (note_longest (jiffies w + PRIOR_RESP_WAIT K - now) w1))" "same_layout w w1"
proof (cases "outgoing_ok CID SID len a w")
  case ok: True
  let ?p = "slot_off (bar2_globals w) (unat (my_id a))"
  have "hw_ready_wait K ?p (jiffies w + PRIOR_RESP_WAIT K) 1 0 w \<noteq> None"
  proof
    assume "hw_ready_wait K ?p (jiffies w + PRIOR_RESP_WAIT K) 1 0 w = None"
    with inv ok have "famez_create_outgoing K CID SID msg len a w = None"
      by (auto simp: famez_create_outgoing_def Let_def adapter_inv_def outgoing_ok_def
          word_less_nat_alt word_le_nat_alt)
    with run show False by simp
  qed
  then obtain d now w1 where wait: "hw_ready_wait K ?p (jiffies w + PRIOR_RESP_WAIT K) 1 0 w = Some (d, now, w1)"
    by auto
  have lay: "same_layout w w1" using K wait by (rule hw_ready_wait_layout)
  show thesis
    using create_outgoing_run [OF inv ok len lay refl wait refl] run busy [OF ok _ wait] posted [OF ok _ wait] lay
    by (auto split: if_splits)
next
  case False
  with create_outgoing_not_ok [OF _ False, of K msg] inv run rejected show thesis
    by (auto simp: adapter_inv_def)
qed

section \<open>The abstract mailbox\<close>

text \<open>
  What the slots mean: slot \<open>i\<close> is a one-place buffer of client \<open>i\<close>, either empty or
  holding a destination and a message. \<open>mail\<close> is the abstraction function; sending
  refines storing a message in the own buffer, releasing refines emptying the sender's.
\<close>

definition slot_mail :: "famez_mailslot \<Rightarrow> (nat \<times> bytes) option" where
  "slot_mail m =
     (if buflen m = 0 then None else Some (unat (last_responder m), take (unat (buflen m)) (buf m)))"

definition mail :: "fz_world \<Rightarrow> nat \<Rightarrow> (nat \<times> bytes) option" where
  "mail w i = slot_mail (bar2 w (slot_off (bar2_globals w) i))"

definition bells :: "fz_world \<Rightarrow> (nat \<times> nat) list" where
  "bells w = map (\<lambda>d. (unat (ringer_peer d), unat (ringer_vector d))) (doorbells w)"

lemma slot_mail_posted:
  "len \<noteq> 0 \<Longrightarrow> unat len \<le> length msg \<Longrightarrow>
    slot_mail (posted_slot peer msg len m) = Some (unat peer, take (unat len) msg)"
  by (simp add: slot_mail_def posted_slot_def)

lemma length_posted_slot:
  "unat len \<le> length msg \<Longrightarrow> unat len < length (buf m) \<Longrightarrow>
    length (buf (posted_slot peer msg len m)) = length (buf m)"
  by (simp add: posted_slot_def)

lemma bells_layout: "same_layout w w' \<Longrightarrow> bells w' = bells w"
  by (simp add: bells_def same_layout_def)

lemma unat_ucast_peer:
  assumes "geometry g" and "unat (peer :: u32) \<le> unat (server_id g)"
  shows "unat (ucast peer :: u16) = unat peer"
proof -
  have "unat peer < 2 ^ 16"
    using assms geometry_unat(1) [OF assms(1)] by (simp add: geometry_def)
  then show ?thesis by (simp add: unsigned_ucast_eq take_bit_nat_eq_self)
qed

lemma create_outgoing_posted:
  assumes inv: "adapter_inv a w" and K: "delay_keeps_layout K" and len: "unat len \<le> length msg"
    and run: "famez_create_outgoing K CID SID msg len a w = Some (r, w')" and "0 < r"
  shows "r = int (unat len) \<and> mail w' (unat (my_id a)) = Some (unat (outgoing_peer CID SID), take (unat len) msg)
    \<and> bells w' = bells w @ [(unat (outgoing_peer CID SID), unat (my_id a))] \<and> adapter_inv a w'"
  using inv K len run
proof (cases rule: create_outgoing_cases)
  case (posted d now w1)
  let ?p = "slot_off (bar2_globals w) (unat (my_id a))"
  have peer: "unat (ucast (outgoing_peer CID SID) :: u16) = unat (outgoing_peer CID SID)"
    using inv posted(1) by (intro unat_ucast_peer) (auto simp: adapter_inv_def outgoing_ok_def)
  have "len \<noteq> 0" using posted(1) by (auto simp: outgoing_ok_def)
  have inv1: "adapter_inv a w1" using inv posted(6) by (rule adapter_inv_layout)
  have "length (buf (bar2 w1 ?p)) = unat (max_buflen a)" using inv1 by (simp add: adapter_inv_def)
  then have sz: "length (buf (posted_slot (outgoing_peer CID SID) msg len (bar2 w1 ?p))) = unat (max_buflen a)"
    using posted(1) len by (simp add: length_posted_slot outgoing_ok_def)
  have g: "bar2_globals w1 = bar2_globals w" using posted(6) by (simp add: same_layout_def)
  have "adapter_inv a w'" using inv1 sz posted(5) by (simp add: adapter_inv_def)
  then show ?thesis
    using posted \<open>len \<noteq> 0\<close> len peer g bells_layout [OF posted(6)]
    by (simp add: mail_def slot_mail_posted bells_def ringer_roundtrip)
qed (use assms(5) in auto)

lemma create_outgoing_failed:
  assumes inv: "adapter_inv a w" and K: "delay_keeps_layout K" and len: "unat len \<le> length msg"
    and run: "famez_create_outgoing K CID SID msg len a w = Some (r, w')" and "\<not> 0 < r"
  shows "- 4095 \<le> r \<and> r < 0 \<and> bells w' = bells w \<and> adapter_inv a w'"
  using inv K len run
proof (cases rule: create_outgoing_cases)
  case (busy d now w1)
  then show ?thesis using bells_layout [OF busy(6)] adapter_inv_layout [OF inv busy(6)]
    by (simp add: bells_def adapter_inv_def)
next
  case (posted d now w1)
  then show ?thesis using assms(5) by (auto simp: outgoing_ok_def)
qed (use inv in auto)

lemma create_outgoing_returns:
  assumes inv: "adapter_inv a w" and K: "delay_keeps_layout K" "clock_runs K"
    and len: "unat len \<le> length msg" and room: "clock_room K (Suc n) w"
  shows "\<exists>r w'. famez_create_outgoing K CID SID msg len a w = Some (r, w') \<and> clock_room K n w'"
proof (cases "outgoing_ok CID SID len a w")
  case True
  obtain d now w1 where wait: "hw_ready_wait K (slot_off (bar2_globals w) (unat (my_id a)))
      (jiffies w + PRIOR_RESP_WAIT K) 1 0 w = Some (d, now, w1)" and "clock_room K n w1"
    using hw_ready_wait_returns [OF K(2) room] by blast
  then show ?thesis
    using create_outgoing_run [OF inv True len hw_ready_wait_layout(1) [OF K(1) wait] refl wait refl]
    by (auto simp: clock_room_def)
next
  case False
  have "clock_room K n w" using room by (simp add: clock_room_def)
  with create_outgoing_not_ok [OF _ False, of K msg] inv show ?thesis
    by (fastforce simp: adapter_inv_def)
qed

interpretation ivshmsg: mail_sender
  "\<lambda>d msg len. famez_create_outgoing K (fst d) (snd d) msg len a"
  "\<lambda>w. adapter_inv a w \<and> delay_keeps_layout K \<and> clock_runs K"
  "clock_room K" "\<lambda>d. unat (outgoing_peer (fst d) (snd d))" "unat (my_id a)"
  "\<lambda>w. mail w (unat (my_id a))" bells
proof (unfold_locales, goal_cases)
  case (1 w n m k d)
  then show ?case using create_outgoing_returns by blast
next
  case (2 w n m d r w')
  with create_outgoing_posted [of a w K n m "fst d" "snd d" r w']
    create_outgoing_failed [of a w K n m "fst d" "snd d" r w'] show ?case by blast
next
  case (3 w n m d r w')
  with create_outgoing_posted [of a w K n m "fst d" "snd d" r w'] show ?case by blast
next
  case (4 w n m d r w')
  with create_outgoing_failed [of a w K n m "fst d" "snd d" r w'] show ?case by blast
qed

section \<open>Releasing\<close>

lemma release_incoming_run [fz_step]:
  assumes "incoming_slot a = Some p" and "\<not> incoming_slot_lock a"
  shows "famez_release_incoming a w =
    Some (a\<lparr>incoming_slot := None, incoming_slot_lock := False\<rparr>, put_slot p ((bar2 w p)\<lparr>buflen := 0\<rparr>) w)"
  using assms by (simp add: famez_release_incoming_def)

lemma release_incoming_NULL [fz_step]: "incoming_slot a = None \<Longrightarrow> famez_release_incoming a w = None"
  by (simp add: famez_release_incoming_def bind_eq_None_conv)

lemma mail_put_slot:
  assumes "geometry (bar2_globals w)" and "i \<le> 2 ^ 16" and "j \<le> 2 ^ 16"
  shows "mail (put_slot (slot_off (bar2_globals w) i) m w) j = (if j = i then slot_mail m else mail w j)"
  using slot_off_inj [OF assms(1,3,2)] by (auto simp: mail_def)

lemma slot_mail_empty [simp]: "slot_mail (m\<lparr>buflen := 0\<rparr>) = None"
  by (simp add: slot_mail_def)

section \<open>Sending to a peer from a free slot\<close>

lemma unat_of_nat_small: "n < 2 ^ 64 \<Longrightarrow> unat (of_nat n :: u64) = n"
  by (simp add: unat_of_nat)

lemma outgoing_peer_id:
  assumes "s < 2 ^ 31"
  shows "unat (outgoing_peer (int s) FAMEZ_SID_CID_IS_PEER_ID) = s"
    and "unat (outgoing_peer (to_int (of_nat s)) FAMEZ_SID_CID_IS_PEER_ID) = s"
proof -
  show "unat (outgoing_peer (int s) FAMEZ_SID_CID_IS_PEER_ID) = s"
    using assms by (simp add: outgoing_peer_def unat_of_nat)
  moreover have "to_int (of_nat s) = int s"
    using assms by (subst to_int_small) (simp_all add: unat_of_nat)
  ultimately show "unat (outgoing_peer (to_int (of_nat s)) FAMEZ_SID_CID_IS_PEER_ID) = s" by simp
qed

text \<open>
  With the own slot empty and arguments in range the message is in the mailbox, for that
  peer, nothing else is changed, and the peer's bell is rung once with the own id.
\<close>

lemma create_outgoing_delivers:
  assumes inv: "adapter_inv a w" and ok: "outgoing_ok CID SID len a w"
    and len: "unat len \<le> length msg" and free: "mail w (unat (my_id a)) = None"
  shows "\<exists>w'. famez_create_outgoing K CID SID msg len a w = Some (int (unat len), w') \<and>
    adapter_inv a w' \<and> bar2_globals w' = bar2_globals w \<and>
    bar2 w' (slot_off (bar2_globals w) (unat (my_id a)))
      = posted_slot (outgoing_peer CID SID) msg len (bar2 w (slot_off (bar2_globals w) (unat (my_id a)))) \<and>
    (\<forall>j \<le> 2 ^ 16. mail w' j = (if j = unat (my_id a)
       then Some (unat (outgoing_peer CID SID), take (unat len) msg) else mail w j)) \<and>
    (\<forall>q. q \<noteq> slot_off (bar2_globals w) (unat (my_id a)) \<longrightarrow> bar2 w' q = bar2 w q) \<and>
    bells w' = bells w @ [(unat (outgoing_peer CID SID), unat (my_id a))]"
proof -
  define p where "p = slot_off (bar2_globals w) (unat (my_id a))"
  define m where "m = posted_slot (outgoing_peer CID SID) msg len (bar2 w p)"
  define w' where "w' = ring (ringer (ucast (outgoing_peer CID SID)) (my_id a))
    (put_slot p m (note_longest (jiffies w + PRIOR_RESP_WAIT K) w))"
  have g: "geometry (bar2_globals w)" and size: "length (buf (bar2 w p)) = unat (max_buflen a)"
    using inv by (simp_all add: adapter_inv_def)
  have me: "unat (my_id a) \<le> 2 ^ 16" using inv by (simp add: adapter_inv_def geometry_def)
  have "buflen (bar2 w p) = 0"
    using free by (simp add: mail_def slot_mail_def p_def split: if_splits)
  with create_outgoing_free [OF inv ok len p_def]
  have run: "famez_create_outgoing K CID SID msg len a w = Some (int (unat len), w')"
    by (simp add: w'_def m_def)
  have "len \<noteq> 0" using ok by (auto simp: outgoing_ok_def)
  have m_len: "length (buf m) = unat (max_buflen a)"
    using ok len size unfolding m_def by (subst length_posted_slot) (auto simp: outgoing_ok_def)
  have "adapter_inv a w'" using inv m_len by (simp add: w'_def adapter_inv_def)
  moreover have "mail w' j = (if j = unat (my_id a)
      then Some (unat (outgoing_peer CID SID), take (unat len) msg) else mail w j)" if "j \<le> 2 ^ 16" for j
    using slot_off_inj [OF g that me] slot_mail_posted [OF \<open>len \<noteq> 0\<close> len]
    by (auto simp: w'_def mail_def p_def m_def)
  moreover have "bells w' = bells w @ [(unat (outgoing_peer CID SID), unat (my_id a))]"
    using unat_ucast_peer [OF g, of "outgoing_peer CID SID"] ok
    by (simp add: w'_def bells_def ringer_roundtrip outgoing_ok_def)
  moreover have "q \<noteq> p \<Longrightarrow> bar2 w' q = bar2 w q" for q by (simp add: w'_def)
  moreover have "bar2 w' p = m" "bar2_globals w' = bar2_globals w" by (simp_all add: w'_def)
  ultimately show ?thesis using run unfolding p_def m_def by blast
qed

section \<open>A concrete environment\<close>

text \<open>A clock that ticks once per delay, and one that stands still.\<close>

definition demo_kenv :: kenv where
  "demo_kenv = \<lparr>HZ = 250, in_interrupt = False, delay_ms = (\<lambda>_ _ w. w\<lparr>jiffies := jiffies w + 1\<rparr>),
     wait_event_incoming = (\<lambda>a w. (0, a, w))\<rparr>"

definition stuck_kenv :: kenv where
  "stuck_kenv = demo_kenv\<lparr>delay_ms := (\<lambda>_ _ w. w)\<rparr>"

definition demo_busy :: fz_world where
  "demo_busy = put_slot 512 (demo_slot 1 ''hello'') demo_world"

lemma demo_kenv_ok [simp]: "delay_keeps_layout demo_kenv" "clock_runs demo_kenv"
proof -
  show "delay_keeps_layout demo_kenv" by (simp add: delay_keeps_layout_def demo_kenv_def same_layout_def)
  have "unat (j + 1) = unat j + 1" if "unat j < 2 ^ 62" for j :: u64
    using that by (simp add: unat_word_ariths)
  then show "clock_runs demo_kenv" by (simp add: clock_runs_def demo_kenv_def)
qed

lemma demo_slot_off [simp]: "slot_off demo_globals n = of_nat n * 512"
  by (simp add: slot_off_def demo_globals_def)

lemma demo_inv [simp]: "adapter_inv demo_adapter demo_world"
  unfolding adapter_inv_def demo_world_globals demo_slot_off
  by (simp add: demo_adapter_def demo_world_def demo_slot_def offsetof_buf_def) (simp add: demo_globals_def)

lemma demo_busy_inv [simp]: "adapter_inv demo_adapter demo_busy"
  unfolding demo_busy_def by (rule adapter_inv_put_slot [OF demo_inv]) (simp add: demo_slot_def demo_world_def)

lemma demo_room [simp]: "n \<le> 10 \<Longrightarrow> clock_room demo_kenv n demo_world"
proof -
  assume "n \<le> 10"
  then have "n * (5 * 250 + 2 ^ 32) \<le> 10 * (5 * 250 + 2 ^ 32)" by (rule mult_le_mono1)
  then show ?thesis by (simp add: clock_room_def demo_kenv_def demo_world_def)
qed

lemma demo_mail [simp]: "mail demo_world n = None"
  by (simp add: mail_def slot_mail_def demo_world_def demo_slot_def)

section \<open>Properties\<close>

text \<open>
  C3. Sending refines a one-place mailbox. A positive result is the length of the
  message, which is then in the sender's own mailbox for the addressed peer, and exactly
  one doorbell was rung, the peer's, carrying the sender's id. Any other result is a
  negative error and no doorbell was rung. Both keep the adapter well-formed.
\<close>

theorem send_contract:
  assumes "adapter_inv a w" and "delay_keeps_layout K" and "unat len \<le> length msg"
    and "famez_create_outgoing K CID SID msg len a w = Some (r, w')"
  shows "adapter_inv a w' \<and>
    (if 0 < r
     then r = int (unat len) \<and>
       mail w' (unat (my_id a)) = Some (unat (outgoing_peer CID SID), take (unat len) msg) \<and>
       bells w' = bells w @ [(unat (outgoing_peer CID SID), unat (my_id a))]
     else r < 0 \<and> bells w' = bells w)"
  using create_outgoing_posted [OF assms] create_outgoing_failed [OF assms] by auto

theorem send_contract_witness:
  "\<exists>w'. famez_create_outgoing demo_kenv 3 FAMEZ_SID_CID_IS_PEER_ID ''hello'' 5 demo_adapter demo_world = Some (5, w') \<and>
    mail w' 1 = Some (3, ''hello'') \<and> bells w' = [(3, 1)]"
proof -
  have p: "unat (outgoing_peer 3 FAMEZ_SID_CID_IS_PEER_ID) = 3" by (simp add: outgoing_peer_def)
  have ok: "outgoing_ok 3 FAMEZ_SID_CID_IS_PEER_ID 5 demo_adapter demo_world"
    unfolding outgoing_ok_def p by (simp add: demo_adapter_def demo_globals_def)
  obtain w' where r: "famez_create_outgoing demo_kenv 3 FAMEZ_SID_CID_IS_PEER_ID ''hello'' 5 demo_adapter demo_world = Some (5, w')"
    using create_outgoing_delivers [OF demo_inv ok, of "''hello''" demo_kenv] by auto
  have my: "unat (my_id demo_adapter) = 1" "bells demo_world = []" by (simp_all add: demo_adapter_def bells_def demo_world_def)
  from send_contract [OF demo_inv demo_kenv_ok(1) _ r] have "mail w' 1 = Some (3, ''hello'') \<and> bells w' = [(3, 1)]"
    unfolding p my by simp
  with r show ?thesis by blast
qed

text \<open>
  C4. Sending always returns: as long as every delay of its context lets the clock advance, the wait for
  the previous message ends (at the latest after the timeout) and the call has a result,
  whatever the other guests do to the shared memory meanwhile.
\<close>

theorem send_terminates:
  assumes "adapter_inv a w" and "delay_keeps_layout K" and "clock_runs K" and "clock_room K 1 w"
    and "unat len \<le> length msg"
  shows "\<exists>r w'. famez_create_outgoing K CID SID msg len a w = Some (r, w')"
  using create_outgoing_returns [OF assms(1,2,3,5), of 0 CID SID] assms(4) by auto

theorem send_terminates_witness:
  "\<exists>r w'. famez_create_outgoing demo_kenv 3 27 ''hello'' 5 demo_adapter demo_busy = Some (r, w')"
proof (rule send_terminates)
  show "clock_room demo_kenv 1 demo_busy" using demo_room [of 1] by (simp add: clock_room_def demo_busy_def)
qed simp_all

text \<open>
  The checks, in the order of the code: a foreign subnet is unreachable, a peer of 0
  or beyond the server is a bad slot, a message that does not fit is too big, an empty
  one has no data. None of them changes anything.
\<close>

theorem send_rejections:
  fixes CID SID :: int and w :: fz_world
  defines "known \<equiv> SID = 27 \<or> SID = FAMEZ_SID_CID_IS_PEER_ID"
    and "peer \<equiv> unat (outgoing_peer CID SID)" and "last_peer \<equiv> unat (server_id (bar2_globals w))"
  assumes "globals a"
  shows "(\<not> known \<longrightarrow> famez_create_outgoing K CID SID msg len a w = Some (- ENETUNREACH, w)) \<and>
    (known \<and> (peer = 0 \<or> last_peer < peer) \<longrightarrow>
      famez_create_outgoing K CID SID msg len a w = Some (- EBADSLT, w)) \<and>
    (known \<and> 0 < peer \<and> peer \<le> last_peer \<and> unat (max_buflen a) \<le> unat len \<longrightarrow>
      famez_create_outgoing K CID SID msg len a w = Some (- E2BIG, w)) \<and>
    (known \<and> 0 < peer \<and> peer \<le> last_peer \<and> len = 0 \<and> 0 < unat (max_buflen a) \<longrightarrow>
      famez_create_outgoing K CID SID msg len a w = Some (- ENODATA, w))"
  using create_outgoing_rejects [OF assms(4), where K = K and msg = msg and w = w and CID = CID and SID = SID and len = len]
  unfolding known_def peer_def last_peer_def by auto

theorem send_rejections_witness:
  "famez_create_outgoing demo_kenv 900 27 ''hello'' 5 demo_adapter demo_world = Some (- EBADSLT, demo_world) \<and>
   famez_create_outgoing demo_kenv 900 28 ''hello'' 5 demo_adapter demo_world = Some (- ENETUNREACH, demo_world)"
proof -
  have g: "globals demo_adapter" by (simp add: demo_adapter_def)
  have "unat (server_id (bar2_globals demo_world)) < unat (outgoing_peer 900 27)"
    by (simp add: outgoing_peer_def signed_divide_int_def demo_globals_def)
  then show ?thesis
    using send_rejections [OF g, where CID = 900 and SID = 27 and w = demo_world]
      send_rejections [OF g, where CID = 900 and SID = 28 and w = demo_world] by auto
qed

text \<open>
  The doorbell register's halves: the receiver gets back the peer and the vector the
  sender packed into the 32-bit value.
\<close>

theorem doorbell_roundtrip:
  "ringer_peer (ringer peer vec) = peer \<and> ringer_vector (ringer peer vec) = vec"
  by (rule ringer_roundtrip)

text \<open>
  The wait has no exit of its own: if the previous message is not taken and the delay
  does not move the clock (a spinning interrupt handler on the only CPU that keeps time),
  sending never returns.
\<close>

theorem send_never_returns_without_clock:
  assumes inv: "adapter_inv a w" and ok: "outgoing_ok CID SID len a w"
    and stuck: "\<And>irq ms. delay_ms K irq ms w = w" and busy: "mail w (unat (my_id a)) \<noteq> None"
    and "time_before 0 (jiffies w + PRIOR_RESP_WAIT K)" and "time_before (jiffies w) (jiffies w + PRIOR_RESP_WAIT K)"
  shows "famez_create_outgoing K CID SID msg len a w = None"
proof -
  let ?p = "slot_off (bar2_globals w) (unat (my_id a))"
  have "buflen (bar2 w ?p) \<noteq> 0" using busy by (auto simp: mail_def slot_mail_def)
  then have "hw_ready_wait K ?p (jiffies w + PRIOR_RESP_WAIT K) 1 0 w = None"
    using hw_ready_wait_stuck [of K w ?p 0 "jiffies w + PRIOR_RESP_WAIT K" 1] stuck assms(5,6) by simp
  then show ?thesis using inv ok
    by (auto simp: famez_create_outgoing_def Let_def adapter_inv_def outgoing_ok_def word_less_nat_alt word_le_nat_alt)
qed

theorem send_never_returns_without_clock_witness:
  "famez_create_outgoing stuck_kenv 3 FAMEZ_SID_CID_IS_PEER_ID ''hello'' 5 demo_adapter demo_busy = None"
proof (rule send_never_returns_without_clock)
  show "outgoing_ok 3 FAMEZ_SID_CID_IS_PEER_ID 5 demo_adapter demo_busy"
    by (simp add: outgoing_ok_def outgoing_peer_def demo_adapter_def demo_busy_def demo_globals_def)
  show "mail demo_busy (unat (my_id demo_adapter)) \<noteq> None"
    by (simp add: mail_def slot_mail_def demo_busy_def demo_adapter_def demo_slot_def)
  have j: "jiffies demo_busy = 1000" by (simp add: demo_busy_def demo_world_def)
  show "time_before 0 (jiffies demo_busy + PRIOR_RESP_WAIT stuck_kenv)"
    "time_before (jiffies demo_busy) (jiffies demo_busy + PRIOR_RESP_WAIT stuck_kenv)"
    unfolding j by (simp_all add: time_before_iff PRIOR_RESP_WAIT_def stuck_kenv_def demo_kenv_def)
qed (simp_all add: stuck_kenv_def)

end
