(* ===== verification/Famez_Link.thy ===== *)
theory Famez_Link
  imports Famez_IVSHMSG
begin

text \<open>
  \<open>kernel/famez/famez_link.c\<close>: link-level messages answered inside the interrupt
  handler. \<open>famez_link_request\<close> is called with \<open>incoming_slot_lock\<close> held; it releases the
  lock exactly when it takes the message (\<open>IRQ_HANDLED\<close>). The reply is formatted in a
  stack buffer of 128 bytes, a \<open>sprintf\<close> that would not fit has no result.
\<close>

section \<open>Message formats\<close>

datatype irqreturn = IRQ_NONE | IRQ_HANDLED

definition LINK_CTL_PEER_ATTRIBUTE :: string where
  "LINK_CTL_PEER_ATTRIBUTE = ''Link CTL Peer-Attribute''"

text \<open>The expansions of the \<open>printf\<close> formats for given arguments.\<close>

definition LINK_CTL_ACK :: "bytes \<Rightarrow> s32 \<Rightarrow> s32 \<Rightarrow> string" where
  "LINK_CTL_ACK cls sid cid =
     ''Link CTL ACK C-Class='' @ cstr cls @ '',SID0='' @ dec_int (sint sid) @ '',CID0='' @ dec_int (sint cid)"

definition CTL_WRITE_0_SID_CID :: string where
  "CTL_WRITE_0_SID_CID = ''CTL-Write Space=0,PFMSID=%d,PFMCID=%d,SID=%d,CID=%d,Tag=%d''"

definition STANDALONE_ACKNOWLEDGMENT :: "u32 \<Rightarrow> string" where
  "STANDALONE_ACKNOWLEDGMENT tag = ''Standalone Acknowledgment Tag='' @ dec_int (sint tag) @ '',Reason=OK''"

section \<open>famez_link_request\<close>

text \<open>\<open>incoming_slot->buflen = 0\<close> and \<open>spin_unlock\<close>, the start of every branch.\<close>

definition link_take :: "u64 \<Rightarrow> famez_adapter \<Rightarrow> fz_world \<Rightarrow> (famez_adapter \<times> fz_world) option" where
  "link_take p a w = do {
     let w1 = put_slot p ((bar2 w p)\<lparr>buflen := 0\<rparr>) w;
     l \<leftarrow> spin_unlock (incoming_slot_lock a);
     Some (a\<lparr>incoming_slot_lock := l\<rparr>, w1)
   }"

text \<open>\<open>sprintf(outbuf, \<dots>)\<close> and \<open>famez_create_outgoing(\<dots>, outbuf, strlen(outbuf), adapter)\<close>.\<close>

definition link_reply ::
  "kenv \<Rightarrow> u64 \<Rightarrow> string \<Rightarrow> famez_adapter \<Rightarrow> fz_world \<Rightarrow> (irqreturn \<times> famez_adapter \<times> fz_world) option" where
  "link_reply K p txt a w = do {
     outbuf \<leftarrow> sprintf (replicate 128 NUL) txt;
     (_, w1) \<leftarrow> famez_create_outgoing K (to_int (peer_id (bar2 w p))) FAMEZ_SID_CID_IS_PEER_ID
                   outbuf (of_nat (strlen outbuf)) a w;
     Some (IRQ_HANDLED, a, w1)
   }"

definition famez_link_request ::
  "kenv \<Rightarrow> u64 \<Rightarrow> famez_adapter \<Rightarrow> fz_world \<Rightarrow> (irqreturn \<times> famez_adapter \<times> fz_world) option" where
  "famez_link_request K p a w = do {
     let m = (bar2 w p)\<lparr>peer_SID := FAMEZ_SID_DEFAULT, peer_CID := peer_id (bar2 w p) * 100\<rparr>;
     let w1 = put_slot p m w;
     let fields = sscanf CTL_WRITE_0_SID_CID (cstr (buf m));
     if buflen m = 4 \<and> STREQ_N (buf m) ''ping'' 4 then do {
       (a2, w2) \<leftarrow> link_take p a w1;
       (_, w3) \<leftarrow> famez_create_outgoing K (to_int (peer_id (bar2 w2 p))) FAMEZ_SID_CID_IS_PEER_ID
                     ''pong'' 4 a2 w2;
       Some (IRQ_HANDLED, a2, w3)
     }
     else if STREQ_N (buf m) LINK_CTL_PEER_ATTRIBUTE (strlen LINK_CTL_PEER_ATTRIBUTE) then do {
       (a2, w2) \<leftarrow> link_take p a w1;
       c \<leftarrow> core a2;
       link_reply K p (LINK_CTL_ACK (Base_C_Class_str (snd c)) (SID0 (snd c)) (CID0 (snd c))) a2 w2
     }
     else if length fields = 5 then do {
       (a2, w2) \<leftarrow> link_take p a w1;
       c \<leftarrow> core a2;
       let c' = (snd c)\<lparr>PFMSID := word_of_int (fields ! 0), PFMCID := word_of_int (fields ! 1),
                       SID0 := word_of_int (fields ! 2), CID0 := word_of_int (fields ! 3), PMCID := - 1\<rparr>;
       link_reply K p (STANDALONE_ACKNOWLEDGMENT (word_of_int (fields ! 4)))
         (a2\<lparr>core := Some (fst c, c')\<rparr>) w2
     }
     else Some (IRQ_NONE, a, w1)
   }"

section \<open>Parsing what the switch prints\<close>

text \<open>The text of a \<open>CTL-Write\<close> (\<open>_Link_RFC\<close> and \<open>send_payload\<close> of \<open>famez_requests.py\<close>).\<close>

definition ctl_write_text :: "int \<Rightarrow> int \<Rightarrow> int \<Rightarrow> int \<Rightarrow> int \<Rightarrow> string" where
  "ctl_write_text pfmsid pfmcid sid cid tag =
     ''CTL-Write Space=0,PFMSID='' @ dec_int pfmsid @ '',PFMCID='' @ dec_int pfmcid @
     '',SID='' @ dec_int sid @ '',CID='' @ dec_int cid @ '',Tag='' @ dec_int tag"

lemma sscanf_ctl_write:
  assumes "stops r"
  shows "sscanf CTL_WRITE_0_SID_CID (ctl_write_text x1 x2 x3 x4 x5 @ r) = [x1, x2, x3, x4, x5]"
proof -
  have p: "plain ''CTL-Write''" "plain ''Space=0,PFMSID=''" "plain '',PFMCID=''" "plain '',SID=''"
    "plain '',CID=''" "plain '',Tag=''"
    by (simp_all add: plain_def isspace_def)
  have "\<not> isspace (CHR ''S'')" by (simp add: isspace_def)
  have fmt: "CTL_WRITE_0_SID_CID = ''CTL-Write'' @ CHR '' '' # ''Space=0,PFMSID='' @ ''%d'' @ '',PFMCID='' @
      ''%d'' @ '',SID='' @ ''%d'' @ '',CID='' @ ''%d'' @ '',Tag='' @ ''%d'' @ []"
    by (simp add: CTL_WRITE_0_SID_CID_def)
  have tx: "ctl_write_text x1 x2 x3 x4 x5 @ r = ''CTL-Write'' @ CHR '' '' # ''Space=0,PFMSID='' @ dec_int x1 @
      '',PFMCID='' @ dec_int x2 @ '',SID='' @ dec_int x3 @ '',CID='' @ dec_int x4 @ '',Tag='' @ dec_int x5 @ r"
    by (simp add: ctl_write_text_def)
  have sp: "sscanf (CHR '' '' # ''Space=0,PFMSID='' @ f) (CHR '' '' # ''Space=0,PFMSID='' @ s) = sscanf f s" for f s
    using sscanf_space [of "CHR ''S''" "''Space=0,PFMSID='' @ f" "''pace=0,PFMSID='' @ s"]
      sscanf_literal [OF p(2), of f s] \<open>\<not> isspace (CHR ''S'')\<close> by (simp del: sscanf.simps)
  have st: "stops ('',PFMCID='' @ s)" "stops ('',SID='' @ s)" "stops ('',CID='' @ s)" "stops ('',Tag='' @ s)" for s
    by (simp_all add: stops_def isdigit_def)
  show ?thesis
    unfolding fmt tx sscanf_literal [OF p(1)] sp
    by (simp only: sscanf_d sscanf_literal p st assms sscanf.simps(1))
qed

section \<open>Replies fit the stack buffer\<close>

definition core_str_ok :: "famez_adapter \<Rightarrow> bool" where
  "core_str_ok a \<longleftrightarrow> (\<exists>c. core a = Some c \<and> strlen (Base_C_Class_str (snd c)) \<le> 31)"

lemma length_link_ack:
  "strlen cls \<le> 31 \<Longrightarrow> length (LINK_CTL_ACK cls sid cid) \<le> 86"
  using dec_int_s32_length [of sid] dec_int_s32_length [of cid]
  by (simp add: LINK_CTL_ACK_def strlen_def)

lemma length_standalone_ack: "length (STANDALONE_ACKNOWLEDGMENT tag) \<le> 51"
  using dec_int_s32_length [of tag] by (simp add: STANDALONE_ACKNOWLEDGMENT_def)

lemma NUL_notin_link_ack [simp]: "NUL \<notin> set (LINK_CTL_ACK cls sid cid)"
  by (simp add: LINK_CTL_ACK_def)

lemma NUL_notin_standalone_ack [simp]: "NUL \<notin> set (STANDALONE_ACKNOWLEDGMENT tag)"
  by (simp add: STANDALONE_ACKNOWLEDGMENT_def)

text \<open>A reply that fits is sent as it is, to the peer the slot names.\<close>

lemma link_reply_eq:
  assumes "length s < 128" and "NUL \<notin> set s"
  shows "link_reply K p s a w = do {
     (_, w1) \<leftarrow> famez_create_outgoing K (to_int (peer_id (bar2 w p))) FAMEZ_SID_CID_IS_PEER_ID
                   (s @ NUL # replicate (127 - length s) NUL) (of_nat (length s)) a w;
     Some (IRQ_HANDLED, a, w1) }"
proof -
  have "drop (Suc (length s)) (replicate 128 NUL) = replicate (127 - length s) NUL"
    by (simp add: drop_replicate)
  then have "sprintf (replicate 128 NUL) s = Some (s @ NUL # replicate (127 - length s) NUL)"
    using assms(1) by (simp add: sprintf_def del: drop_replicate replicate.simps)
  then show ?thesis
    using assms(2) by (simp add: link_reply_def strlen_def del: replicate.simps)
qed

lemma link_reply_returns:
  assumes "adapter_inv a w" and "delay_keeps_layout K" and "clock_runs K" and "clock_room K (Suc n) w"
    and "length s < 128" and "NUL \<notin> set s"
  shows "\<exists>w'. link_reply K p s a w = Some (IRQ_HANDLED, a, w') \<and> adapter_inv a w' \<and> clock_room K n w'"
proof -
  let ?m = "s @ NUL # replicate (127 - length s) NUL" and ?n = "of_nat (length s) :: u64"
  have len: "unat ?n \<le> length ?m" using assms(5) by (simp add: unat_of_nat_small)
  from create_outgoing_returns [OF assms(1-3) len assms(4)] obtain r w' where
    c: "famez_create_outgoing K (to_int (peer_id (bar2 w p))) FAMEZ_SID_CID_IS_PEER_ID ?m ?n a w = Some (r, w')"
    and "clock_room K n w'" by blast
  moreover have "adapter_inv a w'"
    using create_outgoing_posted [OF assms(1,2) len c] create_outgoing_failed [OF assms(1,2) len c] by blast
  ultimately show ?thesis using assms(5,6) by (simp add: link_reply_eq)
qed

section \<open>Every branch\<close>

definition tagged_world :: "u64 \<Rightarrow> fz_world \<Rightarrow> fz_world" where
  "tagged_world p w = put_slot p ((bar2 w p)\<lparr>peer_SID := FAMEZ_SID_DEFAULT, peer_CID := peer_id (bar2 w p) * 100\<rparr>) w"

lemma tagged_world_inv [simp]: "adapter_inv a (tagged_world p w) = adapter_inv a w"
  unfolding tagged_world_def by (auto simp: adapter_inv_def)

lemma tagged_world_simps [simp]:
  "bar2_globals (tagged_world p w) = bar2_globals w" "bells (tagged_world p w) = bells w"
  "jiffies (tagged_world p w) = jiffies w" "mail (tagged_world p w) i = mail w i"
  "clock_room K n (tagged_world p w) = clock_room K n w"
  "peer_id (bar2 (tagged_world p w) q) = peer_id (bar2 w q)"
  "buf (bar2 (tagged_world p w) q) = buf (bar2 w q)"
  "buflen (bar2 (tagged_world p w) q) = buflen (bar2 w q)"
  by (simp_all add: tagged_world_def bells_def mail_def slot_mail_def clock_room_def)

lemma link_take_run [fz_step]:
  "incoming_slot_lock a \<Longrightarrow>
    link_take p a w = Some (a\<lparr>incoming_slot_lock := False\<rparr>, put_slot p ((bar2 w p)\<lparr>buflen := 0\<rparr>) w)"
  by (simp add: link_take_def)

text \<open>The kind of message decides the branch.\<close>

definition is_ping :: "famez_mailslot \<Rightarrow> bool" where
  "is_ping m \<longleftrightarrow> buflen m = 4 \<and> STREQ_N (buf m) ''ping'' 4"

definition is_peer_attribute :: "famez_mailslot \<Rightarrow> bool" where
  "is_peer_attribute m \<longleftrightarrow> STREQ_N (buf m) LINK_CTL_PEER_ATTRIBUTE (strlen LINK_CTL_PEER_ATTRIBUTE)"

definition is_ctl_write :: "famez_mailslot \<Rightarrow> bool" where
  "is_ctl_write m \<longleftrightarrow> length (sscanf CTL_WRITE_0_SID_CID (cstr (buf m))) = 5"

definition for_readers :: "famez_mailslot \<Rightarrow> bool" where
  "for_readers m \<longleftrightarrow> \<not> is_ping m \<and> \<not> is_peer_attribute m \<and> \<not> is_ctl_write m"

definition ctl_write_core :: "bytes \<Rightarrow> genz_core_structure \<Rightarrow> genz_core_structure" where
  "ctl_write_core b c = (let fields = sscanf CTL_WRITE_0_SID_CID (cstr b) in
     c\<lparr>PFMSID := word_of_int (fields ! 0), PFMCID := word_of_int (fields ! 1),
       SID0 := word_of_int (fields ! 2), CID0 := word_of_int (fields ! 3), PMCID := - 1\<rparr>)"

text \<open>The memory once a request has been taken: its slot is empty.\<close>

definition taken_world :: "u64 \<Rightarrow> fz_world \<Rightarrow> fz_world" where
  "taken_world p w = put_slot p ((bar2 (tagged_world p w) p)\<lparr>buflen := 0\<rparr>) (tagged_world p w)"

lemma taken_world_simps [simp]:
  "bar2_globals (taken_world p w) = bar2_globals w" "buflen (bar2 (taken_world p w) p) = 0"
  "buflen (bar2 w q) = 0 \<Longrightarrow> buflen (bar2 (taken_world p w) q) = 0"
  "q \<noteq> p \<Longrightarrow> bar2 (taken_world p w) q = bar2 w q"
  by (auto simp: taken_world_def tagged_world_def put_slot_def)

lemma taken_world_inv: "adapter_inv a w \<Longrightarrow> adapter_inv a (taken_world p w)"
  unfolding taken_world_def by (rule adapter_inv_put_slot) simp_all

lemma link_request_eq:
  assumes lock: "incoming_slot_lock a" and c: "core a = Some (ad, c)"
  shows "famez_link_request K p a w =
    (let w2 = put_slot p ((bar2 (tagged_world p w) p)\<lparr>buflen := 0\<rparr>) (tagged_world p w);
         a2 = a\<lparr>incoming_slot_lock := False\<rparr>; m = bar2 w p in
     if is_ping m then do {
       (_, w3) \<leftarrow> famez_create_outgoing K (to_int (peer_id m)) FAMEZ_SID_CID_IS_PEER_ID ''pong'' 4 a2 w2;
       Some (IRQ_HANDLED, a2, w3) }
     else if is_peer_attribute m then
       link_reply K p (LINK_CTL_ACK (Base_C_Class_str c) (SID0 c) (CID0 c)) a2 w2
     else if is_ctl_write m then
       link_reply K p (STANDALONE_ACKNOWLEDGMENT (word_of_int (sscanf CTL_WRITE_0_SID_CID (cstr (buf m)) ! 4)))
         (a2\<lparr>core := Some (ad, ctl_write_core (buf m) c)\<rparr>) w2
     else Some (IRQ_NONE, a, tagged_world p w))"
  using assms
  by (simp add: famez_link_request_def Let_def link_take_run is_ping_def is_peer_attribute_def
      is_ctl_write_def ctl_write_core_def tagged_world_def)

text \<open>
  The handler's contract with its caller: it returns (no reply overruns the stack buffer,
  the wait inside the reply ends), and it has released the lock if and only if it took
  the message.
\<close>

lemma link_request_returns:
  assumes inv: "adapter_inv a w" and K: "delay_keeps_layout K" "clock_runs K" and room: "clock_room K (Suc n) w"
    and lock: "incoming_slot_lock a" and str: "core_str_ok a"
  shows "\<exists>res a' w'. famez_link_request K p a w = Some (res, a', w') \<and>
    (res = IRQ_HANDLED \<longleftrightarrow> \<not> incoming_slot_lock a') \<and> adapter_inv a' w' \<and> core_str_ok a' \<and>
    incoming_slot a' = incoming_slot a \<and> my_id a' = my_id a \<and> clock_room K n w'"
proof -
  obtain ad c where c: "core a = Some (ad, c)" and cls: "strlen (Base_C_Class_str c) \<le> 31"
    using str by (auto simp: core_str_ok_def)
  define w2 where "w2 = put_slot p ((bar2 (tagged_world p w) p)\<lparr>buflen := 0\<rparr>) (tagged_world p w)"
  define a2 where "a2 = a\<lparr>incoming_slot_lock := False\<rparr>"
  define a3 where "a3 = a2\<lparr>core := Some (ad, ctl_write_core (buf (bar2 w p)) c)\<rparr>"
  have inv2: "adapter_inv a2 w2" "adapter_inv a3 w2" and room2: "clock_room K (Suc n) w2"
    using inv room by (simp_all add: w2_def a2_def a3_def adapter_inv_put_slot clock_room_def)
  have a3: "\<not> incoming_slot_lock a3" "core_str_ok a3" "incoming_slot a3 = incoming_slot a" "my_id a3 = my_id a"
    and a2: "\<not> incoming_slot_lock a2" "core_str_ok a2" "incoming_slot a2 = incoming_slot a" "my_id a2 = my_id a"
    using c cls str by (simp_all add: a3_def a2_def core_str_ok_def ctl_write_core_def Let_def)
  note eq = link_request_eq [OF lock c, of K p w, folded w2_def a2_def, unfolded Let_def,
      folded w2_def a2_def a3_def]
  have ack: "length (LINK_CTL_ACK (Base_C_Class_str c) (SID0 c) (CID0 c)) < 128"
    using length_link_ack [OF cls, of "SID0 c" "CID0 c"] by simp
  have sa: "length (STANDALONE_ACKNOWLEDGMENT t) < 128" for t
    using length_standalone_ack [of t] by simp
  consider "is_ping (bar2 w p)" | "\<not> is_ping (bar2 w p)" "is_peer_attribute (bar2 w p)"
    | "\<not> is_ping (bar2 w p)" "\<not> is_peer_attribute (bar2 w p)" "is_ctl_write (bar2 w p)"
    | "\<not> is_ping (bar2 w p)" "\<not> is_peer_attribute (bar2 w p)" "\<not> is_ctl_write (bar2 w p)" by blast
  then show ?thesis
  proof cases
    case 1
    have len: "unat (4 :: u64) \<le> length ''pong''" by simp
    obtain r w3 where s: "famez_create_outgoing K (to_int (peer_id (bar2 w p))) FAMEZ_SID_CID_IS_PEER_ID ''pong'' 4 a2 w2
        = Some (r, w3)" "clock_room K n w3"
      using create_outgoing_returns [OF inv2(1) K len room2] by blast
    moreover have "adapter_inv a2 w3"
      using create_outgoing_posted [OF inv2(1) K(1) len s(1)] create_outgoing_failed [OF inv2(1) K(1) len s(1)] by blast
    ultimately show ?thesis using 1 a2 unfolding eq by simp
  next
    case 2
    obtain w3 where "link_reply K p (LINK_CTL_ACK (Base_C_Class_str c) (SID0 c) (CID0 c)) a2 w2 = Some (IRQ_HANDLED, a2, w3)"
      "adapter_inv a2 w3" "clock_room K n w3"
      using link_reply_returns [OF inv2(1) K room2 ack NUL_notin_link_ack] by blast
    with 2 a2 show ?thesis unfolding eq by simp
  next
    case 3
    obtain w3 where "link_reply K p (STANDALONE_ACKNOWLEDGMENT (word_of_int (sscanf CTL_WRITE_0_SID_CID (cstr (buf (bar2 w p))) ! 4))) a3 w2
        = Some (IRQ_HANDLED, a3, w3)" "adapter_inv a3 w3" "clock_room K n w3"
      using link_reply_returns [OF inv2(2) K room2 sa NUL_notin_standalone_ack] by blast
    with 3 a3 show ?thesis unfolding eq by simp
  next
    case 4
    moreover have "clock_room K n w" using room by (simp add: clock_room_def)
    ultimately show ?thesis using lock str inv unfolding eq by simp
  qed
qed

text \<open>
  A message for the readers is left alone. A request is taken, its slot emptied and the
  lock released; then the reply is sent, and the rest is what sending it does.
\<close>

lemma link_request_readers:
  assumes "incoming_slot_lock a" and "core_str_ok a" and "for_readers (bar2 w p)"
  shows "famez_link_request K p a w = Some (IRQ_NONE, a, tagged_world p w)"
proof -
  obtain ad c where "core a = Some (ad, c)" using assms(2) by (auto simp: core_str_ok_def)
  then show ?thesis using assms(3) by (simp add: link_request_eq [OF assms(1)] Let_def for_readers_def)
qed

definition reply_sent :: "kenv \<Rightarrow> u64 \<Rightarrow> famez_adapter \<Rightarrow> fz_world \<Rightarrow> (irqreturn \<times> famez_adapter \<times> fz_world) option \<Rightarrow> bool" where
  "reply_sent K peer a w res \<longleftrightarrow>
     (\<exists>reply len core'. 0 < unat len \<and> unat len < 128 \<and> unat len \<le> length reply \<and>
        core_str_ok (a\<lparr>incoming_slot_lock := False, core := core'\<rparr>) \<and>
        res = do {
          (_, w1) \<leftarrow> famez_create_outgoing K (to_int peer) FAMEZ_SID_CID_IS_PEER_ID reply len
                       (a\<lparr>incoming_slot_lock := False, core := core'\<rparr>) w;
          Some (IRQ_HANDLED, a\<lparr>incoming_slot_lock := False, core := core'\<rparr>, w1) })"

lemma reply_sent_text:
  assumes "link_reply K p s (a\<lparr>incoming_slot_lock := False, core := k\<rparr>) w = res" and "s \<noteq> []" and "length s < 128" and "NUL \<notin> set s"
    and "core_str_ok (a\<lparr>incoming_slot_lock := False, core := k\<rparr>)" and "peer_id (bar2 w p) = peer"
  shows "reply_sent K peer a w res"
  unfolding reply_sent_def using assms
  by (intro exI [of _ "s @ NUL # replicate (127 - length s) NUL"] exI [of _ "of_nat (length s)"] exI [of _ k])
    (auto simp: link_reply_eq unat_of_nat_small simp del: replicate.simps)

lemma link_request_taken:
  assumes lock: "incoming_slot_lock a" and str: "core_str_ok a" and msg: "\<not> for_readers (bar2 w p)"
  shows "reply_sent K (peer_id (bar2 w p)) a (taken_world p w) (famez_link_request K p a w)"
proof -
  obtain ad c where c: "core a = Some (ad, c)" and cls: "strlen (Base_C_Class_str c) \<le> 31"
    using str by (auto simp: core_str_ok_def)
  have same: "a\<lparr>incoming_slot_lock := False, core := core a\<rparr> = a\<lparr>incoming_slot_lock := False\<rparr>" by simp
  have k: "core_str_ok (a\<lparr>incoming_slot_lock := False, core := core a\<rparr>)"
    "core_str_ok (a\<lparr>incoming_slot_lock := False, core := Some (ad, ctl_write_core (buf (bar2 w p)) c)\<rparr>)"
    using c cls by (simp_all add: core_str_ok_def ctl_write_core_def Let_def)
  note eq = link_request_eq [OF lock c, of K p w, folded taken_world_def, unfolded Let_def]
  have pid: "peer_id (bar2 (taken_world p w) p) = peer_id (bar2 w p)" by (simp add: taken_world_def)
  have ack: "length (LINK_CTL_ACK (Base_C_Class_str c) (SID0 c) (CID0 c)) < 128"
    using length_link_ack [OF cls, of "SID0 c" "CID0 c"] by simp
  have sa: "length (STANDALONE_ACKNOWLEDGMENT t) < 128" for t using length_standalone_ack [of t] by simp
  consider (ping) "is_ping (bar2 w p)" | (attr) "\<not> is_ping (bar2 w p)" "is_peer_attribute (bar2 w p)"
    | (ctl) "\<not> is_ping (bar2 w p)" "\<not> is_peer_attribute (bar2 w p)" "is_ctl_write (bar2 w p)"
    using msg by (auto simp: for_readers_def)
  then show ?thesis
  proof cases
    case ping
    then show ?thesis unfolding reply_sent_def eq using k(1)
      by (intro exI [of _ "''pong''"] exI [of _ 4] exI [of _ "core a"]) (simp add: same)
  next
    case attr
    show ?thesis
      by (rule reply_sent_text [where s = "LINK_CTL_ACK (Base_C_Class_str c) (SID0 c) (CID0 c)", OF _ _ ack NUL_notin_link_ack k(1) pid])
        (use attr in \<open>simp_all add: eq same LINK_CTL_ACK_def\<close>)
  next
    case ctl
    show ?thesis
      by (rule reply_sent_text [where s = "STANDALONE_ACKNOWLEDGMENT (word_of_int (sscanf CTL_WRITE_0_SID_CID (cstr (buf (bar2 w p))) ! 4))",
            OF _ _ sa NUL_notin_standalone_ack k(2) pid])
        (use ctl in \<open>simp_all add: eq STANDALONE_ACKNOWLEDGMENT_def\<close>)
  qed
qed

text \<open>What a result says, however long the reply had to wait.\<close>

lemma link_request_result:
  assumes inv: "adapter_inv a w" and K: "delay_keeps_layout K" and lock: "incoming_slot_lock a" and str: "core_str_ok a"
    and run: "famez_link_request K p a w = Some (res, a', w')"
  shows "(res = IRQ_HANDLED \<longleftrightarrow> \<not> incoming_slot_lock a') \<and> adapter_inv a' w' \<and> core_str_ok a' \<and>
    incoming_slot a' = incoming_slot a \<and> my_id a' = my_id a"
proof (cases "for_readers (bar2 w p)")
  case True
  then show ?thesis using link_request_readers [OF lock str True, of K] run inv lock str by simp
next
  case False
  obtain reply len core' where len: "unat len \<le> length reply"
    and a': "core_str_ok (a\<lparr>incoming_slot_lock := False, core := core'\<rparr>)"
    and res: "Some (res, a', w') = do {
        (_, w1) \<leftarrow> famez_create_outgoing K (to_int (peer_id (bar2 w p))) FAMEZ_SID_CID_IS_PEER_ID reply len
                     (a\<lparr>incoming_slot_lock := False, core := core'\<rparr>) (taken_world p w);
        Some (IRQ_HANDLED, a\<lparr>incoming_slot_lock := False, core := core'\<rparr>, w1) }"
    using link_request_taken [OF lock str False, of K] unfolding reply_sent_def run by blast
  let ?c = "famez_create_outgoing K (to_int (peer_id (bar2 w p))) FAMEZ_SID_CID_IS_PEER_ID reply len
      (a\<lparr>incoming_slot_lock := False, core := core'\<rparr>) (taken_world p w)"
  obtain r where c: "?c = Some (r, w')"
    and "res = IRQ_HANDLED" "a' = a\<lparr>incoming_slot_lock := False, core := core'\<rparr>"
    using res by (cases ?c) auto
  moreover have "adapter_inv (a\<lparr>incoming_slot_lock := False, core := core'\<rparr>) (taken_world p w)"
    using taken_world_inv [OF inv] by simp
  from create_outgoing_posted [OF this K len c] create_outgoing_failed [OF this K len c]
  have "adapter_inv (a\<lparr>incoming_slot_lock := False, core := core'\<rparr>) w'" by blast
  ultimately show ?thesis using a' by simp
qed

text \<open>With an empty own mailbox there is nothing to wait for.\<close>

lemma link_request_at_once:
  assumes inv: "adapter_inv a w" and lock: "incoming_slot_lock a" and str: "core_str_ok a"
    and free: "mail w (unat (my_id a)) = None"
  shows "\<exists>res a' w'. famez_link_request K p a w = Some (res, a', w') \<and>
    (\<forall>q. q \<noteq> slot_off (bar2_globals w) (unat (my_id a)) \<longrightarrow>
       bar2 w' q = bar2 (if for_readers (bar2 w p) then tagged_world p w else taken_world p w) q)"
proof (cases "for_readers (bar2 w p)")
  case True
  then show ?thesis using link_request_readers [OF lock str True, of K] by simp
next
  case False
  obtain reply len core' where len: "unat len \<le> length reply"
    and res: "famez_link_request K p a w = do {
        (_, w1) \<leftarrow> famez_create_outgoing K (to_int (peer_id (bar2 w p))) FAMEZ_SID_CID_IS_PEER_ID reply len
                     (a\<lparr>incoming_slot_lock := False, core := core'\<rparr>) (taken_world p w);
        Some (IRQ_HANDLED, a\<lparr>incoming_slot_lock := False, core := core'\<rparr>, w1) }"
    using link_request_taken [OF lock str False, of K] unfolding reply_sent_def by blast
  let ?a = "a\<lparr>incoming_slot_lock := False, core := core'\<rparr>"
  have "adapter_inv ?a (taken_world p w)" using taken_world_inv [OF inv] by simp
  moreover have "buflen (bar2 w (slot_off (bar2_globals w) (unat (my_id a)))) = 0"
    using free by (simp add: mail_def slot_mail_def split: if_splits)
  ultimately obtain r w' where "famez_create_outgoing K (to_int (peer_id (bar2 w p))) FAMEZ_SID_CID_IS_PEER_ID reply len ?a (taken_world p w) = Some (r, w')"
    "\<forall>q. q \<noteq> slot_off (bar2_globals w) (unat (my_id a)) \<longrightarrow> bar2 w' q = bar2 (taken_world p w) q"
    using create_outgoing_at_once [of ?a "taken_world p w" len reply, OF _ len refl,
        of K "to_int (peer_id (bar2 w p))" FAMEZ_SID_CID_IS_PEER_ID] by force
  then show ?thesis using res False by simp
qed

section \<open>What the peer gets back\<close>

text \<open>
  The situation of a link message from client \<open>s\<close>: its slot carries its id (the server
  writes it there), the own slot is free, and the slots are large enough for a reply.
\<close>

definition link_ready :: "nat \<Rightarrow> u64 \<Rightarrow> famez_adapter \<Rightarrow> fz_world \<Rightarrow> bool" where
  "link_ready s p a w \<longleftrightarrow>
     adapter_inv a w \<and> incoming_slot_lock a \<and> core_str_ok a \<and>
     p = slot_off (bar2_globals w) s \<and> peer_id (bar2 w p) = of_nat s \<and>
     0 < s \<and> s \<le> unat (server_id (bar2_globals w)) \<and> s \<noteq> unat (my_id a) \<and>
     mail w (unat (my_id a)) = None \<and> 128 \<le> unat (max_buflen a)"

text \<open>The effect of an answer: the request is taken and \<open>reply\<close> is posted to \<open>s\<close>.\<close>

definition link_answered ::
  "nat \<Rightarrow> string \<Rightarrow> famez_adapter \<Rightarrow> fz_world \<Rightarrow> famez_adapter \<Rightarrow> fz_world \<Rightarrow> bool" where
  "link_answered s reply a w a' w' \<longleftrightarrow>
     \<not> incoming_slot_lock a' \<and> mail w' s = None \<and> mail w' (unat (my_id a)) = Some (s, reply) \<and>
     bells w' = bells w @ [(s, unat (my_id a))] \<and>
     (\<forall>j \<le> 2 ^ 16. j \<noteq> s \<and> j \<noteq> unat (my_id a) \<longrightarrow> mail w' j = mail w j)"

lemma link_answer_sent:
  assumes ready: "link_ready s p a w" and reply: "reply \<noteq> []" "length reply < 128"
    and pre: "take (length reply) msg = reply" and len: "length reply \<le> length msg"
    and a2: "a2 = a\<lparr>incoming_slot_lock := False\<rparr> \<or> a2 = a\<lparr>incoming_slot_lock := False, core := c\<rparr>"
    and w2: "w2 = put_slot p ((bar2 (tagged_world p w) p)\<lparr>buflen := 0\<rparr>) (tagged_world p w)"
  shows "\<exists>r w'. famez_create_outgoing K (to_int (peer_id (bar2 w p))) FAMEZ_SID_CID_IS_PEER_ID
      msg (of_nat (length reply)) a2 w2 = Some (r, w') \<and> link_answered s reply a w a2 w'"
proof -
  have inv: "adapter_inv a2 w2" and my: "my_id a2 = my_id a" "max_buflen a2 = max_buflen a"
    and lock: "\<not> incoming_slot_lock a2"
    using ready a2 by (auto simp: link_ready_def w2 adapter_inv_put_slot)
  have g: "geometry (bar2_globals w)" using ready by (simp add: link_ready_def adapter_inv_def)
  have s: "s \<le> 2 ^ 16" "s < 2 ^ 31" "unat (my_id a) \<le> 2 ^ 16"
    using ready geometry_unat [OF g] g unfolding link_ready_def adapter_inv_def geometry_def by simp_all
  have pe: "unat (outgoing_peer (to_int (of_nat s)) FAMEZ_SID_CID_IS_PEER_ID) = s"
    using s(2) by (rule outgoing_peer_id)
  have ok: "outgoing_ok (to_int (of_nat s)) FAMEZ_SID_CID_IS_PEER_ID (of_nat (length reply)) a2 w2"
    unfolding outgoing_ok_def pe using ready reply my
    by (auto simp: link_ready_def w2 unat_of_nat_small)
  have m2: "mail w2 j = (if j = s then None else mail w j)" if "j \<le> 2 ^ 16" for j
    using mail_put_slot [of "tagged_world p w" s j] ready g s that unfolding w2 link_ready_def by simp
  have free: "mail w2 (unat (my_id a2)) = None" using m2 [OF s(3)] ready my by (simp add: link_ready_def)
  have l: "unat (of_nat (length reply) :: u64) = length reply" using reply(2) by (simp add: unat_of_nat_small)
  have len': "unat (of_nat (length reply) :: u64) \<le> length msg" using l len by simp
  have b: "bells w2 = bells w" by (simp add: w2 bells_def) (simp add: tagged_world_def)
  have p: "peer_id (bar2 w p) = of_nat s" using ready unfolding link_ready_def by blast
  obtain w' where "famez_create_outgoing K (to_int (of_nat s)) FAMEZ_SID_CID_IS_PEER_ID
      msg (of_nat (length reply)) a2 w2 = Some (int (length reply), w')"
    and "\<And>j. j \<le> 2 ^ 16 \<Longrightarrow> mail w' j = (if j = unat (my_id a) then Some (s, reply) else mail w2 j)"
    and "bells w' = bells w2 @ [(s, unat (my_id a))]"
    using create_outgoing_delivers [OF inv ok len' free, of K] unfolding l pe my pre by blast
  then show ?thesis
    using ready m2 s p lock b unfolding link_answered_def link_ready_def by (auto split: if_splits)
qed

lemma link_reply_sent:
  assumes ready: "link_ready s p a w" and reply: "reply \<noteq> []" "length reply < 128" "NUL \<notin> set reply"
    and a2: "a2 = a\<lparr>incoming_slot_lock := False\<rparr> \<or> a2 = a\<lparr>incoming_slot_lock := False, core := c\<rparr>"
    and w2: "w2 = put_slot p ((bar2 (tagged_world p w) p)\<lparr>buflen := 0\<rparr>) (tagged_world p w)"
  shows "\<exists>w'. link_reply K p reply a2 w2 = Some (IRQ_HANDLED, a2, w') \<and> link_answered s reply a w a2 w'"
proof -
  have "peer_id (bar2 w2 p) = peer_id (bar2 w p)" by (simp add: w2)
  moreover have "take (length reply) (reply @ NUL # replicate (127 - length reply) NUL) = reply" by simp
  moreover have "length reply \<le> length (reply @ NUL # replicate (127 - length reply) NUL)" by simp
  ultimately show ?thesis
    using link_answer_sent [OF ready reply(1,2) _ _ a2 w2, of "reply @ NUL # replicate (127 - length reply) NUL" K]
    unfolding link_reply_eq [OF reply(2,3)] by auto
qed

lemma link_ready_core:
  assumes "link_ready s p a w"
  obtains ad c where "core a = Some (ad, c)" and "strlen (Base_C_Class_str c) \<le> 31" and "incoming_slot_lock a"
  using assms by (auto simp: link_ready_def core_str_ok_def)

lemma link_ping_answered:
  assumes ready: "link_ready s p a w" and ping: "is_ping (bar2 w p)"
  shows "\<exists>a' w'. famez_link_request K p a w = Some (IRQ_HANDLED, a', w') \<and> link_answered s ''pong'' a w a' w'"
proof -
  from ready obtain ad c where c: "core a = Some (ad, c)" and lock: "incoming_slot_lock a"
    by (rule link_ready_core)
  from link_answer_sent [OF ready _ _ _ _ disjI1 [OF refl] refl, of "''pong''" "''pong''" K]
  show ?thesis using ping by (auto simp: link_request_eq [OF lock c] Let_def)
qed

lemma link_peer_attribute_answered:
  assumes ready: "link_ready s p a w" and "is_peer_attribute (bar2 w p)" and "\<not> is_ping (bar2 w p)"
    and c: "core a = Some (ad, c)"
  shows "\<exists>a' w'. famez_link_request K p a w = Some (IRQ_HANDLED, a', w') \<and>
    link_answered s (LINK_CTL_ACK (Base_C_Class_str c) (SID0 c) (CID0 c)) a w a' w'"
proof -
  have lock: "incoming_slot_lock a" and cls: "strlen (Base_C_Class_str c) \<le> 31"
    using link_ready_core [OF ready] c by auto
  have "length (LINK_CTL_ACK (Base_C_Class_str c) (SID0 c) (CID0 c)) < 128"
    using length_link_ack [OF cls, of "SID0 c" "CID0 c"] by simp
  moreover have "LINK_CTL_ACK (Base_C_Class_str c) (SID0 c) (CID0 c) \<noteq> []" by (simp add: LINK_CTL_ACK_def)
  ultimately show ?thesis
    using link_reply_sent [OF ready _ _ NUL_notin_link_ack disjI1 [OF refl] refl,
        of "Base_C_Class_str c" "SID0 c" "CID0 c" K] assms(2,3)
    by (auto simp: link_request_eq [OF lock c] Let_def)
qed

lemma ctl_write_slot:
  assumes "buf m = ctl_write_text x1 x2 x3 x4 x5 @ r @ NUL # pad" and "stops r" and "NUL \<notin> set r"
  shows "\<not> is_ping m" and "\<not> is_peer_attribute m" and "is_ctl_write m"
    and "sscanf CTL_WRITE_0_SID_CID (cstr (buf m)) = [x1, x2, x3, x4, x5]"
proof -
  have "NUL \<notin> set (ctl_write_text x1 x2 x3 x4 x5 @ r)" using assms(3) by (simp add: ctl_write_text_def)
  then have c: "cstr (buf m) = ctl_write_text x1 x2 x3 x4 x5 @ r"
    using cstr_append_nul [of "ctl_write_text x1 x2 x3 x4 x5 @ r" pad] assms(1) by simp
  then show f: "sscanf CTL_WRITE_0_SID_CID (cstr (buf m)) = [x1, x2, x3, x4, x5]"
    using sscanf_ctl_write [OF assms(2)] by simp
  then show "is_ctl_write m" by (simp add: is_ctl_write_def)
  show "\<not> is_ping m" by (simp add: is_ping_def STREQ_N_def c ctl_write_text_def)
  show "\<not> is_peer_attribute m"
    by (simp add: is_peer_attribute_def STREQ_N_def strlen_def LINK_CTL_PEER_ATTRIBUTE_def c ctl_write_text_def)
qed

lemma link_ctl_write_configures:
  assumes ready: "link_ready s p a w"
    and msg: "buf (bar2 w p) = ctl_write_text x1 x2 x3 x4 x5 @ r @ NUL # pad" "stops r" "NUL \<notin> set r"
    and c: "core a = Some (ad, c)"
  shows "\<exists>a' w'. famez_link_request K p a w = Some (IRQ_HANDLED, a', w') \<and>
    core a' = Some (ad, c\<lparr>PFMSID := word_of_int x1, PFMCID := word_of_int x2, SID0 := word_of_int x3,
      CID0 := word_of_int x4, PMCID := - 1\<rparr>) \<and>
    link_answered s (STANDALONE_ACKNOWLEDGMENT (word_of_int x5)) a w a' w'"
proof -
  note kind = ctl_write_slot [OF msg]
  have lock: "incoming_slot_lock a" using link_ready_core [OF ready] by auto
  have "length (STANDALONE_ACKNOWLEDGMENT (word_of_int x5)) < 128"
    using length_standalone_ack [of "word_of_int x5"] by simp
  moreover have "STANDALONE_ACKNOWLEDGMENT (word_of_int x5) \<noteq> []" by (simp add: STANDALONE_ACKNOWLEDGMENT_def)
  ultimately show ?thesis
    using link_reply_sent [OF ready _ _ NUL_notin_standalone_ack disjI2 [OF refl] refl, of "word_of_int x5" K
        "Some (ad, ctl_write_core (buf (bar2 w p)) c)"] kind
    by (auto simp: link_request_eq [OF lock c] Let_def ctl_write_core_def)
qed

section \<open>Properties\<close>

text \<open>A request from client 2 in the sample mailbox, with the lock held.\<close>

definition demo_locked :: famez_adapter where
  "demo_locked = demo_adapter\<lparr>incoming_slot_lock := True\<rparr>"

definition demo_request :: "u64 \<Rightarrow> string \<Rightarrow> fz_world" where
  "demo_request i tx = put_slot 1024 (demo_slot i tx) demo_world"

lemma demo_core_str [simp]: "core_str_ok demo_adapter" "core_str_ok demo_locked"
proof -
  have "strlen (''FAME-Z Adapter'' @ NUL # r) = 14" for r
    using cstr_append_nul [of "''FAME-Z Adapter''" r] by (simp add: strlen_def)
  moreover have "''FAME-Z Adapter'' @ replicate 18 NUL = ''FAME-Z Adapter'' @ NUL # replicate 17 NUL"
    by (simp add: numeral_eq_Suc)
  ultimately have "strlen (''FAME-Z Adapter'' @ replicate 18 NUL) = 14" by metis
  then show "core_str_ok demo_adapter" "core_str_ok demo_locked"
    by (simp_all add: core_str_ok_def demo_adapter_def demo_locked_def)
qed

lemma demo_request_inv [simp]:
  assumes "length tx \<le> 384"
  shows "adapter_inv demo_adapter (demo_request i tx)" "adapter_inv demo_locked (demo_request i tx)"
  using adapter_inv_put_slot [OF demo_inv, of "demo_slot i tx" 1024] assms
  by (simp_all add: demo_request_def demo_locked_def demo_slot_def demo_world_def)

lemma demo_request_slot [simp]: "bar2 (demo_request i tx) 1024 = demo_slot i tx" "bar2_globals (demo_request i tx) = demo_globals"
  by (simp_all add: demo_request_def)

lemma demo_link_ready:
  assumes "length tx \<le> 384"
  shows "link_ready 2 1024 demo_locked (demo_request 2 tx)"
proof -
  have "mail (demo_request 2 tx) 1 = None" by (simp add: mail_def slot_mail_def demo_request_def demo_slot_def demo_world_def)
  moreover have "unat (my_id demo_locked) = 1" "unat (max_buflen demo_locked) = 384" "incoming_slot_lock demo_locked"
    by (simp_all add: demo_locked_def demo_adapter_def)
  ultimately show ?thesis
    using assms unfolding link_ready_def by (simp add: demo_slot_def) (simp add: demo_globals_def)
qed

lemma demo_text_cstr: "length tx < 384 \<Longrightarrow> NUL \<notin> set tx \<Longrightarrow> cstr (buf (demo_slot i tx)) = tx"
  using cstr_append_nul [of tx "replicate (383 - length tx) NUL"]
  by (simp add: demo_slot_def Suc_diff_Suc [symmetric] flip: replicate_Suc)

lemma demo_ping: "is_ping (bar2 (demo_request i ''ping'') 1024)"
proof -
  have tx: "cstr (buf (demo_slot i ''ping'')) = ''ping''" by (rule demo_text_cstr) simp_all
  show ?thesis unfolding demo_request_slot is_ping_def STREQ_N_def tx by (simp add: demo_slot_def)
qed

text \<open>
  C10. Called with the lock held, the link layer decides by the message alone. A message
  that is no link request it leaves where it is, with the lock held: only the two fields
  \<open>peer_SID\<close> and \<open>peer_CID\<close> of its slot are written. A request it takes: the slot of the sender
  is emptied and the lock released, and then a reply of less than the 128 bytes of the stack
  buffer goes to the peer the slot names. If the own mailbox is empty the reply does not
  wait: the call returns, and in all other mailboxes nothing but that has happened. Whenever it
  returns, it has released the lock if and only if it took the message, and the adapter
  is well-formed.
\<close>

theorem link_request_discipline:
  assumes "adapter_inv a w" and "delay_keeps_layout K" and "incoming_slot_lock a" and "core_str_ok a"
  shows "(if for_readers (bar2 w p) then famez_link_request K p a w = Some (IRQ_NONE, a, tagged_world p w)
      else reply_sent K (peer_id (bar2 w p)) a (taken_world p w) (famez_link_request K p a w)) \<and>
    (mail w (unat (my_id a)) = None \<longrightarrow> (\<exists>res a' w'. famez_link_request K p a w = Some (res, a', w') \<and>
      (\<forall>q. q \<noteq> slot_off (bar2_globals w) (unat (my_id a)) \<longrightarrow>
         bar2 w' q = bar2 (if for_readers (bar2 w p) then tagged_world p w else taken_world p w) q))) \<and>
    (\<forall>res a' w'. famez_link_request K p a w = Some (res, a', w') \<longrightarrow>
      (res = IRQ_HANDLED \<longleftrightarrow> \<not> incoming_slot_lock a') \<and> adapter_inv a' w' \<and> core_str_ok a' \<and>
      incoming_slot a' = incoming_slot a)"
proof (intro conjI impI allI)
  show "if for_readers (bar2 w p) then famez_link_request K p a w = Some (IRQ_NONE, a, tagged_world p w)
      else reply_sent K (peer_id (bar2 w p)) a (taken_world p w) (famez_link_request K p a w)"
    using link_request_readers link_request_taken assms(3,4) by simp
qed (use link_request_at_once [OF assms(1,3,4)] link_request_result [OF assms] in \<open>blast+\<close>)

theorem link_request_discipline_witness:
  "\<exists>res a' w'. famez_link_request demo_kenv 1024 demo_locked (demo_request 2 ''ping'') = Some (res, a', w') \<and>
    buflen (bar2 w' 1024) = 0 \<and> res = IRQ_HANDLED \<and> \<not> incoming_slot_lock a' \<and> adapter_inv a' w'"
proof -
  let ?w = "demo_request 2 ''ping''"
  have lock: "incoming_slot_lock demo_locked" by (simp add: demo_locked_def)
  have inv: "adapter_inv demo_locked ?w" by simp
  note th = link_request_discipline [OF inv demo_kenv_ok(1) lock demo_core_str(2), of 1024]
  have "is_ping (bar2 ?w 1024)" by (rule demo_ping)
  then have k: "\<not> for_readers (bar2 ?w 1024)" by (simp add: for_readers_def)
  have m: "mail ?w (unat (my_id demo_locked)) = None" "slot_off (bar2_globals ?w) (unat (my_id demo_locked)) = 512"
    by (simp_all add: demo_locked_def demo_adapter_def mail_def slot_mail_def demo_request_def demo_slot_def demo_world_def)
  obtain res a' w' where r: "famez_link_request demo_kenv 1024 demo_locked ?w = Some (res, a', w')"
    "\<forall>q. q \<noteq> 512 \<longrightarrow> bar2 w' q = bar2 (taken_world 1024 ?w) q"
    using th [THEN conjunct2, THEN conjunct1, rule_format, OF m(1), unfolded m(2) if_not_P [OF k]] by blast
  then have "buflen (bar2 w' 1024) = 0" by simp
  moreover have "(res = IRQ_HANDLED) = (\<not> incoming_slot_lock a')" "adapter_inv a' w'"
    using th [THEN conjunct2, THEN conjunct2, rule_format, OF r(1)] by blast+
  moreover have "reply_sent demo_kenv (peer_id (bar2 ?w 1024)) demo_locked (taken_world 1024 ?w) (Some (res, a', w'))"
    using th [THEN conjunct1, unfolded if_not_P [OF k] r(1)] .
  then have "res = IRQ_HANDLED" unfolding reply_sent_def by (auto split: bind_splits)
  ultimately show ?thesis using r(1) by blast
qed

text \<open>
  C11. Round trip of the configuration: whatever five numbers the switch prints into a
  \<open>CTL-Write\<close> (followed by anything that does not continue the last number), the core
  structure takes exactly those numbers, and the switch gets an acknowledgement with the
  tag it sent.
\<close>

theorem ctl_write_configures_core:
  assumes "link_ready s p a w"
    and "buf (bar2 w p) = ctl_write_text pfmsid pfmcid sid cid tag @ r @ NUL # pad" and "stops r" and "NUL \<notin> set r"
    and "core a = Some (ad, c)"
  shows "\<exists>a' w'. famez_link_request K p a w = Some (IRQ_HANDLED, a', w') \<and>
    core a' = Some (ad, c\<lparr>PFMSID := word_of_int pfmsid, PFMCID := word_of_int pfmcid, SID0 := word_of_int sid,
      CID0 := word_of_int cid, PMCID := - 1\<rparr>) \<and>
    link_answered s (STANDALONE_ACKNOWLEDGMENT (word_of_int tag)) a w a' w'"
  by (rule link_ctl_write_configures [OF assms])

theorem ctl_write_configures_core_witness:
  "\<exists>a' w'. famez_link_request demo_kenv 1024 demo_locked (demo_request 2 (ctl_write_text 27 500 27 100 7 @ ''!FZT=1''))
      = Some (IRQ_HANDLED, a', w') \<and>
    core a' = Some (7, (zero_core\<lparr>Base_C_Class_str := ''FAME-Z Adapter'' @ replicate 18 NUL\<rparr>)
      \<lparr>PFMSID := word_of_int 27, PFMCID := word_of_int 500, SID0 := word_of_int 27, CID0 := word_of_int 100, PMCID := - 1\<rparr>) \<and>
    link_answered 2 (STANDALONE_ACKNOWLEDGMENT (word_of_int 7)) demo_locked
      (demo_request 2 (ctl_write_text 27 500 27 100 7 @ ''!FZT=1'')) a' w'"
proof -
  define tx where "tx = ctl_write_text 27 500 27 100 7 @ ''!FZT=1''"
  have d: "length (dec_int i) \<le> 3" if "0 \<le> i" "i < 1000" for i
    using that dec_nat_length [of "nat i" 3] by (simp add: dec_int_def)
  have "length tx \<le> 100"
    using d [of 27] d [of 500] d [of 100] d [of 7] by (simp add: tx_def ctl_write_text_def)
  then have k: "384 - length tx = Suc (383 - length tx)" "length tx \<le> 384" by linarith+
  have b: "buf (bar2 (demo_request 2 tx) 1024) = ctl_write_text 27 500 27 100 7 @ ''!FZT=1'' @ NUL # replicate (383 - length tx) NUL"
    unfolding demo_request_slot demo_slot_def by (simp add: k(1)) (simp add: tx_def)
  show ?thesis unfolding tx_def [symmetric]
    by (rule ctl_write_configures_core [OF demo_link_ready [OF k(2)] b])
      (simp_all add: stops_def isdigit_def demo_locked_def demo_adapter_def)
qed

text \<open>
  C12. A request for the peer attributes is taken and answered with the component class
  and the SID and CID of the core structure; no other mailbox changes, and one bell rings.
\<close>

theorem peer_attribute_request_answered:
  assumes "link_ready s p a w" and "is_peer_attribute (bar2 w p)" and "\<not> is_ping (bar2 w p)" and "core a = Some (ad, c)"
  shows "\<exists>a' w'. famez_link_request K p a w = Some (IRQ_HANDLED, a', w') \<and>
    link_answered s (LINK_CTL_ACK (Base_C_Class_str c) (SID0 c) (CID0 c)) a w a' w'"
  by (rule link_peer_attribute_answered [OF assms])

theorem peer_attribute_request_answered_witness:
  "\<exists>a' w'. famez_link_request demo_kenv 1024 demo_locked (demo_request 2 ''Link CTL Peer-Attribute'') = Some (IRQ_HANDLED, a', w') \<and>
    link_answered 2 (LINK_CTL_ACK (''FAME-Z Adapter'' @ replicate 18 NUL) 0 0) demo_locked
      (demo_request 2 ''Link CTL Peer-Attribute'') a' w'"
proof -
  define c where "c = zero_core\<lparr>Base_C_Class_str := ''FAME-Z Adapter'' @ replicate 18 NUL\<rparr>"
  have c: "core demo_locked = Some (7, c)" by (simp add: demo_locked_def demo_adapter_def c_def)
  have tx: "cstr (buf (demo_slot 2 ''Link CTL Peer-Attribute'')) = ''Link CTL Peer-Attribute''"
    by (rule demo_text_cstr) simp_all
  have "is_peer_attribute (bar2 (demo_request 2 ''Link CTL Peer-Attribute'') 1024)"
    unfolding demo_request_slot is_peer_attribute_def STREQ_N_def tx by (simp add: LINK_CTL_PEER_ATTRIBUTE_def)
  moreover have "\<not> is_ping (bar2 (demo_request 2 ''Link CTL Peer-Attribute'') 1024)"
    unfolding demo_request_slot is_ping_def STREQ_N_def tx by simp
  ultimately show ?thesis
    using peer_attribute_request_answered [OF demo_link_ready _ _ c, of "''Link CTL Peer-Attribute''" demo_kenv]
    by (simp add: c_def zero_core_def)
qed

text \<open>
  C13. A ping is taken and answered with a pong in the own mailbox and one doorbell to the
  sender named in the slot; no other mailbox changes.
\<close>

theorem ping_answered:
  assumes "link_ready s p a w" and "is_ping (bar2 w p)"
  shows "\<exists>a' w'. famez_link_request K p a w = Some (IRQ_HANDLED, a', w') \<and> link_answered s ''pong'' a w a' w'"
  by (rule link_ping_answered [OF assms])

theorem ping_answered_witness:
  "\<exists>a' w'. famez_link_request demo_kenv 1024 demo_locked (demo_request 2 ''ping'') = Some (IRQ_HANDLED, a', w') \<and>
    link_answered 2 ''pong'' demo_locked (demo_request 2 ''ping'') a' w'"
  by (rule ping_answered [OF demo_link_ready demo_ping]) simp

text \<open>
  The answer goes to the \<open>peer_id\<close> stored in the sender's slot. A sender whose driver
  has wiped its slot (\<open>famez_adapter_create\<close> does, including the \<open>peer_id\<close> the server set)
  has 0 there: its ping is taken from the slot and never answered.
\<close>

theorem ping_from_wiped_slot_is_lost:
  assumes "adapter_inv a w" and "incoming_slot_lock a" and "core_str_ok a"
    and "is_ping (bar2 w p)" and "peer_id (bar2 w p) = 0"
  shows "\<exists>w'. famez_link_request K p a w = Some (IRQ_HANDLED, a\<lparr>incoming_slot_lock := False\<rparr>, w') \<and>
    buflen (bar2 w' p) = 0 \<and> bells w' = bells w"
proof -
  obtain ad c where c: "core a = Some (ad, c)" using assms(3) by (auto simp: core_str_ok_def)
  let ?w = "put_slot p ((bar2 (tagged_world p w) p)\<lparr>buflen := 0\<rparr>) (tagged_world p w)"
  have "unat (outgoing_peer (to_int 0) FAMEZ_SID_CID_IS_PEER_ID) = 0" by (simp add: outgoing_peer_def to_int_def)
  then have "famez_create_outgoing K (to_int 0) FAMEZ_SID_CID_IS_PEER_ID ''pong'' 4 (a\<lparr>incoming_slot_lock := False\<rparr>) ?w
      = Some (- EBADSLT, ?w)"
    using assms(1) by (intro create_outgoing_rejects(2)) (simp_all add: adapter_inv_def)
  moreover have "bells ?w = bells w" by (simp add: bells_def) (simp add: tagged_world_def)
  ultimately show ?thesis using assms(4,5) by (simp add: link_request_eq [OF assms(2) c] Let_def)
qed

theorem ping_from_wiped_slot_is_lost_witness:
  "\<exists>w'. famez_link_request demo_kenv 1024 demo_locked (demo_request 0 ''ping'')
      = Some (IRQ_HANDLED, demo_locked\<lparr>incoming_slot_lock := False\<rparr>, w') \<and>
    buflen (bar2 w' 1024) = 0 \<and> bells w' = bells (demo_request 0 ''ping'')"
  by (rule ping_from_wiped_slot_is_lost [OF _ _ _ demo_ping]) (simp_all, simp_all add: demo_locked_def demo_slot_def)

end
