(* ===== verification/Famez_Rollback.thy ===== *)
theory Famez_Rollback
  imports Famez_Prelude
begin

text \<open>
  The shape of the driver's set-up loops: acquire the resources of a list one by one, and
  if one of them fails give back those acquired so far. It occurs in
  \<open>famez_ISR_setup\<close> (interrupts, \<open>famez_MSI-X.c\<close> of both drivers) and in
  \<open>genz_classes_init\<close> (device classes, \<open>genz_class.c\<close>).

  \<open>acquire_all\<close> is the loop, with the list of what it got; \<open>release_all\<close> gives a list
  back. The locale states the laws of one acquisition and one release and shows that
  giving back what a failed loop acquired, in any order, restores the state.
\<close>

fun acquire_all :: "('k \<Rightarrow> 's \<Rightarrow> int \<times> 's) \<Rightarrow> 'k list \<Rightarrow> 's \<Rightarrow> int \<times> 'k list \<times> 's" where
  "acquire_all acq [] s = (0, [], s)"
| "acquire_all acq (k # ks) s =
     (case acq k s of
        (ret, s1) \<Rightarrow>
          if ret \<noteq> 0 then (ret, [], s1)
          else (case acquire_all acq ks s1 of (ret', got, s2) \<Rightarrow> (ret', k # got, s2)))"

fun release_all :: "('k \<Rightarrow> 's \<Rightarrow> 's option) \<Rightarrow> 'k list \<Rightarrow> 's \<Rightarrow> 's option" where
  "release_all rel [] s = Some s"
| "release_all rel (k # ks) s = Option.bind (rel k s) (release_all rel ks)"

lemma acquire_all_prefix:
  "acquire_all acq ks s = (ret, got, s') \<Longrightarrow> \<exists>rest. ks = got @ rest \<and> (ret = 0 \<longrightarrow> rest = [])"
proof (induction ks arbitrary: s ret got s')
  case (Cons k ks)
  then show ?case by (fastforce split: prod.splits if_splits)
qed simp

lemma acquire_all_ret:
  "(\<And>k s. fst (acq k s) \<le> 0) \<Longrightarrow> acquire_all acq ks s = (ret, got, s') \<Longrightarrow> ret \<le> 0"
proof (induction ks arbitrary: s ret got s')
  case (Cons k ks)
  obtain r1 s1 where a: "acq k s = (r1, s1)" by (cases "acq k s")
  with Cons.prems(1) [of k s] Cons.prems(2) Cons.IH [OF Cons.prems(1), of s1] show ?case
    by (auto split: prod.splits if_splits)
qed simp

locale rollback =
  fixes acq :: "'k \<Rightarrow> 's \<Rightarrow> int \<times> 's"
    and rel :: "'k \<Rightarrow> 's \<Rightarrow> 's option"
    and held :: "'s \<Rightarrow> 'k set"
    and put_held :: "'k set \<Rightarrow> 's \<Rightarrow> 's"
  assumes held_put [simp]: "held (put_held H s) = H"
    and put_put [simp]: "put_held H (put_held H' s) = put_held H s"
    and put_same [simp]: "put_held (held s) s = s"
    and acq_err: "acq k s = (ret, s') \<Longrightarrow> ret \<noteq> 0 \<Longrightarrow> s' = s"
    and acq_ok: "acq k s = (0, s') \<Longrightarrow> s' = put_held (insert k (held s)) s"
    and rel_held: "k \<in> held s \<Longrightarrow> rel k s = Some (put_held (held s - {k}) s)"
begin

lemma acquire_all_state:
  "acquire_all acq ks s = (ret, got, s') \<Longrightarrow> s' = put_held (held s \<union> set got) s"
proof (induction ks arbitrary: s ret got s')
  case (Cons k ks)
  obtain r1 s1 where a: "acq k s = (r1, s1)" by (cases "acq k s")
  show ?case
  proof (cases "r1 = 0")
    case True
    with a have s1: "s1 = put_held (insert k (held s)) s" using acq_ok by simp
    obtain r2 g2 s2 where b: "acquire_all acq ks s1 = (r2, g2, s2)" by (cases "acquire_all acq ks s1") auto
    with Cons.prems a True have e: "got = k # g2" "s' = s2" by auto
    show ?thesis using Cons.IH [OF b] unfolding e s1 by simp
  next
    case False
    with a Cons.prems acq_err show ?thesis by auto
  qed
qed simp

lemma release_all_state:
  "distinct ks \<Longrightarrow> set ks \<subseteq> held s \<Longrightarrow> release_all rel ks s = Some (put_held (held s - set ks) s)"
proof (induction ks arbitrary: s)
  case (Cons k ks)
  then have "release_all rel ks (put_held (held s - {k}) s)
      = Some (put_held (held s - {k} - set ks) (put_held (held s - {k}) s))"
    by (subst Cons.IH) auto
  moreover have "held s - {k} - set ks = held s - set (k # ks)" by auto
  moreover have "rel k s = Some (put_held (held s - {k}) s)" using Cons.prems rel_held by simp
  ultimately show ?case by simp
qed simp

text \<open>Nothing that was held before is lost and nothing new is kept.\<close>

lemma rollback_restores:
  assumes "distinct ks" and "set ks \<inter> held s = {}" and "acquire_all acq ks s = (ret, got, s')"
    and "distinct back" and "set back = set got"
  shows "release_all rel back s' = Some s"
proof -
  have s': "s' = put_held (held s \<union> set got) s" using assms(3) by (rule acquire_all_state)
  have "set got \<subseteq> set ks" using acquire_all_prefix [OF assms(3)] by auto
  with assms(2) have "held s \<union> set got - set back = held s" using assms(5) by auto
  then show ?thesis using release_all_state [OF assms(4), of s'] assms(5) by (simp add: s')
qed

lemma acquire_release_all:
  assumes "distinct ks" and "set ks \<inter> held s = {}" and "acquire_all acq ks s = (0, got, s')"
  shows "held s' = held s \<union> set ks" and "release_all rel ks s' = Some s"
proof -
  have "got = ks" using acquire_all_prefix [OF assms(3)] by auto
  then show "held s' = held s \<union> set ks" using acquire_all_state [OF assms(3)] by simp
  show "release_all rel ks s' = Some s"
    by (rule rollback_restores [OF assms assms(1)]) (simp add: \<open>got = ks\<close>)
qed

end

end
