(* ===== verification/Famez_MSIX.thy ===== *)
theory Famez_MSIX
  imports Famez_Link Famez_Rollback
begin

text \<open>
  \<open>kernel/famez/famez_MSI-X.c\<close>: the interrupt handler \<open>all_msix\<close>, and setting up and
  tearing down the MSI-X vectors. What the PCI core answers is the record \<open>irq_env\<close>; the
  interrupts the kernel has attached for the device are the record \<open>irq_state\<close>. Freeing
  an interrupt that is not attached, and releasing the vectors while one still is, are
  kernel bugs without a result.
\<close>

section \<open>The interrupt handler\<close>

text \<open>
  The loop that matches the interrupt number with a table entry, from slot \<open>i\<close>:
  the slot found, or \<open>n\<close>; reading past the table has no result.
\<close>

function match_vector :: "int \<Rightarrow> msix_entry list \<Rightarrow> nat \<Rightarrow> nat \<Rightarrow> nat option" where
  "match_vector irq es n i =
     (if i < n then
        if i < length es then
          if word_of_int irq = vector (es ! i) then Some i else match_vector irq es n (Suc i)
        else None
      else Some i)"
  by pat_completeness auto
termination
  by (relation "measure (\<lambda>(irq, es, n, i). n - i)") auto

declare match_vector.simps [simp del]

text \<open>
  The result is the return value, whether \<open>wake_up\<close> was called on the readers' queue,
  and the new state. The handler runs in interrupt context.
\<close>

definition all_msix ::
  "kenv \<Rightarrow> int \<Rightarrow> famez_adapter \<Rightarrow> fz_world \<Rightarrow> (irqreturn \<times> bool \<times> famez_adapter \<times> fz_world) option" where
  "all_msix K irq a w = do {
     l \<leftarrow> spin_lock (incoming_slot_lock a);
     let a1 = a\<lparr>incoming_slot_lock := l\<rparr>;
     (_, es) \<leftarrow> IRQ_private a1;
     g \<leftarrow> deref_globals a1 w;
     slotnum \<leftarrow> match_vector irq es (unat (nEvents g)) 1;
     if slotnum \<ge> unat (nEvents g) then do {
       l2 \<leftarrow> spin_unlock l;
       Some (IRQ_NONE, False, a1\<lparr>incoming_slot_lock := l2\<rparr>, w)
     }
     else do {
       let incoming_id = entry (es ! slotnum);
       s \<leftarrow> calculate_mailslot a1 (ucast incoming_id) w;
       (case s of
          None \<Rightarrow> do {
            l2 \<leftarrow> spin_unlock l;
            Some (IRQ_HANDLED, False, a1\<lparr>incoming_slot_lock := l2\<rparr>, w)
          }
        | Some p \<Rightarrow> do {
            (r, a2, w2) \<leftarrow> famez_link_request (K\<lparr>in_interrupt := True\<rparr>) p a1 w;
            if r = IRQ_HANDLED then Some (IRQ_HANDLED, False, a2, w2)
            else do {
              let a3 = a2\<lparr>incoming_slot := Some p\<rparr>;
              l3 \<leftarrow> spin_unlock (incoming_slot_lock a3);
              Some (IRQ_HANDLED, True, a3\<lparr>incoming_slot_lock := l3\<rparr>, w2)
            }
          })
     }
   }"

section \<open>Setting up the vectors\<close>

record irq_env =
  pci_msix_vec_count :: int
  pci_alloc_irq_vectors :: "nat \<Rightarrow> int"
  pci_irq_vector :: "nat \<Rightarrow> int"
  request_irq :: "u32 \<Rightarrow> int"

record irq_state =
  attached :: "u32 set"
  vectors_on :: bool

definition do_request_irq :: "irq_env \<Rightarrow> u32 \<Rightarrow> irq_state \<Rightarrow> int \<times> irq_state" where
  "do_request_irq E v s =
     (request_irq E v, if request_irq E v = 0 then s\<lparr>attached := insert v (attached s)\<rparr> else s)"

definition free_irq :: "u32 \<Rightarrow> irq_state \<Rightarrow> irq_state option" where
  "free_irq v s = (if v \<in> attached s then Some (s\<lparr>attached := attached s - {v}\<rparr>) else None)"

definition pci_free_irq_vectors :: "irq_state \<Rightarrow> irq_state option" where
  "pci_free_irq_vectors s = (if attached s = {} then Some (s\<lparr>vectors_on := False\<rparr>) else None)"

text \<open>\<open>msix_entries[i].entry = i\<close> on the zeroed table.\<close>

definition fresh_entries :: "nat \<Rightarrow> msix_entry list" where
  "fresh_entries n = map (\<lambda>i. \<lparr>vector = 0, entry = of_nat i\<rparr>) [0..<n]"

text \<open>The loop over \<open>pci_irq_vector\<close>: 0 and the filled table, or the first error.\<close>

fun fill_vectors :: "irq_env \<Rightarrow> nat list \<Rightarrow> msix_entry list \<Rightarrow> int \<times> msix_entry list" where
  "fill_vectors E [] es = (0, es)"
| "fill_vectors E (i # is) es =
     (let ret = pci_irq_vector E i in
      if ret < 0 then (ret, es)
      else fill_vectors E is (es[i := (es ! i)\<lparr>vector := word_of_int ret\<rparr>]))"

text \<open>The label \<open>err_pci_free_irq_vectors\<close>.\<close>

definition err_pci_free_irq_vectors ::
  "int \<Rightarrow> msix_entry list \<Rightarrow> irq_state \<Rightarrow> (int \<times> msix_entry list \<times> irq_state) option" where
  "err_pci_free_irq_vectors ret es s = do {
     s1 \<leftarrow> pci_free_irq_vectors s;
     Some (ret, es, s1)
   }"

text \<open>
  The part of the set-up between the allocation of the table and the label
  \<open>err_kfree_msix_entries\<close>, the same in both drivers: allocate \<open>n\<close> vectors, look up their
  numbers, attach the handler to each, and undo it all if one step fails.
\<close>

definition attach_vectors ::
  "irq_env \<Rightarrow> nat \<Rightarrow> irq_state \<Rightarrow> (int \<times> msix_entry list \<times> irq_state) option" where
  "attach_vectors E nvectors s =
     (let es = fresh_entries nvectors; ret = pci_alloc_irq_vectors E nvectors in
      if ret < 0 then Some (ret, es, s)
      else
        let s1 = s\<lparr>vectors_on := True\<rparr> in
        if ret < int nvectors then err_pci_free_irq_vectors (- ENOSPC) es s1
        else case fill_vectors E [0..<nvectors] es of
          (ret2, es2) \<Rightarrow>
            if ret2 < 0 then err_pci_free_irq_vectors ret2 es2 s1
            else case acquire_all (do_request_irq E) (map vector es2) s1 of
              (ret3, got, s2) \<Rightarrow>
                if ret3 \<noteq> 0 then do {
                  s3 \<leftarrow> release_all free_irq got s2;
                  err_pci_free_irq_vectors ret3 es2 s3
                }
                else Some (0, es2, s2))"

text \<open>The label \<open>err_kfree_msix_entries\<close>.\<close>

definition err_kfree_msix_entries ::
  "int \<Rightarrow> nat option \<Rightarrow> famez_adapter \<Rightarrow> kheap \<Rightarrow> irq_state \<Rightarrow> (int \<times> famez_adapter \<times> kheap \<times> irq_state) option" where
  "err_kfree_msix_entries ret tab a h s = do {
     h1 \<leftarrow> kfree tab h;
     Some (ret, a\<lparr>IRQ_private := None\<rparr>, h1, s)
   }"

definition famez_ISR_setup ::
  "irq_env \<Rightarrow> famez_adapter \<Rightarrow> fz_world \<Rightarrow> kheap \<Rightarrow> irq_state \<Rightarrow>
     (int \<times> famez_adapter \<times> kheap \<times> irq_state) option" where
  "famez_ISR_setup E a w h s =
     (if pci_msix_vec_count E < 0 then Some (pci_msix_vec_count E, a, h, s)
      else if pci_msix_vec_count E < 16 then Some (- EINVAL, a, h, s)
      else do {
        g \<leftarrow> deref_globals a w;
        if nEvents g > to_u64 (pci_msix_vec_count E) then Some (- ENOSPC, a, h, s)
        else case kzalloc h of
          (None, h1) \<Rightarrow> err_kfree_msix_entries (- ENOMEM) None a h1 s
        | (Some tab, h1) \<Rightarrow> do {
            (ret, es, s1) \<leftarrow> attach_vectors E (unat (nEvents g)) s;
            let a1 = a\<lparr>IRQ_private := Some (tab, es)\<rparr>;
            if ret \<noteq> 0 then err_kfree_msix_entries ret (Some tab) a1 h1 s1
            else Some (0, a1, h1, s1)
          }
      })"

text \<open>
  The teardown loop runs to \<open>nClients + 2\<close>, the set-up to \<open>nEvents\<close>; reading the table
  past its end has no result.
\<close>

definition famez_ISR_teardown ::
  "famez_adapter \<Rightarrow> fz_world \<Rightarrow> kheap \<Rightarrow> irq_state \<Rightarrow> (famez_adapter \<times> kheap \<times> irq_state) option" where
  "famez_ISR_teardown a w h s =
     (case IRQ_private a of
        None \<Rightarrow> Some (a, h, s)
      | Some (tab, es) \<Rightarrow> do {
          g \<leftarrow> deref_globals a w;
          let n = unat (nClients g + 2);
          s1 \<leftarrow> (if n \<le> length es then release_all free_irq (map vector (take n es)) s else None);
          s2 \<leftarrow> pci_free_irq_vectors s1;
          h1 \<leftarrow> kfree (Some tab) h;
          Some (a\<lparr>IRQ_private := None\<rparr>, h1, s2)
        })"

interpretation irqs: rollback "do_request_irq E" free_irq attached "\<lambda>H s. s\<lparr>attached := H\<rparr>"
  by unfold_locales (auto simp: do_request_irq_def free_irq_def split: if_splits)

section \<open>What the interrupt handler does\<close>

text \<open>The table \<open>famez_ISR_setup\<close> leaves behind: entry \<open>i\<close> carries the number \<open>i\<close>.\<close>

definition irq_table_ok :: "famez_adapter \<Rightarrow> fz_world \<Rightarrow> bool" where
  "irq_table_ok a w \<longleftrightarrow>
     (\<exists>tab es. IRQ_private a = Some (tab, es) \<and> length es = unat (nEvents (bar2_globals w)) \<and>
        map entry es = map of_nat [0..<length es] \<and> distinct (map vector es))"

lemma match_vector_finds:
  assumes "distinct (map vector es)" and "s < n" and "n \<le> length es" and "i \<le> s"
    and "word_of_int irq = vector (es ! s)"
  shows "match_vector irq es n i = Some s"
  using assms(4)
proof (induction "s - i" arbitrary: i)
  case 0
  then show ?case using assms by (subst match_vector.simps) simp
next
  case (Suc k)
  then have "i < s" by simp
  with assms have "vector (es ! i) \<noteq> vector (es ! s)"
    by (auto simp: distinct_conv_nth dest!: spec [of _ i])
  with Suc.hyps(1) [of "Suc i"] Suc.hyps(2) \<open>i < s\<close> show ?case
    using assms by (subst match_vector.simps) auto
qed

lemma match_vector_misses:
  assumes "\<forall>s. i \<le> s \<and> s < n \<longrightarrow> word_of_int irq \<noteq> vector (es ! s)" and "n \<le> length es" and "i \<le> n"
  shows "match_vector irq es n i = Some n"
  using assms
proof (induction "n - i" arbitrary: i)
  case 0
  then show ?case by (subst match_vector.simps) simp
next
  case (Suc k)
  then have "match_vector irq es n (Suc i) = Some n" by (intro Suc.hyps(1)) auto
  with Suc.prems Suc.hyps(2) show ?case by (subst match_vector.simps) auto
qed

lemma match_vector_range:
  "n \<le> length es \<Longrightarrow> i \<le> n \<Longrightarrow> \<exists>s. match_vector irq es n i = Some s \<and> i \<le> s \<and> s \<le> n"
proof (induction irq es n i rule: match_vector.induct)
  case (1 irq es n i)
  then show ?case by (subst match_vector.simps) (fastforce simp: not_less le_antisym)
qed

lemma table_entry:
  assumes "map entry es = map of_nat [0..<length es]" and "s < length es"
  shows "entry (es ! s) = of_nat s"
proof -
  have "map entry es ! s = map of_nat [0..<length es] ! s" using assms(1) by simp
  then show ?thesis using assms(2) by simp
qed

lemma unat_entry_u32: "s < 2 ^ 16 \<Longrightarrow> unat (ucast (of_nat s :: u16) :: u32) = s"
  by (simp add: unsigned_ucast_eq take_bit_nat_eq_self unat_of_nat)

lemma calculate_mailslot_entry:
  assumes g: "geometry (bar2_globals w)" and "globals a" and "0 < s" and "s < unat (nEvents (bar2_globals w))"
  shows "calculate_mailslot a (ucast (of_nat s :: u16)) w = Some (Some (slot_off (bar2_globals w) s))"
proof -
  let ?n = "ucast (of_nat s :: u16) :: u32" and ?g = "bar2_globals w"
  have s: "s < 2 ^ 16" "s \<le> unat (nClients ?g) + 1"
    using assms(4) geometry_unat [OF g] g by (simp_all add: geometry_def)
  note u = unat_entry_u32 [OF s(1)]
  have "valid_slotnum ?g ?n"
  proof (cases "s \<le> unat (nClients ?g)")
    case True
    then have "\<not> (ucast ?n :: u64) > nClients ?g" using u by (simp add: word_less_nat_alt del: unsigned_of_nat)
    moreover have "\<not> ?n < 1" using u \<open>0 < s\<close> by (simp add: word_less_nat_alt del: unsigned_of_nat)
    ultimately show ?thesis by (simp add: valid_slotnum_def del: unsigned_of_nat)
  next
    case False
    with s have "unat (ucast ?n :: u64) = unat (server_id ?g)" using u geometry_unat(1) [OF g] by simp
    then have "(ucast ?n :: u64) = server_id ?g" by (simp only: word_unat_eq_iff)
    then show ?thesis by (simp add: valid_slotnum_def del: unsigned_of_nat)
  qed
  from calculate_mailslot_valid [OF assms(2) this] show ?thesis unfolding u .
qed

text \<open>The handler up to the link layer, for the interrupt of sender \<open>s\<close>.\<close>

lemma all_msix_from:
  assumes inv: "adapter_inv a w" and lock: "\<not> incoming_slot_lock a"
    and tab: "irq_table_ok a w" and irq: "IRQ_private a = Some (tab, es)" "word_of_int irq = vector (es ! s)"
    and s: "0 < s" "s < unat (nEvents (bar2_globals w))"
  shows "all_msix K irq a w = do {
     (r, a2, w2) \<leftarrow> famez_link_request (K\<lparr>in_interrupt := True\<rparr>) (slot_off (bar2_globals w) s)
        (a\<lparr>incoming_slot_lock := True\<rparr>) w;
     if r = IRQ_HANDLED then Some (IRQ_HANDLED, False, a2, w2)
     else do {
       l3 \<leftarrow> spin_unlock (incoming_slot_lock a2);
       Some (IRQ_HANDLED, True,
         a2\<lparr>incoming_slot := Some (slot_off (bar2_globals w) s), incoming_slot_lock := l3\<rparr>, w2)
     } }"
proof -
  have t: "length es = unat (nEvents (bar2_globals w))" "map entry es = map of_nat [0..<length es]"
    "distinct (map vector es)" using tab irq(1) by (auto simp: irq_table_ok_def)
  have g: "geometry (bar2_globals w)" "globals a" using inv by (auto simp: adapter_inv_def)
  have m: "match_vector irq es (unat (nEvents (bar2_globals w))) (Suc 0) = Some s"
    using s by (intro match_vector_finds [OF t(3) s(2) _ _ irq(2)]) (simp_all add: t)
  have e: "entry (es ! s) = of_nat s" using table_entry [OF t(2)] s(2) t(1) by simp
  have g2: "globals (a\<lparr>incoming_slot_lock := True\<rparr>)" using g(2) by simp
  note c = calculate_mailslot_entry [OF g(1) g2 s]
  show ?thesis unfolding all_msix_def Let_def using lock irq(1) g(2) s
    by (simp add: m e c del: unsigned_of_nat cong: if_cong)
qed

text \<open>An interrupt of an unknown vector changes nothing.\<close>

lemma all_msix_unknown:
  assumes inv: "adapter_inv a w" and lock: "\<not> incoming_slot_lock a"
    and irq: "IRQ_private a = Some (tab, es)" "length es = unat (nEvents (bar2_globals w))"
    and no: "\<forall>s. 0 < s \<and> s < length es \<longrightarrow> word_of_int irq \<noteq> vector (es ! s)"
  shows "all_msix K irq a w = Some (IRQ_NONE, False, a, w)"
proof -
  have "1 \<le> unat (nEvents (bar2_globals w))"
    using inv geometry_unat(2) [of "bar2_globals w"] by (simp add: adapter_inv_def)
  with no irq(2) have m: "match_vector irq es (unat (nEvents (bar2_globals w))) (Suc 0)
      = Some (unat (nEvents (bar2_globals w)))"
    by (intro match_vector_misses) auto
  have "a\<lparr>incoming_slot_lock := False\<rparr> = a" using lock by simp
  then show ?thesis using lock irq(1) inv
    by (simp add: all_msix_def Let_def m adapter_inv_def)
qed

text \<open>A message that is not for the link layer is handed to the readers and stays in its slot.\<close>

lemma all_msix_message:
  assumes inv: "adapter_inv a w" and lock: "\<not> incoming_slot_lock a" and str: "core_str_ok a"
    and tab: "irq_table_ok a w" and irq: "IRQ_private a = Some (tab, es)" "word_of_int irq = vector (es ! s)"
    and s: "0 < s" "s < unat (nEvents (bar2_globals w))"
    and msg: "for_readers (bar2 w (slot_off (bar2_globals w) s))"
  shows "all_msix K irq a w = Some (IRQ_HANDLED, True,
     a\<lparr>incoming_slot := Some (slot_off (bar2_globals w) s)\<rparr>, tagged_world (slot_off (bar2_globals w) s) w)"
proof -
  from str obtain ad c where c: "core (a\<lparr>incoming_slot_lock := True\<rparr>) = Some (ad, c)"
    by (auto simp: core_str_ok_def)
  have l: "incoming_slot_lock (a\<lparr>incoming_slot_lock := True\<rparr>)" by simp
  show ?thesis
    unfolding all_msix_from [OF inv lock tab irq s] link_request_eq [OF l c] Let_def
    using msg lock by (simp add: for_readers_def)
qed

text \<open>
  What can keep the handler: only the reply to a request while the adapter's own mailbox
  is still full. It then spins with \<open>mdelay\<close>, and returns if the clock runs meanwhile.
\<close>

definition no_reply_waits :: "kenv \<Rightarrow> int \<Rightarrow> famez_adapter \<Rightarrow> fz_world \<Rightarrow> bool" where
  "no_reply_waits K irq a w \<longleftrightarrow>
     mail w (unat (my_id a)) = None \<or>
     (\<exists>tab es. IRQ_private a = Some (tab, es) \<and>
        (\<forall>s. 0 < s \<and> s < length es \<and> word_of_int irq = vector (es ! s) \<longrightarrow>
           for_readers (bar2 w (slot_off (bar2_globals w) s)))) \<or>
     clock_runs (K\<lparr>in_interrupt := True\<rparr>) \<and> clock_room (K\<lparr>in_interrupt := True\<rparr>) 1 w"

lemma link_request_no_wait:
  assumes inv: "adapter_inv a w" and K: "delay_keeps_layout K" and lock: "incoming_slot_lock a" and str: "core_str_ok a"
    and why: "mail w (unat (my_id a)) = None \<or> for_readers (bar2 w p) \<or> clock_runs K \<and> clock_room K 1 w"
  shows "famez_link_request K p a w \<noteq> None"
  using link_request_at_once [OF inv lock str, of K p] link_request_readers [OF lock str, of w p K]
    link_request_returns [OF inv K _ _ lock str, of 0 p] why by fastforce

lemma all_msix_unlocks:
  assumes inv: "adapter_inv a w" and K: "delay_keeps_layout K"
    and lock: "\<not> incoming_slot_lock a" and str: "core_str_ok a" and tab: "irq_table_ok a w"
  shows "no_reply_waits K irq a w \<Longrightarrow> all_msix K irq a w \<noteq> None"
    and "all_msix K irq a w = Some (r, woken, a', w') \<Longrightarrow>
      \<not> incoming_slot_lock a' \<and> adapter_inv a' w' \<and> core_str_ok a'"
proof -
  obtain tb es where irq: "IRQ_private a = Some (tb, es)" "length es = unat (nEvents (bar2_globals w))"
    "distinct (map vector es)" using tab by (auto simp: irq_table_ok_def)
  have "(no_reply_waits K irq a w \<longrightarrow> all_msix K irq a w \<noteq> None) \<and>
    (all_msix K irq a w = Some (r, woken, a', w') \<longrightarrow>
      \<not> incoming_slot_lock a' \<and> adapter_inv a' w' \<and> core_str_ok a')"
  proof (cases "\<exists>s. 0 < s \<and> s < length es \<and> word_of_int irq = vector (es ! s)")
    case True
    then obtain s where s: "0 < s" "s < unat (nEvents (bar2_globals w))" "word_of_int irq = vector (es ! s)"
      using irq(2) by auto
    let ?K = "K\<lparr>in_interrupt := True\<rparr>" and ?a = "a\<lparr>incoming_slot_lock := True\<rparr>" and ?p = "slot_off (bar2_globals w) s"
    have K': "delay_keeps_layout ?K" using K by (simp add: delay_keeps_layout_def)
    have a: "adapter_inv ?a w" "incoming_slot_lock ?a" "core_str_ok ?a"
      using inv str by (simp_all add: core_str_ok_def)
    note eq = all_msix_from [OF inv lock tab irq(1) s(3,1,2), of K]
    show ?thesis
    proof (cases "famez_link_request ?K ?p ?a w")
      case None
      moreover have "my_id ?a = my_id a" by simp
      ultimately have "mail w (unat (my_id a)) \<noteq> None" "\<not> for_readers (bar2 w ?p)" "\<not> (clock_runs ?K \<and> clock_room ?K 1 w)"
        using link_request_no_wait [OF a(1) K' a(2,3), of ?p] by metis+
      then have "\<not> no_reply_waits K irq a w" using s irq(1,2) unfolding no_reply_waits_def by auto
      then show ?thesis unfolding eq None by simp
    next
      case (Some x)
      then obtain res a1 w1 where x: "famez_link_request ?K ?p ?a w = Some (res, a1, w1)" by (cases x) auto
      from link_request_result [OF a(1) K' a(2,3) x] show ?thesis unfolding eq x
        by (cases "incoming_slot_lock a1") (auto simp: core_str_ok_def)
    qed
  next
    case False
    then have "all_msix K irq a w = Some (IRQ_NONE, False, a, w)"
      using all_msix_unknown [OF inv lock irq(1,2)] by blast
    then show ?thesis using inv lock str by auto
  qed
  then show "no_reply_waits K irq a w \<Longrightarrow> all_msix K irq a w \<noteq> None"
    and "all_msix K irq a w = Some (r, woken, a', w') \<Longrightarrow>
      \<not> incoming_slot_lock a' \<and> adapter_inv a' w' \<and> core_str_ok a'" by blast+
qed

section \<open>Setting up and tearing down\<close>

text \<open>
  Documented behaviour of the PCI core: different MSI-X entries have different interrupt
  numbers, and \<open>request_irq\<close> returns 0 or a negative error.
\<close>

definition irq_env_ok :: "irq_env \<Rightarrow> bool" where
  "irq_env_ok E \<longleftrightarrow>
     (\<forall>i j. 0 \<le> pci_irq_vector E i \<and> 0 \<le> pci_irq_vector E j \<and>
        (word_of_int (pci_irq_vector E i) :: u32) = word_of_int (pci_irq_vector E j) \<longrightarrow> i = j) \<and>
     (\<forall>v. request_irq E v \<le> 0)"

lemma length_fresh_entries [simp]: "length (fresh_entries n) = n"
  by (simp add: fresh_entries_def)

lemma fill_vectors_spec:
  "fill_vectors E is es = (ret, es') \<Longrightarrow> length es' = length es \<and> map entry es' = map entry es \<and>
    (ret < 0 \<or> ret = 0 \<and> (\<forall>i \<in> set is. 0 \<le> pci_irq_vector E i) \<and>
      (\<forall>i < length es. vector (es' ! i) =
        (if i \<in> set is then word_of_int (pci_irq_vector E i) else vector (es ! i))))"
proof (induction "is" arbitrary: es)
  case (Cons i js)
  show ?case
  proof (cases "pci_irq_vector E i < 0")
    case False
    let ?es = "es[i := (es ! i)\<lparr>vector := word_of_int (pci_irq_vector E i)\<rparr>]"
    from Cons.prems False have "fill_vectors E js ?es = (ret, es')" by (simp add: Let_def)
    from Cons.IH [OF this] have "length es' = length es" and "map entry es' = map entry ?es"
      and "ret < 0 \<or> ret = 0 \<and> (\<forall>k \<in> set js. 0 \<le> pci_irq_vector E k) \<and>
        (\<forall>k < length es. vector (es' ! k) =
          (if k \<in> set js then word_of_int (pci_irq_vector E k) else vector (?es ! k)))"
      by simp_all
    moreover have "map entry ?es = map entry es"
      by (cases "i < length es") (simp_all add: map_update list_update_same_conv list_update_beyond)
    ultimately show ?thesis using False by (auto simp: nth_list_update)
  qed (use Cons.prems in \<open>auto simp: Let_def\<close>)
qed simp

lemma filled_table:
  assumes "fill_vectors E [0..<n] (fresh_entries n) = (ret, es)" and "\<not> ret < 0" and "irq_env_ok E"
  shows "length es = n" and "map entry es = map of_nat [0..<length es]" and "distinct (map vector es)"
proof -
  note f = fill_vectors_spec [OF assms(1)]
  then show l: "length es = n" by simp
  show "map entry es = map of_nat [0..<length es]" using f by (simp add: fresh_entries_def)
  have "vector (es ! i) = word_of_int (pci_irq_vector E i) \<and> 0 \<le> pci_irq_vector E i" if "i < n" for i
    using f assms(2) that by auto
  then show "distinct (map vector es)"
    using assms(3) l by (auto simp: distinct_conv_nth irq_env_ok_def)
qed

text \<open>What the driver holds before the set-up: nothing.\<close>

definition irqs_off :: "famez_adapter \<Rightarrow> irq_state \<Rightarrow> bool" where
  "irqs_off a s \<longleftrightarrow> IRQ_private a = None \<and> attached s = {} \<and> \<not> vectors_on s"

definition irqs_on :: "famez_adapter \<Rightarrow> fz_world \<Rightarrow> kheap \<Rightarrow> irq_state \<Rightarrow> bool" where
  "irqs_on a w h s \<longleftrightarrow> irq_table_ok a w \<and> vectors_on s \<and>
     (\<exists>tab es. IRQ_private a = Some (tab, es) \<and> attached s = set (map vector es) \<and> tab \<in> k_live h)"

lemma irq_requests_undone:
  assumes E: "irq_env_ok E" and off: "attached s = {}"
    and fv: "fill_vectors E [0..<n] (fresh_entries n) = (ret2, es)" and "\<not> ret2 < 0"
    and aq: "acquire_all (do_request_irq E) (map vector es) (s\<lparr>vectors_on := True\<rparr>) = (ret3, got, s2)"
  shows "release_all free_irq got s2 = Some (s\<lparr>vectors_on := True\<rparr>)" and "ret3 \<le> 0"
proof -
  note d = filled_table(3) [OF fv assms(4) E]
  obtain rest where "map vector es = got @ rest" using acquire_all_prefix [OF aq] by blast
  then have "distinct got" using d by simp
  from irqs.rollback_restores [OF d _ aq this refl] off
  show "release_all free_irq got s2 = Some (s\<lparr>vectors_on := True\<rparr>)" by simp
  have "fst (do_request_irq E k t) \<le> 0" for k t
    using E by (simp add: do_request_irq_def irq_env_ok_def)
  then show "ret3 \<le> 0" using aq by (rule acquire_all_ret)
qed

text \<open>All vectors are attached or none.\<close>

lemma attach_vectors_result:
  assumes E: "irq_env_ok E" and off: "attached s = {}" "\<not> vectors_on s"
  shows "\<exists>ret es s'. attach_vectors E n s = Some (ret, es, s') \<and>
    (if ret = 0 then length es = n \<and> map entry es = map of_nat [0..<length es] \<and> distinct (map vector es) \<and>
       attached s' = set (map vector es) \<and> vectors_on s'
     else ret < 0 \<and> s' = s)"
proof -
  define ret1 where "ret1 = pci_alloc_irq_vectors E n"
  obtain ret2 es where fv: "fill_vectors E [0..<n] (fresh_entries n) = (ret2, es)"
    by (cases "fill_vectors E [0..<n] (fresh_entries n)")
  obtain ret3 got s2 where aq: "acquire_all (do_request_irq E) (map vector es) (s\<lparr>vectors_on := True\<rparr>) = (ret3, got, s2)"
    by (metis prod_cases3)
  have free: "err_pci_free_irq_vectors ret xs (s\<lparr>vectors_on := True\<rparr>) = Some (ret, xs, s)" for ret xs
    using off by (simp add: err_pci_free_irq_vectors_def pci_free_irq_vectors_def)
  note eq = attach_vectors_def [of E n s, unfolded Let_def, folded ret1_def, unfolded fv prod.case aq]
  note undone = irq_requests_undone [OF E off(1) fv _ aq]
  consider "ret1 < int n" | "\<not> ret1 < int n" "ret2 < 0" | "\<not> ret1 < int n" "\<not> ret2 < 0" "ret3 < 0"
    | "\<not> ret1 < int n" "\<not> ret2 < 0" "ret3 = 0"
    using undone(2) by force
  then show ?thesis
  proof cases
    case 4
    then show ?thesis unfolding eq
      using filled_table [OF fv _ E] irqs.acquire_all_state [OF aq] acquire_all_prefix [OF aq] off by auto
  qed (unfold eq, auto simp: free undone(1))
qed

lemma ISR_setup_result:
  assumes E: "irq_env_ok E" and wf: "wf_heap h" and off: "irqs_off a s" and gl: "globals a"
  shows "\<exists>ret a' h' s'. famez_ISR_setup E a w h s = Some (ret, a', h', s') \<and> wf_heap h' \<and>
    (if ret = 0 then irqs_on a' w h' s' \<and> (\<exists>tab es. a' = a\<lparr>IRQ_private := Some (tab, es)\<rparr> \<and>
         tab \<notin> k_live h \<and> k_live h' = insert tab (k_live h))
     else ret < 0 \<and> a' = a \<and> s' = s \<and> k_live h' = k_live h)"
proof (cases "pci_msix_vec_count E < 16 \<or> to_u64 (pci_msix_vec_count E) < nEvents (bar2_globals w)")
  case True
  then show ?thesis using gl wf by (auto simp: famez_ISR_setup_def)
next
  case run: False
  have a0: "a\<lparr>IRQ_private := None\<rparr> = a" using off by (simp add: irqs_off_def)
  obtain p h1 where z: "kzalloc h = (p, h1)" by (cases "kzalloc h")
  have wf1: "wf_heap h1" using kzalloc_wf [OF z wf] .
  obtain ret es s1 where at: "attach_vectors E (unat (nEvents (bar2_globals w))) s = Some (ret, es, s1)"
    and res: "if ret = 0 then length es = unat (nEvents (bar2_globals w)) \<and> map entry es = map of_nat [0..<length es] \<and>
      distinct (map vector es) \<and> attached s1 = set (map vector es) \<and> vectors_on s1 else ret < 0 \<and> s1 = s"
    using attach_vectors_result [OF E, of s] off unfolding irqs_off_def by meson
  show ?thesis
  proof (cases p)
    case None
    then show ?thesis using run gl z wf1 kzalloc_None [of h h1] a0
      by (simp add: famez_ISR_setup_def err_kfree_msix_entries_def)
  next
    case (Some tab)
    with z wf have t: "tab \<notin> k_live h" "k_live h1 = insert tab (k_live h)"
      using kzalloc_Some [of h tab h1] by simp_all
    have "wf_heap (h1\<lparr>k_live := k_live h\<rparr>)" using wf1 t(2) by (auto intro: wf_heap_shrink)
    then show ?thesis using run gl z Some at res t wf1 a0
      by (cases "ret = 0") (auto simp: famez_ISR_setup_def err_kfree_msix_entries_def irqs_on_def irq_table_ok_def)
  qed
qed

text \<open>When every call of the PCI core and the allocation succeed, so does the set-up.\<close>

lemma fill_vectors_succeeds: "\<forall>i \<in> set is. 0 \<le> pci_irq_vector E i \<Longrightarrow> fst (fill_vectors E is es) = 0"
  by (induction "is" arbitrary: es) (auto simp: Let_def)

lemma requests_succeed: "\<forall>v. request_irq E v = 0 \<Longrightarrow> fst (acquire_all (do_request_irq E) vs s) = 0"
proof (induction vs arbitrary: s)
  case (Cons v vs)
  then have "fst (acquire_all (do_request_irq E) vs (s\<lparr>attached := insert v (attached s)\<rparr>)) = 0" by simp
  moreover have "do_request_irq E v s = (0, s\<lparr>attached := insert v (attached s)\<rparr>)"
    using Cons.prems by (simp add: do_request_irq_def)
  ultimately show ?case by (auto split: prod.splits)
qed simp

lemma attach_vectors_succeeds:
  assumes "int n \<le> pci_alloc_irq_vectors E n" and "\<forall>i < n. 0 \<le> pci_irq_vector E i" and "\<forall>v. request_irq E v = 0"
  shows "\<exists>es s'. attach_vectors E n s = Some (0, es, s')"
proof -
  obtain es where f: "fill_vectors E [0..<n] (fresh_entries n) = (0, es)"
    using fill_vectors_succeeds [of "[0..<n]" E "fresh_entries n"] assms(2) by (cases "fill_vectors E [0..<n] (fresh_entries n)") auto
  obtain got s2 where "acquire_all (do_request_irq E) (map vector es) (s\<lparr>vectors_on := True\<rparr>) = (0, got, s2)"
    using requests_succeed [OF assms(3), of "map vector es" "s\<lparr>vectors_on := True\<rparr>"]
    by (cases "acquire_all (do_request_irq E) (map vector es) (s\<lparr>vectors_on := True\<rparr>)") auto
  with f assms(1) show ?thesis by (simp add: attach_vectors_def)
qed

lemma ISR_setup_succeeds:
  assumes "globals a" and "16 \<le> pci_msix_vec_count E" and "nEvents (bar2_globals w) \<le> to_u64 (pci_msix_vec_count E)"
    and "k_ok h (k_next h)" and "int n \<le> pci_alloc_irq_vectors E n" and n: "n = unat (nEvents (bar2_globals w))"
    and "\<forall>i < n. 0 \<le> pci_irq_vector E i" and "\<forall>v. request_irq E v = 0"
  shows "\<exists>a' h' s'. famez_ISR_setup E a w h s = Some (0, a', h', s')"
  using attach_vectors_succeeds [OF assms(5,7,8), of s] assms(1-4)
  by (auto simp: famez_ISR_setup_def kzalloc_def not_less n)

lemma ISR_teardown_result:
  assumes on: "irqs_on a w h s" and g: "geometry (bar2_globals w)" and gl: "globals a"
  shows "\<exists>tab es h'. IRQ_private a = Some (tab, es) \<and>
    famez_ISR_teardown a w h s = Some (a\<lparr>IRQ_private := None\<rparr>, h', \<lparr>attached = {}, vectors_on = False\<rparr>) \<and>
    k_live h' = k_live h - {tab} \<and> k_next h' = k_next h"
proof -
  obtain tab es where i: "IRQ_private a = Some (tab, es)" "attached s = set (map vector es)" "tab \<in> k_live h"
    "length es = unat (nEvents (bar2_globals w))" "distinct (map vector es)"
    using on by (auto simp: irqs_on_def irq_table_ok_def)
  have n: "unat (nClients (bar2_globals w) + 2) = length es" using g i(4) by (simp add: geometry_def)
  have "release_all free_irq (map vector es) s = Some (s\<lparr>attached := {}\<rparr>)"
    using irqs.release_all_state [OF i(5), of s] i(2) by simp
  then show ?thesis
    using i gl n by (simp add: famez_ISR_teardown_def pci_free_irq_vectors_def)
qed

section \<open>Properties\<close>

text \<open>A PCI core with sixteen vectors, numbered from 40, and the table it leads to.\<close>

definition demo_irq_env :: irq_env where
  "demo_irq_env = \<lparr>pci_msix_vec_count = 16, pci_alloc_irq_vectors = int,
     pci_irq_vector = (\<lambda>i. if i < 16 then 40 + int i else - 22), request_irq = (\<lambda>_. 0)\<rparr>"

definition demo_table :: "msix_entry list" where
  "demo_table = map (\<lambda>i. \<lparr>vector = 40 + of_nat i, entry = of_nat i\<rparr>) [0..<6]"

definition demo_bound :: famez_adapter where
  "demo_bound = demo_adapter\<lparr>IRQ_private := Some (9, demo_table)\<rparr>"

lemma demo_irq_env_ok [simp]: "irq_env_ok demo_irq_env"
proof -
  have "i = j" if "i < 16" "j < 16" "(word_of_int (40 + int i) :: u32) = word_of_int (40 + int j)" for i j
  proof -
    have "(of_nat (40 + i) :: u32) = of_nat (40 + j)" using that(3) by simp
    then have "unat (of_nat (40 + i) :: u32) = unat (of_nat (40 + j) :: u32)" by (rule arg_cong)
    then show "i = j" using that(1,2) unat_of_nat [of "40 + i", where ?'a = 32] unat_of_nat [of "40 + j", where ?'a = 32] by simp
  qed
  then show ?thesis by (auto simp: irq_env_ok_def demo_irq_env_def split: if_splits)
qed

lemma demo_bound_ok:
  "bar2_globals w = demo_globals \<Longrightarrow> irq_table_ok demo_bound w" "adapter_inv demo_bound w = adapter_inv demo_adapter w"
  "core_str_ok demo_bound" "\<not> incoming_slot_lock demo_bound" "IRQ_private demo_bound = Some (9, demo_table)"
proof -
  show "bar2_globals w = demo_globals \<Longrightarrow> irq_table_ok demo_bound w"
    by (simp add: irq_table_ok_def demo_bound_def demo_table_def demo_globals_def upt_rec)
  show "core_str_ok demo_bound" using demo_core_str(1) by (simp add: core_str_ok_def demo_bound_def)
qed (simp_all add: demo_bound_def adapter_inv_def, simp add: demo_adapter_def)

text \<open>
  C8. Whatever interrupt arrives and whatever the message is, the handler never leaves the
  lock taken: with every result the lock is free again and the adapter well-formed. And it
  has a result, with one exception. It returns if the adapter's own mailbox is empty, or if
  the message is for the readers, or if the interrupt is nobody's. Only a request that
  arrives while the own mailbox is still full makes the reply spin in interrupt context;
  that this ends is not claimed but for a clock that advances during \<open>mdelay\<close>, which
  another processor has to provide.
\<close>

theorem irq_handler_unlocks:
  assumes "adapter_inv a w" and "delay_keeps_layout K"
    and "\<not> incoming_slot_lock a" and "core_str_ok a" and "irq_table_ok a w"
  shows "(\<forall>r woken a' w'. all_msix K irq a w = Some (r, woken, a', w') \<longrightarrow>
      \<not> incoming_slot_lock a' \<and> adapter_inv a' w' \<and> core_str_ok a') \<and>
    (no_reply_waits K irq a w \<longrightarrow> all_msix K irq a w \<noteq> None)"
  using all_msix_unlocks [OF assms] by blast

theorem irq_handler_unlocks_witness:
  "\<exists>r woken a' w'. all_msix demo_kenv 42 demo_bound (demo_request 2 ''ping'') = Some (r, woken, a', w') \<and>
    \<not> incoming_slot_lock a' \<and> adapter_inv a' w' \<and> core_str_ok a'"
proof -
  let ?w = "demo_request 2 ''ping''"
  have "mail ?w (unat (my_id demo_bound)) = None"
    by (simp add: demo_bound_def demo_adapter_def mail_def slot_mail_def demo_request_def demo_slot_def demo_world_def)
  then have n: "no_reply_waits demo_kenv 42 demo_bound ?w" by (simp add: no_reply_waits_def)
  have "adapter_inv demo_bound ?w" "\<not> incoming_slot_lock demo_bound" "core_str_ok demo_bound" "irq_table_ok demo_bound ?w"
    by (simp_all add: demo_bound_ok)
  from irq_handler_unlocks [OF this(1) demo_kenv_ok(1) this(2-4), of 42] n show ?thesis by fastforce
qed

text \<open>
  C9. The interrupt of sender \<open>s\<close> with a message that is not for the link layer: the
  readers are woken and the incoming pointer is that sender's slot, which keeps its
  message and is stamped with the sender's SID and CID. A pointer that was already set is
  overwritten: the earlier message is not read and its slot is never given back.
\<close>

theorem irq_hands_message_to_readers:
  assumes "adapter_inv a w" and "\<not> incoming_slot_lock a" and "core_str_ok a"
    and "irq_table_ok a w" and "IRQ_private a = Some (tab, es)" and "word_of_int irq = vector (es ! s)"
    and "0 < s" and "s < unat (nEvents (bar2_globals w))"
    and "for_readers (bar2 w (slot_off (bar2_globals w) s))"
  shows "all_msix K irq a w = Some (IRQ_HANDLED, True,
     a\<lparr>incoming_slot := Some (slot_off (bar2_globals w) s)\<rparr>, tagged_world (slot_off (bar2_globals w) s) w)"
  by (rule all_msix_message [OF assms])

lemma demo_for_readers: "for_readers (demo_slot 2 ''hello'')"
proof -
  have tx: "cstr (buf (demo_slot 2 ''hello'')) = ''hello''" by (rule demo_text_cstr) simp_all
  have "sscanf CTL_WRITE_0_SID_CID ''hello'' = []" by (simp add: CTL_WRITE_0_SID_CID_def isspace_def)
  then show ?thesis
    unfolding for_readers_def is_ping_def is_peer_attribute_def is_ctl_write_def STREQ_N_def tx
    by (simp add: LINK_CTL_PEER_ATTRIBUTE_def strlen_def)
qed

theorem irq_hands_message_to_readers_witness:
  "all_msix demo_kenv 42 (demo_bound\<lparr>incoming_slot := Some 1536\<rparr>) (demo_request 2 ''hello'') = Some (IRQ_HANDLED, True,
     demo_bound\<lparr>incoming_slot := Some 1024\<rparr>, tagged_world 1024 (demo_request 2 ''hello''))"
proof -
  let ?a = "demo_bound\<lparr>incoming_slot := Some 1536\<rparr>" and ?w = "demo_request 2 ''hello''"
  have "adapter_inv ?a ?w" "\<not> incoming_slot_lock ?a" "core_str_ok ?a" "irq_table_ok ?a ?w" "IRQ_private ?a = Some (9, demo_table)"
    using demo_bound_ok(1,2) [of ?w] demo_bound_ok(3-5) by (simp_all add: core_str_ok_def irq_table_ok_def)
  from irq_hands_message_to_readers [OF this, of 42 2 demo_kenv] demo_for_readers
  show ?thesis by (simp add: demo_table_def upt_rec) (simp add: demo_globals_def)
qed

text \<open>
  Setting up the interrupts always returns. On success the table has one entry per
  event and the handler is attached to all of them; after any error (too few vectors, no
  memory, a vector without number, a refused interrupt) the code is negative and nothing
  is kept: no interrupt attached, no vector allocated, no memory.
\<close>

theorem isr_setup_all_or_nothing:
  assumes "irq_env_ok E" and "wf_heap h" and "irqs_off a s" and "globals a"
  shows "\<exists>ret a' h' s'. famez_ISR_setup E a w h s = Some (ret, a', h', s') \<and>
    (if ret = 0 then irqs_on a' w h' s' else ret < 0 \<and> a' = a \<and> s' = s \<and> k_live h' = k_live h)"
  using ISR_setup_result [OF assms, of w] by (auto split: if_splits)

lemma demo_irqs_off: "irqs_off demo_adapter \<lparr>attached = {}, vectors_on = False\<rparr>" "globals demo_adapter"
  by (simp_all add: irqs_off_def demo_adapter_def)

theorem isr_setup_all_or_nothing_witness:
  "\<exists>ret a' h' s'. famez_ISR_setup (demo_irq_env\<lparr>pci_alloc_irq_vectors := \<lambda>n. 5\<rparr>) demo_adapter demo_world (demo_heap 9)
      \<lparr>attached = {}, vectors_on = False\<rparr> = Some (ret, a', h', s') \<and>
    (if ret = 0 then irqs_on a' demo_world h' s'
     else ret < 0 \<and> a' = demo_adapter \<and> s' = \<lparr>attached = {}, vectors_on = False\<rparr> \<and> k_live h' = k_live (demo_heap 9))"
  by (rule isr_setup_all_or_nothing [OF _ _ demo_irqs_off])
    (use demo_irq_env_ok in \<open>simp_all add: irq_env_ok_def\<close>)

text \<open>
  Tearing down what a set-up left gives everything back: every interrupt is detached
  before the vectors are released, the table is freed and the adapter forgets it.
\<close>

theorem isr_setup_then_teardown:
  assumes "irq_env_ok E" and "wf_heap h" and "irqs_off a s" and "globals a" and "geometry (bar2_globals w)"
    and "famez_ISR_setup E a w h s = Some (0, a1, h1, s1)"
  shows "\<exists>h2. famez_ISR_teardown a1 w h1 s1 = Some (a, h2, s) \<and> k_live h2 = k_live h"
proof -
  obtain tab es where on: "irqs_on a1 w h1 s1" and a1: "a1 = a\<lparr>IRQ_private := Some (tab, es)\<rparr>"
    and h1: "tab \<notin> k_live h" "k_live h1 = insert tab (k_live h)"
    using ISR_setup_result [OF assms(1-4), of w] assms(6) by auto
  have "a1\<lparr>IRQ_private := None\<rparr> = a" "s = \<lparr>attached = {}, vectors_on = False\<rparr>" "globals a1"
    using assms(3,4) a1 by (simp_all add: irqs_off_def)
  with ISR_teardown_result [OF on assms(5)] a1 h1 show ?thesis by auto
qed

theorem isr_setup_then_teardown_witness:
  "\<exists>a1 h1 s1 h2. famez_ISR_setup demo_irq_env demo_adapter demo_world (demo_heap 9) \<lparr>attached = {}, vectors_on = False\<rparr> = Some (0, a1, h1, s1) \<and>
    famez_ISR_teardown a1 demo_world h1 s1 = Some (demo_adapter, h2, \<lparr>attached = {}, vectors_on = False\<rparr>) \<and> k_live h2 = {}"
proof -
  have "\<exists>a1 h1 s1. famez_ISR_setup demo_irq_env demo_adapter demo_world (demo_heap 9) \<lparr>attached = {}, vectors_on = False\<rparr> = Some (0, a1, h1, s1)"
    by (rule ISR_setup_succeeds [OF demo_irqs_off(2) _ _ _ _ refl])
      (simp_all add: demo_irq_env_def demo_heap_def to_u64_def demo_globals_def)
  then obtain a1 h1 s1 where r: "famez_ISR_setup demo_irq_env demo_adapter demo_world (demo_heap 9) \<lparr>attached = {}, vectors_on = False\<rparr> = Some (0, a1, h1, s1)"
    by blast
  show ?thesis
    using r isr_setup_then_teardown [OF demo_irq_env_ok demo_heap_wf(1) demo_irqs_off _ r] by auto
qed

end
