(* ===== verification/Famez_Adapter.thy ===== *)
theory Famez_Adapter
  imports Famez_MSIX
begin

text \<open>
  \<open>kernel/famez/famez_adapter.c\<close>: mapping the BARs, creating and destroying an adapter.
  A pointer to an adapter is the pair of its address and its contents. The PCI device is
  the record \<open>pci_dev\<close>; what the PCI core and \<open>utsname\<close> answer is \<open>pci_env\<close>.
  \<open>bad_releases\<close> counts the calls of \<open>pci_release_regions\<close> on regions the driver does not
  hold (the kernel warns, or frees the reservation of another driver). The functions take
  the adapter that \<open>pci_get_drvdata\<close> would find; without it they have no result.
\<close>

section \<open>Data\<close>

record pci_dev =
  drvdata :: "nat option"
  enabled :: bool
  regions :: bool
  bad_releases :: nat

record pci_env =
  pci_enable_device :: int
  revision :: nat
  msix_cap :: bool
  pci_resource_start_1 :: bool
  card_loc :: string
  devfn :: nat
  pci_request_regions :: int
  pci_iomap :: "nat \<Rightarrow> bool"
  uts_nodename :: string

type_synonym adapter_ptr = "nat \<times> famez_adapter"

text \<open>\<open>kzalloc(sizeof( *adapter))\<close>\<close>

definition zero_adapter :: famez_adapter where
  "zero_adapter = \<lparr>nr_users = 0, pdev = None, max_buflen = 0, my_id = 0, regs = False, globals = False,
     my_slot = None, IRQ_private = None, incoming_slot = None, incoming_slot_lock = False,
     outgoing = None, core = None\<rparr>"

text \<open>\<open>memset(adapter->my_slot, 0, slotsize)\<close>\<close>

definition zero_slot :: "famez_globals \<Rightarrow> famez_mailslot" where
  "zero_slot g = \<lparr>nodename = replicate 32 NUL, buflen = 0, peer_id = 0, last_responder = 0,
     peer_SID = 0, peer_CID = 0, buf = replicate (unat (slotsize g - offsetof_buf)) NUL\<rparr>"

section \<open>Operations\<close>

definition pci_release_regions :: "pci_dev \<Rightarrow> pci_dev" where
  "pci_release_regions d =
     (if regions d then d\<lparr>regions := False\<rparr> else d\<lparr>bad_releases := Suc (bad_releases d)\<rparr>)"

definition unmapBARs :: "famez_adapter \<Rightarrow> pci_dev \<Rightarrow> (famez_adapter \<times> pci_dev) option" where
  "unmapBARs a d = do {
     _ \<leftarrow> drvdata d;
     Some (a\<lparr>regs := False, globals := False\<rparr>, pci_release_regions d)
   }"

definition mapBARs :: "pci_env \<Rightarrow> famez_adapter \<Rightarrow> pci_dev \<Rightarrow> (int \<times> famez_adapter \<times> pci_dev) option" where
  "mapBARs E a d = do {
     _ \<leftarrow> drvdata d;
     if pci_request_regions E < 0 then Some (pci_request_regions E, a, d)
     else do {
       let d1 = d\<lparr>regions := True\<rparr>;
       let a1 = a\<lparr>regs := pci_iomap E 0\<rparr>;
       if \<not> regs a1 then do {
         (a2, d2) \<leftarrow> unmapBARs a1 d1;
         Some (- ENOMEM, a2, d2)
       }
       else do {
         let a3 = a1\<lparr>globals := pci_iomap E 2\<rparr>;
         if \<not> globals a3 then do {
           (a4, d4) \<leftarrow> unmapBARs a3 d1;
           Some (- ENOMEM, a4, d4)
         }
         else Some (0, a3, d1)
       }
     }
   }"

definition famez_adapter_destroy ::
  "adapter_ptr option \<Rightarrow> kheap \<Rightarrow> pci_dev \<Rightarrow> (kheap \<times> pci_dev) option" where
  "famez_adapter_destroy ap h d =
     (case ap of
        None \<Rightarrow> Some (h, d)
      | Some (addr, a) \<Rightarrow>
          if pdev a = None then Some (h, d)
          else do {
            (a1, d1) \<leftarrow> unmapBARs a d;
            let d2 = d1\<lparr>drvdata := None\<rparr>;
            h1 \<leftarrow> kfree (map_option fst (IRQ_private a1)) h;
            h2 \<leftarrow> kfree (map_option buffers_addr (outgoing a1)) h1;
            c \<leftarrow> core a1;
            h3 \<leftarrow> genz_core_structure_destroy c h2;
            h4 \<leftarrow> kfree (Some addr) h3;
            Some (h4, d2)
          })"

text \<open>The label \<open>err_kfree\<close>.\<close>

definition adapter_create_err ::
  "int \<Rightarrow> adapter_ptr \<Rightarrow> kheap \<Rightarrow> pci_dev \<Rightarrow> fz_world \<Rightarrow>
     ((int + adapter_ptr) \<times> kheap \<times> pci_dev \<times> fz_world) option" where
  "adapter_create_err ret ap h d w = do {
     (h1, d1) \<leftarrow> famez_adapter_destroy (Some ap) h d;
     Some (Inl ret, h1, d1, w)
   }"

text \<open>The checks on the globals and the own mailslot, after the BARs are mapped.\<close>

definition adapter_create_slot ::
  "pci_env \<Rightarrow> famez_adapter \<Rightarrow> fz_world \<Rightarrow> ((famez_adapter \<times> fz_world) option) option" where
  "adapter_create_slot E a w = do {
     g \<leftarrow> deref_globals a w;
     if offsetof_buf \<noteq> buf_offset g then Some None
     else if slotsize g \<le> buf_offset g then Some None
     else do {
       let a1 = a\<lparr>max_buflen := slotsize g - buf_offset g, my_id := ucast (IVPosition (bar0 w))\<rparr>;
       s \<leftarrow> calculate_mailslot a1 (ucast (my_id a1)) w;
       (case s of
          None \<Rightarrow> Some None
        | Some p \<Rightarrow> do {
            let m = zero_slot g;
            (nn, _) \<leftarrow> snprintf (nodename m) 31 (uts_nodename E @ CHR ''.'' # hex02 (devfn E div 8));
            Some (Some (a1\<lparr>my_slot := Some p\<rparr>, put_slot p (m\<lparr>nodename := nn\<rparr>) w))
          })
     }
   }"

definition famez_adapter_create ::
  "pci_env \<Rightarrow> nat \<Rightarrow> kheap \<Rightarrow> pci_dev \<Rightarrow> fz_world \<Rightarrow>
     ((int + adapter_ptr) \<times> kheap \<times> pci_dev \<times> fz_world) option" where
  "famez_adapter_create E pd h d w =
     (case kzalloc h of
        (None, h1) \<Rightarrow> Some (Inl (- ENOMEM), h1, d, w)
      | (Some addr, h1) \<Rightarrow> do {
          (c, h2) \<leftarrow> genz_core_structure_create GENZ_CORE_STRUCTURE_ALLOC_ALL h1;
          (case c of
             Inl _ \<Rightarrow> do {
               h3 \<leftarrow> kfree (Some addr) h2;
               Some (Inl (- ENOMEM), h3, d, w)
             }
           | Inr (ca, cs) \<Rightarrow> do {
               cls \<leftarrow> sprintf (Base_C_Class_str cs) ''FAME-Z Adapter'';
               let a = zero_adapter\<lparr>core := Some (ca, cs\<lparr>Base_C_Class_str := cls\<rparr>), pdev := Some pd\<rparr>;
               let d1 = d\<lparr>drvdata := Some addr\<rparr>;
               (ret, a1, d2) \<leftarrow> mapBARs E a d1;
               if ret \<noteq> 0 then adapter_create_err ret (addr, a1) h2 d2 w
               else do {
                 r \<leftarrow> adapter_create_slot E a1 w;
                 (case r of
                    None \<Rightarrow> adapter_create_err (- EINVAL) (addr, a1) h2 d2 w
                  | Some (a2, w2) \<Rightarrow> Some (Inr (addr, a2), h2, d2, w2))
               }
             })
        })"

section \<open>Creating\<close>

text \<open>The blocks of an adapter no driver is bound to: its own and those of its core.\<close>

definition adapter_owns :: "adapter_ptr \<Rightarrow> nat set" where
  "adapter_owns ap = insert (fst ap) (case core (snd ap) of None \<Rightarrow> {} | Some c \<Rightarrow> core_owns c)"

definition adapter_idle :: "adapter_ptr \<Rightarrow> bool" where
  "adapter_idle ap \<longleftrightarrow>
     pdev (snd ap) \<noteq> None \<and> IRQ_private (snd ap) = None \<and> outgoing (snd ap) = None \<and>
     (\<exists>c. core (snd ap) = Some c \<and> core_sep c \<and> fst ap \<notin> core_owns c)"

lemma destroy_idle:
  assumes "adapter_idle ap" and "adapter_owns ap \<subseteq> k_live h" and "drvdata d \<noteq> None"
  shows "famez_adapter_destroy (Some ap) h d =
    Some (h\<lparr>k_live := k_live h - adapter_owns ap\<rparr>, (pci_release_regions d)\<lparr>drvdata := None\<rparr>)"
proof -
  obtain c where c: "core (snd ap) = Some c" "core_sep c" "fst ap \<notin> core_owns c"
    using assms(1) by (auto simp: adapter_idle_def)
  have "core_owns c \<subseteq> k_live h" using assms(2) c by (simp add: adapter_owns_def)
  note frees = destroy_core_frees [OF this c(2)]
  obtain pd x where "pdev (snd ap) = Some pd" and "drvdata d = Some x"
    using assms(1,3) by (auto simp: adapter_idle_def)
  then show ?thesis
    using assms c by (auto simp: famez_adapter_destroy_def unmapBARs_def Let_def frees adapter_idle_def adapter_owns_def
        split: prod.splits intro!: arg_cong [where f = "\<lambda>L. h\<lparr>k_live := L\<rparr>"])
qed

text \<open>The adapter before the BARs are mapped.\<close>

definition adapter_seed :: "nat \<Rightarrow> core_ptr \<Rightarrow> famez_adapter" where
  "adapter_seed pd c = zero_adapter\<lparr>
     core := Some (fst c, (snd c)\<lparr>Base_C_Class_str := ''FAME-Z Adapter'' @ NUL # drop 15 (Base_C_Class_str (snd c))\<rparr>),
     pdev := Some pd\<rparr>"

lemma seed_owns:
  "adapter_owns (addr, adapter_seed pd c) = insert addr (core_owns c)"
  "core_sep c \<Longrightarrow> addr \<notin> core_owns c \<Longrightarrow> adapter_idle (addr, adapter_seed pd c)"
  by (auto simp: adapter_owns_def adapter_seed_def core_owns_def adapter_idle_def zero_adapter_def core_sep_def)

lemma adapter_mapped_owns [simp]:
  "adapter_owns (addr, a\<lparr>regs := x, globals := y\<rparr>) = adapter_owns (addr, a)"
  "adapter_idle (addr, a\<lparr>regs := x, globals := y\<rparr>) = adapter_idle (addr, a)"
  by (simp_all add: adapter_owns_def adapter_idle_def)

lemma mapBARs_result:
  assumes "drvdata d \<noteq> None" and "pci_request_regions E \<le> 0"
  shows "\<exists>ret x y d'. mapBARs E a d = Some (ret, if pci_request_regions E < 0 then a else a\<lparr>regs := x, globals := y\<rparr>, d') \<and>
    drvdata d' = drvdata d \<and> enabled d' = enabled d \<and>
    (if ret = 0 then x \<and> y \<and> \<not> pci_request_regions E < 0 \<and> d' = d\<lparr>regions := True\<rparr> else ret < 0 \<and> (\<not> regions d \<longrightarrow> \<not> regions d'))"
proof -
  obtain q where q: "drvdata d = Some q" using assms(1) by blast
  consider "pci_request_regions E < 0" | "\<not> pci_request_regions E < 0" "\<not> pci_iomap E 0"
    | "\<not> pci_request_regions E < 0" "pci_iomap E 0" "\<not> pci_iomap E 2"
    | "\<not> pci_request_regions E < 0" "pci_iomap E 0" "pci_iomap E 2" by blast
  then show ?thesis
    by cases (use q in \<open>force simp: mapBARs_def unmapBARs_def Let_def pci_release_regions_def\<close>)+
qed

lemma create_slot_returns:
  assumes "globals a"
  shows "\<exists>r. adapter_create_slot E a w = Some r"
proof -
  have sn: "\<exists>r. snprintf (replicate 32 NUL) 31 t = Some r" for t
    by (simp add: snprintf_def Let_def memcpy_def)
  define y :: u16 where "y = ucast (IVPosition (bar0 w))"
  define x where "x = slotsize (bar2_globals w) - offsetof_buf"
  have "calculate_mailslot (a\<lparr>max_buflen := x, my_id := y\<rparr>) (ucast y) w \<noteq> None"
    using assms by (simp add: calculate_mailslot_def)
  then obtain s where "calculate_mailslot (a\<lparr>max_buflen := x, my_id := y\<rparr>) (ucast y) w = Some s" by blast
  moreover obtain t where "snprintf (replicate 32 NUL) 31 (uts_nodename E @ CHR ''.'' # hex02 (devfn E div 8)) = Some t"
    using sn by blast
  ultimately show ?thesis using assms unfolding adapter_create_slot_def Let_def
    by (cases s; cases t) (simp_all add: x_def y_def zero_slot_def)
qed

lemma create_slot_keeps:
  "adapter_create_slot E a w = Some (Some (a', w')) \<Longrightarrow>
    adapter_owns (addr, a') = adapter_owns (addr, a) \<and> adapter_idle (addr, a') = adapter_idle (addr, a)"
  by (auto simp: adapter_create_slot_def Let_def adapter_owns_def adapter_idle_def
      split: bind_splits if_splits option.splits)

lemma fresh_core_class:
  assumes "snd c\<lparr>comp_dest_table := None\<rparr> = zero_core"
  shows "length (Base_C_Class_str (snd c)) = 32"
proof -
  have "Base_C_Class_str (snd c) = Base_C_Class_str (snd c\<lparr>comp_dest_table := None\<rparr>)" by simp
  then show ?thesis unfolding assms by (simp add: zero_core_def)
qed

text \<open>What a run of the constructor leaves behind: everything on success, nothing on failure.\<close>

definition adapter_created ::
  "pci_env \<Rightarrow> nat \<Rightarrow> kheap \<Rightarrow> pci_dev \<Rightarrow> fz_world \<Rightarrow> int + adapter_ptr \<Rightarrow> kheap \<Rightarrow> pci_dev \<Rightarrow> fz_world \<Rightarrow> bool" where
  "adapter_created E pd h d w r h' d' w' \<longleftrightarrow> wf_heap h' \<and> enabled d' = enabled d \<and>
     (case r of
        Inl e \<Rightarrow> e < 0 \<and> k_live h' = k_live h \<and> drvdata d' = None \<and> \<not> regions d' \<and> w' = w
      | Inr ap \<Rightarrow> adapter_idle ap \<and> adapter_owns ap \<inter> k_live h = {} \<and> k_live h' = k_live h \<union> adapter_owns ap \<and>
          d' = d\<lparr>drvdata := Some (fst ap), regions := True\<rparr> \<and>
          (\<exists>c. snd c\<lparr>comp_dest_table := None\<rparr> = zero_core \<and>
             adapter_create_slot E ((adapter_seed pd c)\<lparr>regs := True, globals := True\<rparr>) w = Some (Some (snd ap, w'))))"

lemma create_err_created:
  assumes "adapter_idle ap" and "adapter_owns ap \<inter> k_live h = {}" and "k_live h2 = k_live h \<union> adapter_owns ap"
    and "wf_heap h2" and "drvdata d2 \<noteq> None" and "enabled d2 = enabled d" and "e < 0"
  shows "\<exists>h' d'. adapter_create_err e ap h2 d2 w = Some (Inl e, h', d', w) \<and>
    adapter_created E pd h d w (Inl e) h' d' w"
proof -
  have "k_live h2 - adapter_owns ap = k_live h" using assms(2,3) by blast
  moreover have "adapter_owns ap \<subseteq> k_live h2" using assms(3) by blast
  moreover have "wf_heap (h2\<lparr>k_live := k_live h\<rparr>)" using assms(3,4) by (auto intro: wf_heap_shrink)
  ultimately show ?thesis using assms
    by (simp add: adapter_create_err_def destroy_idle adapter_created_def pci_release_regions_def)
qed

text \<open>The constructor after both allocations.\<close>

definition adapter_create_rest ::
  "pci_env \<Rightarrow> nat \<Rightarrow> nat \<Rightarrow> core_ptr \<Rightarrow> kheap \<Rightarrow> pci_dev \<Rightarrow> fz_world \<Rightarrow>
     ((int + adapter_ptr) \<times> kheap \<times> pci_dev \<times> fz_world) option" where
  "adapter_create_rest E addr pd c h2 d w = do {
     (ret, a1, d2) \<leftarrow> mapBARs E (adapter_seed pd c) (d\<lparr>drvdata := Some addr\<rparr>);
     if ret \<noteq> 0 then adapter_create_err ret (addr, a1) h2 d2 w
     else do {
       r \<leftarrow> adapter_create_slot E a1 w;
       (case r of
          None \<Rightarrow> adapter_create_err (- EINVAL) (addr, a1) h2 d2 w
        | Some (a2, w2) \<Rightarrow> Some (Inr (addr, a2), h2, d2, w2))
     }
   }"

lemma create_rest_created:
  assumes seed: "adapter_idle (addr, adapter_seed pd c)" "adapter_owns (addr, adapter_seed pd c) \<inter> k_live h = {}"
    "k_live h2 = k_live h \<union> adapter_owns (addr, adapter_seed pd c)"
    and wf: "wf_heap h2" and c: "snd c\<lparr>comp_dest_table := None\<rparr> = zero_core"
    and d: "drvdata d = None" "\<not> regions d" and rr: "pci_request_regions E \<le> 0"
  shows "\<exists>r h' d' w'. adapter_create_rest E addr pd c h2 d w = Some (r, h', d', w') \<and>
    adapter_created E pd h d w r h' d' w'"
proof -
  let ?d = "d\<lparr>drvdata := Some addr\<rparr>"
  obtain ret x y d' where m: "mapBARs E (adapter_seed pd c) ?d = Some (ret,
      if pci_request_regions E < 0 then adapter_seed pd c else (adapter_seed pd c)\<lparr>regs := x, globals := y\<rparr>, d')"
    and rest: "drvdata d' = drvdata ?d \<and> enabled d' = enabled ?d \<and>
      (if ret = 0 then x \<and> y \<and> \<not> pci_request_regions E < 0 \<and> d' = ?d\<lparr>regions := True\<rparr>
       else ret < 0 \<and> (\<not> regions ?d \<longrightarrow> \<not> regions d'))"
    using mapBARs_result [of ?d E "adapter_seed pd c", OF _ rr] by auto
  have d': "drvdata d' \<noteq> None" "enabled d' = enabled d" using rest by simp_all
  let ?a = "if pci_request_regions E < 0 then adapter_seed pd c else (adapter_seed pd c)\<lparr>regs := x, globals := y\<rparr>"
  have own: "adapter_idle (addr, ?a)" "adapter_owns (addr, ?a) \<inter> k_live h = {}"
    "k_live h2 = k_live h \<union> adapter_owns (addr, ?a)" using seed by simp_all
  note err = create_err_created [OF own wf d', of _ w E pd]
  show ?thesis
  proof (cases "ret = 0")
    case False
    then show ?thesis using err [of ret] rest unfolding adapter_create_rest_def m by auto
  next
    case True
    then have a: "?a = (adapter_seed pd c)\<lparr>regs := True, globals := True\<rparr>" and d2: "d' = ?d\<lparr>regions := True\<rparr>"
      using rest by simp_all
    obtain r where r: "adapter_create_slot E ?a w = Some r"
      using create_slot_returns [of ?a E w] a by auto
    show ?thesis
    proof (cases r)
      case None
      then show ?thesis using err [of "- EINVAL"] True r unfolding adapter_create_rest_def m by auto
    next
      case (Some q)
      obtain a2 w2 where q: "q = (a2, w2)" by (cases q)
      note k = create_slot_keeps [of E ?a w a2 w2 addr]
      then have "adapter_created E pd h d w (Inr (addr, a2)) h2 d' w2"
        unfolding adapter_created_def sum.case
        using Some q r own wf c d2 by (auto simp: a intro!: exI [of _ "fst c"] exI [of _ "snd c"])
      then show ?thesis using True r Some q unfolding adapter_create_rest_def m by auto
    qed
  qed
qed

lemma adapter_create_result:
  assumes wf: "wf_heap h" and d: "drvdata d = None" "\<not> regions d" and rr: "pci_request_regions E \<le> 0"
  shows "\<exists>r h' d' w'. famez_adapter_create E pd h d w = Some (r, h', d', w') \<and> adapter_created E pd h d w r h' d' w'"
proof (cases "kzalloc h")
  case (Pair p h1)
  have wf1: "wf_heap h1" using Pair wf by (rule kzalloc_wf)
  show ?thesis
  proof (cases p)
    case None
    then show ?thesis using Pair wf1 kzalloc_None [of h h1] d
      by (simp add: famez_adapter_create_def adapter_created_def)
  next
    case (Some addr)
    with Pair wf have h1: "addr \<notin> k_live h" "k_live h1 = insert addr (k_live h)"
      using kzalloc_Some [of h addr h1] by simp_all
    obtain cr h2 where cr: "genz_core_structure_create GENZ_CORE_STRUCTURE_ALLOC_ALL h1 = Some (cr, h2)"
      using genz_core.create_returns [OF wf1, where alloc = GENZ_CORE_STRUCTURE_ALLOC_ALL] by auto
    note cc = create_core_cases [OF wf1 cr]
    show ?thesis
    proof (cases cr)
      case (Inl e)
      have "wf_heap (h2\<lparr>k_live := k_live h\<rparr>)" and "k_live h2 - {addr} = k_live h" and "addr \<in> k_live h2"
        using cc Inl h1 by (auto intro: wf_heap_shrink)
      then show ?thesis using Inl Pair Some cr d
        by (simp add: famez_adapter_create_def adapter_created_def)
    next
      case (Inr c)
      have c: "core_owns c \<inter> k_live h1 = {}" "k_live h2 = k_live h1 \<union> core_owns c" "core_sep c" "wf_heap h2"
        "snd c\<lparr>comp_dest_table := None\<rparr> = zero_core" using cc Inr by simp_all
      have seed: "adapter_idle (addr, adapter_seed pd c)" "adapter_owns (addr, adapter_seed pd c) \<inter> k_live h = {}"
        "k_live h2 = k_live h \<union> adapter_owns (addr, adapter_seed pd c)"
        using c h1 by (auto simp: seed_owns)
      have "famez_adapter_create E pd h d w = adapter_create_rest E addr pd c h2 d w"
        using Pair Some cr Inr fresh_core_class [OF c(5)] unfolding famez_adapter_create_def
        by (cases c) (simp add: adapter_create_rest_def adapter_seed_def sprintf_def numeral_eq_Suc)
      then show ?thesis using create_rest_created [OF seed c(4,5) d rr] by simp
    qed
  qed
qed

section \<open>The adapter that was created\<close>

text \<open>What the server has to have set up: the geometry, message buffers, an id for this guest.\<close>

definition mailbox_ready :: "fz_world \<Rightarrow> bool" where
  "mailbox_ready w \<longleftrightarrow> geometry (bar2_globals w) \<and>
     (\<forall>p. length (buf (bar2 w p)) = unat (slotsize (bar2_globals w) - offsetof_buf)) \<and>
     0 < unat (IVPosition (bar0 w)) \<and> unat (IVPosition (bar0 w)) \<le> unat (nClients (bar2_globals w))"

lemma create_slot_ready:
  assumes w: "mailbox_ready w" and gl: "globals a" "regs a"
    and s: "adapter_create_slot E a w = Some (Some (a', w'))"
  shows "adapter_inv a' w'" and "my_slot a' = Some (slot_off (bar2_globals w) (unat (IVPosition (bar0 w))))"
    and "unat (my_id a') = unat (IVPosition (bar0 w))"
    and "\<exists>nn. w' = put_slot (slot_off (bar2_globals w) (unat (IVPosition (bar0 w))))
      ((zero_slot (bar2_globals w))\<lparr>nodename := nn\<rparr>) w"
    and "\<exists>x y z. a' = a\<lparr>max_buflen := x, my_id := y, my_slot := z\<rparr>"
proof -
  let ?g = "bar2_globals w" and ?n = "unat (IVPosition (bar0 w))"
  have g: "geometry ?g" "globals (a\<lparr>max_buflen := x, my_id := y\<rparr>)" for x y using w gl by (simp_all add: mailbox_ready_def)
  have n: "0 < ?n" "?n < unat (nEvents ?g)" "?n < 2 ^ 16"
    using w geometry_unat(2) [OF g(1)] by (auto simp: mailbox_ready_def geometry_def)
  define y :: u16 where "y = ucast (IVPosition (bar0 w))"
  have u: "unat y = ?n" using n(3) by (simp add: y_def unsigned_ucast_eq take_bit_nat_eq_self)
  then have y: "y = of_nat ?n" using of_nat_unat [of y, where ?'a = "16 word"] by simp
  have m: "calculate_mailslot (a\<lparr>max_buflen := x, my_id := y\<rparr>) (ucast y) w = Some (Some (slot_off ?g ?n))" for x
    using calculate_mailslot_entry [OF g(1) g(2) n(1,2)] unfolding y [symmetric] .
  from s gl have *: "buf_offset ?g = offsetof_buf"
    "\<exists>nn. a' = a\<lparr>max_buflen := slotsize ?g - buf_offset ?g, my_id := y, my_slot := Some (slot_off ?g ?n)\<rparr> \<and>
      w' = put_slot (slot_off ?g ?n) ((zero_slot ?g)\<lparr>nodename := nn\<rparr>) w"
    by (auto simp: adapter_create_slot_def Let_def m y_def [symmetric] split: if_splits bind_splits)
  then show "my_slot a' = Some (slot_off ?g ?n)" and "unat (my_id a') = ?n"
    and "\<exists>nn. w' = put_slot (slot_off ?g ?n) ((zero_slot ?g)\<lparr>nodename := nn\<rparr>) w"
    and "\<exists>x y z. a' = a\<lparr>max_buflen := x, my_id := y, my_slot := z\<rparr>"
    using u by auto
  show "adapter_inv a' w'"
    using * w gl u by (auto simp: adapter_inv_def mailbox_ready_def zero_slot_def)
qed

definition adapter_ready :: "famez_adapter \<Rightarrow> fz_world \<Rightarrow> bool" where
  "adapter_ready a w \<longleftrightarrow> adapter_inv a w \<and> \<not> incoming_slot_lock a \<and> incoming_slot a = None \<and> core_str_ok a \<and>
     nr_users a = 0 \<and> outgoing a = None \<and> IRQ_private a = None"

lemma strlen_adapter_class: "strlen (''FAME-Z Adapter'' @ NUL # r) = 14"
  using cstr_append_nul [of "''FAME-Z Adapter''" r] by (simp add: strlen_def)

lemma create_makes_ready:
  assumes w: "mailbox_ready w" and c: "adapter_created E pd h d w (Inr ap) h' d' w'"
  shows "adapter_ready (snd ap) w' \<and> pdev (snd ap) = Some pd \<and> unat (my_id (snd ap)) = unat (IVPosition (bar0 w)) \<and>
    mail w' (unat (my_id (snd ap))) = None \<and>
    (\<forall>q. q \<noteq> slot_off (bar2_globals w) (unat (my_id (snd ap))) \<longrightarrow> bar2 w' q = bar2 w q) \<and>
    peer_id (bar2 w' (slot_off (bar2_globals w) (unat (my_id (snd ap))))) = 0 \<and>
    bar2_globals w' = bar2_globals w \<and> bells w' = bells w \<and> jiffies w' = jiffies w"
proof -
  let ?p = "slot_off (bar2_globals w) (unat (my_id (snd ap)))"
  from c obtain cp where
    s: "adapter_create_slot E ((adapter_seed pd cp)\<lparr>regs := True, globals := True\<rparr>) w = Some (Some (snd ap, w'))"
    by (auto simp: adapter_created_def)
  have gl: "globals ((adapter_seed pd cp)\<lparr>regs := True, globals := True\<rparr>)"
    "regs ((adapter_seed pd cp)\<lparr>regs := True, globals := True\<rparr>)" by simp_all
  note r = create_slot_ready [OF w gl s]
  obtain nn where w': "w' = put_slot ?p ((zero_slot (bar2_globals w))\<lparr>nodename := nn\<rparr>) w" using r(3,4) by auto
  obtain x y z where a: "snd ap = (adapter_seed pd cp)\<lparr>regs := True, globals := True, max_buflen := x, my_id := y, my_slot := z\<rparr>"
    using r(5) by auto
  have "core_str_ok (snd ap)"
    unfolding a core_str_ok_def adapter_seed_def using strlen_adapter_class by simp
  moreover have "\<not> incoming_slot_lock (snd ap) \<and> incoming_slot (snd ap) = None \<and> nr_users (snd ap) = 0 \<and>
      outgoing (snd ap) = None \<and> IRQ_private (snd ap) = None"
    unfolding a by (simp add: adapter_seed_def zero_adapter_def)
  ultimately have "adapter_ready (snd ap) w'" and "pdev (snd ap) = Some pd"
    using r(1) by (simp_all add: adapter_ready_def) (simp add: a adapter_seed_def)
  then show ?thesis
    using r(3) by (simp add: w' mail_def slot_mail_def zero_slot_def bells_def)
qed

text \<open>
  The lifecycle of an adapter, for a device no driver has taken. As documented,
  \<open>pci_request_regions\<close> answers 0 or a negative error.
\<close>

definition untaken :: pci_dev where
  "untaken = \<lparr>drvdata = None, enabled = True, regions = False, bad_releases = 0\<rparr>"

definition create_in_heap ::
  "pci_env \<Rightarrow> nat \<Rightarrow> nat \<Rightarrow> fz_world \<Rightarrow> kheap \<Rightarrow> ((int + adapter_ptr) \<times> kheap) option" where
  "create_in_heap E e pd w h = map_option (\<lambda>(r, h', _). (r, h'))
     (famez_adapter_create (E\<lparr>pci_request_regions := - int e\<rparr>) pd h untaken w)"

definition destroy_in_heap :: "adapter_ptr \<Rightarrow> kheap \<Rightarrow> kheap option" where
  "destroy_in_heap ap h = map_option fst
     (famez_adapter_destroy (Some ap) h (untaken\<lparr>drvdata := Some (fst ap), regions := True\<rparr>))"

interpretation adapter_heap: kobject_lifecycle "create_in_heap E e pd w" destroy_in_heap adapter_owns adapter_idle
proof -
  let ?E = "E\<lparr>pci_request_regions := - int e\<rparr>"
  have cr: "\<exists>r h' d' w'. famez_adapter_create ?E pd h untaken w = Some (r, h', d', w') \<and>
      adapter_created ?E pd h untaken w r h' d' w'" if "wf_heap h" for h
    using adapter_create_result [OF that, of untaken ?E pd w] by (simp add: untaken_def)
  show "kobject_lifecycle (create_in_heap E e pd w) destroy_in_heap adapter_owns adapter_idle"
  proof (unfold_locales, goal_cases)
    case (1 h)
    from cr [OF this] show ?case by (auto simp: create_in_heap_def)
  next
    case (2 h r h')
    from cr [OF 2(1)] 2(2) show ?case by (auto simp: create_in_heap_def adapter_created_def)
  next
    case (3 h e h')
    from cr [OF 3(1)] 3(2) show ?case by (auto simp: create_in_heap_def adapter_created_def)
  next
    case (4 h r h')
    from cr [OF 4(1)] 4(2) show ?case by (auto simp: create_in_heap_def adapter_created_def)
  next
    case (5 r h)
    then show ?case by (simp add: destroy_in_heap_def destroy_idle)
  qed
qed

section \<open>Properties\<close>

definition demo_pci :: pci_env where
  "demo_pci = \<lparr>pci_enable_device = 0, revision = 1, msix_cap = True, pci_resource_start_1 = True,
     card_loc = ''0000:00:05.0'', devfn = 40, pci_request_regions = 0, pci_iomap = (\<lambda>_. True), uts_nodename = ''node01''\<rparr>"

lemma demo_mailbox_ready [simp]: "mailbox_ready demo_world"
  by (simp add: mailbox_ready_def) (simp add: demo_world_def demo_slot_def demo_globals_def offsetof_buf_def)

text \<open>
  C17. On a mailbox the server has prepared, a new adapter is well-formed: its id is the
  position the device reports, its slot and buffer size follow from the globals, the slot
  is empty, the lock is free, nothing is pending and the class string fits its field. The
  slots of all others are untouched. The own slot's \<open>peer_id\<close>, which the server had set,
  is wiped with the rest of the slot.
\<close>

theorem create_establishes_invariant:
  assumes "mailbox_ready w" and "wf_heap h" and "drvdata d = None" and "\<not> regions d" and "pci_request_regions E \<le> 0"
    and "famez_adapter_create E pd h d w = Some (Inr (addr, a), h', d', w')"
  shows "adapter_ready a w' \<and> pdev a = Some pd \<and> unat (my_id a) = unat (IVPosition (bar0 w)) \<and>
    mail w' (unat (my_id a)) = None \<and> bar2_globals w' = bar2_globals w \<and>
    (\<forall>q. q \<noteq> slot_off (bar2_globals w) (unat (my_id a)) \<longrightarrow> bar2 w' q = bar2 w q) \<and>
    peer_id (bar2 w' (slot_off (bar2_globals w) (unat (my_id a)))) = 0"
proof -
  have "adapter_created E pd h d w (Inr (addr, a)) h' d' w'"
    using adapter_create_result [OF assms(2-5), of pd w] assms(6) by auto
  from create_makes_ready [OF assms(1) this] show ?thesis unfolding snd_conv by blast
qed

lemma demo_create: "\<exists>addr a h' d' w'. famez_adapter_create demo_pci 0 (demo_heap 9) (untaken\<lparr>enabled := e\<rparr>) demo_world
    = Some (Inr (addr, a), h', d', w') \<and> k_ok h' (k_next h')"
  by (simp add: famez_adapter_create_def genz_core_structure_create_def kzalloc_def demo_heap_def
      GENZ_CORE_STRUCTURE_ALLOC_ALL_def GENZ_CORE_STRUCTURE_ALLOC_COMP_DEST_TABLE_def sprintf_def zero_core_def mapBARs_def
      untaken_def demo_pci_def adapter_create_slot_def offsetof_buf_def calculate_mailslot_def zero_slot_def snprintf_def Let_def)
    (simp add: demo_world_def demo_globals_def memcpy_def)

theorem create_establishes_invariant_witness:
  "\<exists>addr a h' d' w'. famez_adapter_create demo_pci 0 (demo_heap 9) untaken demo_world = Some (Inr (addr, a), h', d', w') \<and>
    adapter_ready a w' \<and> unat (my_id a) = 1 \<and> peer_id (bar2 w' 512) = 0"
proof -
  obtain addr a h' d' w' where c: "famez_adapter_create demo_pci 0 (demo_heap 9) untaken demo_world = Some (Inr (addr, a), h', d', w')"
    using demo_create [of True] by (auto simp: untaken_def)
  have one: "unat (IVPosition (bar0 demo_world)) = 1" by (simp add: demo_world_def)
  have "drvdata untaken = None" "\<not> regions untaken" "pci_request_regions demo_pci \<le> 0"
    by (simp_all add: untaken_def demo_pci_def)
  note f = create_establishes_invariant [OF demo_mailbox_ready demo_heap_wf(1) this c, unfolded one]
  then have my: "unat (my_id a) = 1" by blast
  have "adapter_ready a w'" and "peer_id (bar2 w' (slot_off (bar2_globals demo_world) 1)) = 0"
    using f unfolding my by blast+
  with c my show ?thesis by auto
qed

text \<open>
  C18. The constructor of an adapter returns whatever fails on the way. After a failure
  no memory is kept, the device has no driver data and its regions are free; destroying
  what a success created ends in the same state.
\<close>

theorem adapter_lifecycle:
  assumes "wf_heap h" and "drvdata d = None" and "\<not> regions d" and "pci_request_regions E \<le> 0"
  shows "\<exists>r h1 d1 w1. famez_adapter_create E pd h d w = Some (r, h1, d1, w1) \<and>
    (case r of
       Inl e \<Rightarrow> e < 0 \<and> k_live h1 = k_live h \<and> drvdata d1 = None \<and> \<not> regions d1 \<and> w1 = w
     | Inr ap \<Rightarrow> \<exists>h2 d2. famez_adapter_destroy (Some ap) h1 d1 = Some (h2, d2) \<and> k_live h2 = k_live h \<and>
         drvdata d2 = None \<and> \<not> regions d2 \<and> bad_releases d2 = bad_releases d)"
proof -
  obtain r h1 d1 w1 where c: "famez_adapter_create E pd h d w = Some (r, h1, d1, w1)" "adapter_created E pd h d w r h1 d1 w1"
    using adapter_create_result [OF assms] by blast
  show ?thesis
  proof (cases r)
    case (Inl e)
    then show ?thesis using c by (simp add: adapter_created_def)
  next
    case (Inr ap)
    have a: "adapter_idle ap" "adapter_owns ap \<inter> k_live h = {}" "k_live h1 = k_live h \<union> adapter_owns ap"
      "d1 = d\<lparr>drvdata := Some (fst ap), regions := True\<rparr>" using c(2) Inr by (simp_all add: adapter_created_def)
    have "adapter_owns ap \<subseteq> k_live h1" "k_live h1 - adapter_owns ap = k_live h" using a(2,3) by blast+
    then show ?thesis using c(1) Inr destroy_idle [OF a(1), of h1 d1] a(4) by (simp add: pci_release_regions_def)
  qed
qed

theorem adapter_lifecycle_witness:
  "\<exists>r h1 d1 w1. famez_adapter_create (demo_pci\<lparr>pci_iomap := \<lambda>b. b = 0\<rparr>) 0 (demo_heap 9) untaken demo_world = Some (r, h1, d1, w1) \<and>
    (case r of
       Inl e \<Rightarrow> e < 0 \<and> k_live h1 = k_live (demo_heap 9) \<and> drvdata d1 = None \<and> \<not> regions d1 \<and> w1 = demo_world
     | Inr ap \<Rightarrow> \<exists>h2 d2. famez_adapter_destroy (Some ap) h1 d1 = Some (h2, d2) \<and> k_live h2 = k_live (demo_heap 9) \<and>
         drvdata d2 = None \<and> \<not> regions d2 \<and> bad_releases d2 = bad_releases untaken)"
  by (rule adapter_lifecycle) (simp_all add: untaken_def demo_pci_def)

end
