(* ===== verification/Famez_Pci.thy ===== *)
theory Famez_Pci
  imports Famez_Adapter
begin

text \<open>
  \<open>kernel/famez/famez_pci.c\<close>: probing and removing a device, and the list of active
  adapters. \<open>famez_sys\<close> is the state of the driver in one guest: the heap, the adapters by
  address (an access through the address of a freed adapter has no result), the list, the
  count of the semaphore that guards it, and for each PCI device its own state, its
  interrupts and the memory behind its BARs. \<open>probe_env\<close> is what the rest of the kernel
  answers; \<open>down_ret\<close> is the result of \<open>down_interruptible\<close>, which the code ignores: after
  an interrupted one the semaphore was not taken but is released all the same.
\<close>

section \<open>Data\<close>

record famez_sys =
  sys_heap :: kheap
  adapter_at :: "nat \<Rightarrow> famez_adapter"
  famez_adapter_list :: "nat list"
  famez_adapter_sema :: nat
  pci_devs :: "nat \<Rightarrow> pci_dev"
  irq_states :: "nat \<Rightarrow> irq_state"
  worlds :: "nat \<Rightarrow> fz_world"

record probe_env =
  pci_of :: "nat \<Rightarrow> pci_env"
  irq_of :: "nat \<Rightarrow> irq_env"
  kern :: kenv
  down_ret :: int

definition adapter_ref :: "nat \<Rightarrow> famez_sys \<Rightarrow> famez_adapter option" where
  "adapter_ref addr y = (if addr \<in> k_live (sys_heap y) then Some (adapter_at y addr) else None)"

definition put_adapter :: "nat \<Rightarrow> famez_adapter \<Rightarrow> famez_sys \<Rightarrow> famez_sys" where
  "put_adapter addr a y = y\<lparr>adapter_at := (adapter_at y)(addr := a)\<rparr>"

definition put_dev :: "nat \<Rightarrow> pci_dev \<Rightarrow> famez_sys \<Rightarrow> famez_sys" where
  "put_dev pd d y = y\<lparr>pci_devs := (pci_devs y)(pd := d)\<rparr>"

definition put_irqs :: "nat \<Rightarrow> irq_state \<Rightarrow> famez_sys \<Rightarrow> famez_sys" where
  "put_irqs pd s y = y\<lparr>irq_states := (irq_states y)(pd := s)\<rparr>"

definition put_world :: "nat \<Rightarrow> fz_world \<Rightarrow> famez_sys \<Rightarrow> famez_sys" where
  "put_world pd w y = y\<lparr>worlds := (worlds y)(pd := w)\<rparr>"

text \<open>\<open>CARDLOC\<close>: the name of BAR 1.\<close>

definition CARDLOC :: "probe_env \<Rightarrow> nat \<Rightarrow> string" where
  "CARDLOC E pd = card_loc (pci_of E pd)"

definition get_peer_attributes :: string where
  "get_peer_attributes = ''Link CTL Peer-Attribute''"

section \<open>The semaphore and the list\<close>

definition sema_down :: "probe_env \<Rightarrow> famez_sys \<Rightarrow> famez_sys option" where
  "sema_down E y =
     (if down_ret E \<noteq> 0 then Some y
      else if famez_adapter_sema y = 0 then None
      else Some (y\<lparr>famez_adapter_sema := famez_adapter_sema y - 1\<rparr>))"

definition sema_up :: "famez_sys \<Rightarrow> famez_sys" where
  "sema_up y = y\<lparr>famez_adapter_sema := Suc (famez_adapter_sema y)\<rparr>"

text \<open>Is a device of this name in the list? The walk follows \<open>cur->pdev\<close>.\<close>

fun list_has_loc :: "probe_env \<Rightarrow> string \<Rightarrow> nat list \<Rightarrow> famez_sys \<Rightarrow> bool option" where
  "list_has_loc E loc [] y = Some False"
| "list_has_loc E loc (c # cs) y = do {
     cur \<leftarrow> adapter_ref c y;
     pd \<leftarrow> pdev cur;
     if CARDLOC E pd = loc then Some True else list_has_loc E loc cs y
   }"

text \<open>The list without the devices of this name.\<close>

fun list_del_loc :: "probe_env \<Rightarrow> string \<Rightarrow> nat list \<Rightarrow> famez_sys \<Rightarrow> nat list option" where
  "list_del_loc E loc [] y = Some []"
| "list_del_loc E loc (c # cs) y = do {
     cur \<leftarrow> adapter_ref c y;
     pd \<leftarrow> pdev cur;
     rest \<leftarrow> list_del_loc E loc cs y;
     Some (if CARDLOC E pd = loc then rest else c # rest)
   }"

section \<open>Probing\<close>

text \<open>The label \<open>err_pci_disable_device\<close> and what follows it.\<close>

definition err_pci_disable_device :: "int \<Rightarrow> nat option \<Rightarrow> nat \<Rightarrow> famez_sys \<Rightarrow> (int \<times> famez_sys) option" where
  "err_pci_disable_device ret addr pd y = do {
     let d = (pci_devs y pd)\<lparr>enabled := False\<rparr>;
     ap \<leftarrow> (case addr of None \<Rightarrow> Some None | Some p \<Rightarrow> do { a \<leftarrow> adapter_ref p y; Some (Some (p, a)) });
     (h1, d1) \<leftarrow> famez_adapter_destroy ap (sys_heap y) d;
     Some (ret, put_dev pd d1 (y\<lparr>sys_heap := h1\<rparr>))
   }"

definition isr_teardown_at :: "nat \<Rightarrow> nat \<Rightarrow> famez_sys \<Rightarrow> famez_sys option" where
  "isr_teardown_at addr pd y = do {
     a \<leftarrow> adapter_ref addr y;
     (a1, h1, s1) \<leftarrow> famez_ISR_teardown a (worlds y pd) (sys_heap y) (irq_states y pd);
     Some (put_adapter addr a1 (put_irqs pd s1 (y\<lparr>sys_heap := h1\<rparr>)))
   }"

definition err_MSIX_teardown :: "int \<Rightarrow> nat \<Rightarrow> nat \<Rightarrow> famez_sys \<Rightarrow> (int \<times> famez_sys) option" where
  "err_MSIX_teardown ret addr pd y = do {
     y1 \<leftarrow> isr_teardown_at addr pd y;
     err_pci_disable_device ret (Some addr) pd y1
   }"

text \<open>"It's a keeper...unless it's already there."\<close>

definition list_adapter :: "probe_env \<Rightarrow> nat \<Rightarrow> nat \<Rightarrow> famez_sys \<Rightarrow> (int \<times> famez_sys) option" where
  "list_adapter E addr pd y = do {
     y1 \<leftarrow> sema_down E y;
     dup \<leftarrow> list_has_loc E (CARDLOC E pd) (famez_adapter_list y1) y1;
     if dup then Some (- EALREADY, sema_up y1)
     else Some (0, sema_up (y1\<lparr>famez_adapter_list := famez_adapter_list y1 @ [addr]\<rparr>))
   }"

text \<open>Asking the server for the peer attributes.\<close>

definition greet_server :: "probe_env \<Rightarrow> nat \<Rightarrow> nat \<Rightarrow> famez_sys \<Rightarrow> (int \<times> famez_sys) option" where
  "greet_server E addr pd y = do {
     a \<leftarrow> adapter_ref addr y;
     g \<leftarrow> deref_globals a (worlds y pd);
     (ret, w1) \<leftarrow> famez_create_outgoing (kern E) (to_int (server_id g)) FAMEZ_SID_CID_IS_PEER_ID
        get_peer_attributes (of_nat (strlen get_peer_attributes)) a (worlds y pd);
     Some (if ret > 0 then (if ret = int (strlen get_peer_attributes) then 0 else - EIO) else ret,
           put_world pd w1 y)
   }"

definition famez_init_one :: "probe_env \<Rightarrow> nat \<Rightarrow> famez_sys \<Rightarrow> (int \<times> famez_sys) option" where
  "famez_init_one E pd y =
     (let P = pci_of E pd; d = pci_devs y pd in
      if drvdata d \<noteq> None then Some (- EALREADY, y)
      else if pci_enable_device P < 0 then Some (pci_enable_device P, y)
      else
        let y1 = put_dev pd (d\<lparr>enabled := True\<rparr>) y in
        if revision P \<noteq> 1 \<or> \<not> msix_cap P \<or> \<not> pci_resource_start_1 P
        then err_pci_disable_device (- ENODEV) None pd y1
        else do {
          (r, h2, d2, w2) \<leftarrow> famez_adapter_create P pd (sys_heap y1) (pci_devs y1 pd) (worlds y1 pd);
          let y2 = put_dev pd d2 (put_world pd w2 (y1\<lparr>sys_heap := h2\<rparr>));
          (case r of
             Inl e \<Rightarrow> err_pci_disable_device e None pd y2
           | Inr (addr, a) \<Rightarrow> do {
               (ret, a3, h3, s3) \<leftarrow> famez_ISR_setup (irq_of E pd) a w2 h2 (irq_states y2 pd);
               let y3 = put_adapter addr a3 (put_irqs pd s3 (y2\<lparr>sys_heap := h3\<rparr>));
               if ret \<noteq> 0 then err_pci_disable_device ret (Some addr) pd y3
               else do {
                 (ret4, y4) \<leftarrow> list_adapter E addr pd y3;
                 if ret4 \<noteq> 0 then err_MSIX_teardown ret4 addr pd y4
                 else do {
                   (ret5, y5) \<leftarrow> greet_server E addr pd y4;
                   if ret5 = 0 then Some (0, y5) else err_MSIX_teardown ret5 addr pd y5
                 }
               }
             })
        })"

section \<open>Removing\<close>

definition famez_remove_one :: "probe_env \<Rightarrow> nat \<Rightarrow> famez_sys \<Rightarrow> famez_sys option" where
  "famez_remove_one E pd y =
     (case drvdata (pci_devs y pd) of
        None \<Rightarrow> Some y
      | Some addr \<Rightarrow> do {
          y1 \<leftarrow> isr_teardown_at addr pd y;
          let y2 = put_dev pd ((pci_devs y1 pd)\<lparr>enabled := False\<rparr>) y1;
          y3 \<leftarrow> sema_down E y2;
          l \<leftarrow> list_del_loc E (CARDLOC E pd) (famez_adapter_list y3) y3;
          let y4 = sema_up (y3\<lparr>famez_adapter_list := l\<rparr>);
          a \<leftarrow> adapter_ref addr y4;
          (h5, d5) \<leftarrow> famez_adapter_destroy (Some (addr, a)) (sys_heap y4) (pci_devs y4 pd);
          Some (put_dev pd d5 (y4\<lparr>sys_heap := h5\<rparr>))
        })"

section \<open>The steps of a probe\<close>

lemmas put_defs = put_adapter_def put_dev_def put_irqs_def put_world_def

lemma put_selectors [simp]:
  "pci_devs (put_dev pd d y) q = (if q = pd then d else pci_devs y q)"
  "sys_heap (put_dev pd d y) = sys_heap y" "worlds (put_dev pd d y) = worlds y"
  "irq_states (put_dev pd d y) = irq_states y" "irq_states (put_world pd w y) = irq_states y"
  by (simp_all add: put_defs)

text \<open>Every adapter in the list is alive and knows its device.\<close>

definition list_ok :: "famez_sys \<Rightarrow> bool" where
  "list_ok y \<longleftrightarrow> (\<forall>c \<in> set (famez_adapter_list y). c \<in> k_live (sys_heap y) \<and> pdev (adapter_at y c) \<noteq> None)"

definition loc_listed :: "probe_env \<Rightarrow> nat \<Rightarrow> nat list \<Rightarrow> famez_sys \<Rightarrow> bool" where
  "loc_listed E pd cs y \<longleftrightarrow>
     (\<exists>c \<in> set cs. \<exists>p. pdev (adapter_at y c) = Some p \<and> CARDLOC E p = CARDLOC E pd)"

lemma list_has_loc_run:
  assumes "\<forall>c \<in> set cs. c \<in> k_live (sys_heap y) \<and> pdev (adapter_at y c) \<noteq> None"
  shows "list_has_loc E (CARDLOC E pd) cs y = Some (loc_listed E pd cs y)"
  using assms by (induction cs) (auto simp: adapter_ref_def loc_listed_def)

text \<open>What one \<open>down_interruptible\<close> and \<open>up\<close> do to the count: an interrupted \<open>down\<close> raises it by one.\<close>

definition sema_slip :: "probe_env \<Rightarrow> famez_sys \<Rightarrow> famez_sys" where
  "sema_slip E y = (if down_ret E = 0 then y else sema_up y)"

lemma sema_slip_simps [simp]:
  "sys_heap (sema_slip E y) = sys_heap y" "adapter_at (sema_slip E y) = adapter_at y"
  "famez_adapter_list (sema_slip E y) = famez_adapter_list y" "pci_devs (sema_slip E y) = pci_devs y"
  "irq_states (sema_slip E y) = irq_states y" "worlds (sema_slip E y) = worlds y"
  by (simp_all add: sema_slip_def sema_up_def)

text \<open>Without interrupted waits the count is kept; each of \<open>n\<close> waits can raise it by one.\<close>

definition sema_kept :: "probe_env \<Rightarrow> nat \<Rightarrow> famez_sys \<Rightarrow> famez_sys \<Rightarrow> bool" where
  "sema_kept E n y y' \<longleftrightarrow> famez_adapter_sema y \<le> famez_adapter_sema y' \<and>
     famez_adapter_sema y' \<le> famez_adapter_sema y + n \<and> (down_ret E = 0 \<longrightarrow> famez_adapter_sema y' = famez_adapter_sema y)"

lemma sema_kept_trans: "sema_kept E m y z \<Longrightarrow> sema_kept E n z u \<Longrightarrow> sema_kept E (m + n) y u"
  by (auto simp: sema_kept_def)

lemma list_adapter_run:
  assumes "list_ok y" and "0 < famez_adapter_sema y"
  shows "list_adapter E addr pd y = Some (if loc_listed E pd (famez_adapter_list y) y then (- EALREADY, sema_slip E y)
    else (0, (sema_slip E y)\<lparr>famez_adapter_list := famez_adapter_list y @ [addr]\<rparr>))"
proof -
  have has: "list_has_loc E (CARDLOC E pd) (famez_adapter_list y) (y\<lparr>famez_adapter_sema := n\<rparr>)
      = Some (loc_listed E pd (famez_adapter_list y) y)" for n
    using list_has_loc_run [of "famez_adapter_list y" "y\<lparr>famez_adapter_sema := n\<rparr>" E pd] assms(1)
    by (simp add: list_ok_def loc_listed_def)
  have "list_has_loc E (CARDLOC E pd) (famez_adapter_list y) y = Some (loc_listed E pd (famez_adapter_list y) y)"
    using has [of "famez_adapter_sema y"] by simp
  moreover have "y\<lparr>famez_adapter_sema := Suc (famez_adapter_sema y - Suc 0)\<rparr> = y" using assms(2) by simp
  ultimately show ?thesis using assms has
    by (auto simp: list_adapter_def sema_down_def sema_up_def sema_slip_def)
qed

lemma disable_no_adapter:
  "err_pci_disable_device ret None pd y = Some (ret, put_dev pd ((pci_devs y pd)\<lparr>enabled := False\<rparr>) y)"
  by (simp add: err_pci_disable_device_def famez_adapter_destroy_def put_dev_def)

lemma disable_adapter:
  assumes "adapter_idle (addr, adapter_at y addr)" and "adapter_owns (addr, adapter_at y addr) \<subseteq> k_live (sys_heap y)"
    and "drvdata (pci_devs y pd) \<noteq> None"
  shows "err_pci_disable_device ret (Some addr) pd y = Some (ret,
    put_dev pd ((pci_release_regions ((pci_devs y pd)\<lparr>enabled := False\<rparr>))\<lparr>drvdata := None\<rparr>)
      (y\<lparr>sys_heap := (sys_heap y)\<lparr>k_live := k_live (sys_heap y) - adapter_owns (addr, adapter_at y addr)\<rparr>\<rparr>))"
proof -
  have "addr \<in> k_live (sys_heap y)" using assms(2) by (simp add: adapter_owns_def)
  moreover have "drvdata ((pci_devs y pd)\<lparr>enabled := False\<rparr>) \<noteq> None" using assms(3) by simp
  ultimately show ?thesis
    using destroy_idle [OF assms(1,2)] by (simp add: err_pci_disable_device_def adapter_ref_def Let_def)
qed

text \<open>Tearing down the interrupts of an adapter leaves it idle.\<close>

lemma isr_teardown_at_run:
  assumes on: "irqs_on (adapter_at y addr) (worlds y pd) (sys_heap y) (irq_states y pd)"
    and gl: "geometry (bar2_globals (worlds y pd))" "globals (adapter_at y addr)"
    and live: "addr \<in> k_live (sys_heap y)" and tab: "IRQ_private (adapter_at y addr) = Some (tab, es)"
  shows "\<exists>h'. isr_teardown_at addr pd y = Some (put_adapter addr ((adapter_at y addr)\<lparr>IRQ_private := None\<rparr>)
      (put_irqs pd \<lparr>attached = {}, vectors_on = False\<rparr> (y\<lparr>sys_heap := h'\<rparr>))) \<and>
    k_live h' = k_live (sys_heap y) - {tab} \<and> k_next h' = k_next (sys_heap y)"
  using ISR_teardown_result [OF on gl] live tab
  by (auto simp: isr_teardown_at_def adapter_ref_def)

lemma strlen_get_peer_attributes: "strlen get_peer_attributes = 23"
  by (simp add: strlen_def get_peer_attributes_def)

text \<open>With an empty slot of more than 23 bytes the greeting is sent.\<close>

lemma greet_server_run:
  assumes inv: "adapter_inv a w" and a: "a = adapter_at y addr" "w = worlds y pd" and live: "addr \<in> k_live (sys_heap y)"
    and free: "mail w (unat (my_id a)) = None" and room: "23 < unat (max_buflen a)"
  shows "\<exists>w'. greet_server E addr pd y = Some (0, put_world pd w' y) \<and> adapter_inv a w' \<and>
    bar2_globals w' = bar2_globals w \<and>
    mail w' (unat (my_id a)) = Some (unat (server_id (bar2_globals w)), get_peer_attributes) \<and>
    bells w' = bells w @ [(unat (server_id (bar2_globals w)), unat (my_id a))]"
proof -
  let ?id = "server_id (bar2_globals w)"
  have g: "geometry (bar2_globals w)" "globals a" using inv by (simp_all add: adapter_inv_def)
  have id: "0 < unat ?id" "unat ?id < 2 ^ 31"
    using geometry_unat(1) [OF g(1)] g(1) by (simp_all add: geometry_def)
  have "to_int ?id = int (unat ?id)" using id by (intro to_int_small) simp
  then have peer: "unat (outgoing_peer (to_int ?id) FAMEZ_SID_CID_IS_PEER_ID) = unat ?id"
    using outgoing_peer_id(1) [OF id(2)] by simp
  have len: "unat (23 :: u64) \<le> length get_peer_attributes" by (simp add: get_peer_attributes_def)
  have all: "take (unat (23 :: u64)) get_peer_attributes = get_peer_attributes" by (simp add: get_peer_attributes_def)
  have ok: "outgoing_ok (to_int ?id) FAMEZ_SID_CID_IS_PEER_ID 23 a w"
    unfolding outgoing_ok_def peer using id room by simp
  have me: "unat (my_id a) \<le> 2 ^ 16" using unsigned_less [of "my_id a", where ?'a = nat] by simp
  obtain w' where "famez_create_outgoing (kern E) (to_int ?id) FAMEZ_SID_CID_IS_PEER_ID get_peer_attributes 23 a w
      = Some (23, w')" "adapter_inv a w'" "bar2_globals w' = bar2_globals w"
    "mail w' (unat (my_id a)) = Some (unat ?id, get_peer_attributes)"
    "bells w' = bells w @ [(unat ?id, unat (my_id a))]"
    using create_outgoing_delivers [OF inv ok len free, of "kern E"] me unfolding peer all by auto
  then show ?thesis
    using live g(2) unfolding a by (auto simp: greet_server_def adapter_ref_def strlen_get_peer_attributes)
qed

text \<open>With a slot of at most 23 bytes it is too long.\<close>

lemma greet_server_fails:
  assumes inv: "adapter_inv a w" and a: "a = adapter_at y addr" "w = worlds y pd" and live: "addr \<in> k_live (sys_heap y)"
    and small: "\<not> 23 < unat (max_buflen a)"
  shows "greet_server E addr pd y = Some (- E2BIG, y)"
proof -
  let ?id = "server_id (bar2_globals w)"
  have g: "geometry (bar2_globals w)" "globals a" using inv by (simp_all add: adapter_inv_def)
  have id: "0 < unat ?id" "unat ?id < 2 ^ 31"
    using geometry_unat(1) [OF g(1)] g(1) by (simp_all add: geometry_def)
  have "to_int ?id = int (unat ?id)" using id by (intro to_int_small) simp
  then have peer: "unat (outgoing_peer (to_int ?id) FAMEZ_SID_CID_IS_PEER_ID) = unat ?id"
    using outgoing_peer_id(1) [OF id(2)] by simp
  have "famez_create_outgoing (kern E) (to_int ?id) FAMEZ_SID_CID_IS_PEER_ID get_peer_attributes 23 a w = Some (- E2BIG, w)"
    using id small by (intro create_outgoing_rejects(3) [OF g(2)]) (simp_all add: peer)
  then show ?thesis
    using live g(2) unfolding a
    by (simp add: greet_server_def adapter_ref_def strlen_get_peer_attributes put_world_def)
qed

section \<open>The outcomes of a probe\<close>

text \<open>
  Before the probe: a free device, the list and its semaphore in order, a prepared
  mailbox, and the documented behaviour of the PCI core. The slots may be too small for
  the greeting, and waiting for the semaphore may be interrupted.
\<close>

definition probe_ok :: "probe_env \<Rightarrow> nat \<Rightarrow> famez_sys \<Rightarrow> bool" where
  "probe_ok E pd y \<longleftrightarrow>
     wf_heap (sys_heap y) \<and> list_ok y \<and> 0 < famez_adapter_sema y \<and>
     drvdata (pci_devs y pd) = None \<and> \<not> enabled (pci_devs y pd) \<and> \<not> regions (pci_devs y pd) \<and>
     irq_states y pd = \<lparr>attached = {}, vectors_on = False\<rparr> \<and> mailbox_ready (worlds y pd) \<and>
     pci_request_regions (pci_of E pd) \<le> 0 \<and> irq_env_ok (irq_of E pd)"

definition probe_undone :: "nat \<Rightarrow> famez_sys \<Rightarrow> famez_sys \<Rightarrow> bool" where
  "probe_undone pd y y' \<longleftrightarrow>
     k_live (sys_heap y') = k_live (sys_heap y) \<and> wf_heap (sys_heap y') \<and>
     famez_adapter_list y' = famez_adapter_list y \<and>
     irq_states y' = irq_states y \<and> (\<forall>q. q \<noteq> pd \<longrightarrow> pci_devs y' q = pci_devs y q) \<and>
     drvdata (pci_devs y' pd) = None \<and> \<not> enabled (pci_devs y' pd) \<and> \<not> regions (pci_devs y' pd) \<and>
     (\<forall>c \<in> k_live (sys_heap y). adapter_at y' c = adapter_at y c)"

text \<open>What the adapter at an address holds once its interrupts are set up, besides \<open>L\<close>.\<close>

definition adapter_holds :: "nat set \<Rightarrow> nat \<Rightarrow> famez_sys \<Rightarrow> bool" where
  "adapter_holds L addr y \<longleftrightarrow>
     (\<exists>a tab es. adapter_at y addr = a\<lparr>IRQ_private := Some (tab, es)\<rparr> \<and> adapter_idle (addr, a) \<and>
        adapter_owns (addr, a) \<inter> L = {} \<and> tab \<notin> L \<union> adapter_owns (addr, a) \<and>
        k_live (sys_heap y) = insert tab (L \<union> adapter_owns (addr, a)))"

definition probe_done :: "probe_env \<Rightarrow> nat \<Rightarrow> famez_sys \<Rightarrow> famez_sys \<Rightarrow> bool" where
  "probe_done E pd y y' \<longleftrightarrow> \<not> loc_listed E pd (famez_adapter_list y) y \<and>
     (\<exists>addr. addr \<notin> k_live (sys_heap y) \<and> famez_adapter_list y' = famez_adapter_list y @ [addr] \<and>
        drvdata (pci_devs y' pd) = Some addr \<and> enabled (pci_devs y' pd) \<and> regions (pci_devs y' pd) \<and>
        pdev (adapter_at y' addr) = Some pd \<and> adapter_holds (k_live (sys_heap y)) addr y' \<and>
        adapter_inv (adapter_at y' addr) (worlds y' pd) \<and>
        irqs_on (adapter_at y' addr) (worlds y' pd) (sys_heap y') (irq_states y' pd) \<and>
        mail (worlds y' pd) (unat (my_id (adapter_at y' addr)))
          = Some (unat (server_id (bar2_globals (worlds y pd))), get_peer_attributes)) \<and>
     k_live (sys_heap y) \<subseteq> k_live (sys_heap y') \<and> list_ok y' \<and> wf_heap (sys_heap y') \<and>
     (\<forall>q. q \<noteq> pd \<longrightarrow> pci_devs y' q = pci_devs y q \<and> irq_states y' q = irq_states y q) \<and>
     (\<forall>c \<in> k_live (sys_heap y). adapter_at y' c = adapter_at y c)"

text \<open>
  A failed greeting: the slots are too small for it, and everything is given back except
  that the address of the adapter, freed by now, stays on the list.
\<close>

definition probe_stranded :: "nat \<Rightarrow> nat \<Rightarrow> famez_sys \<Rightarrow> int \<Rightarrow> famez_sys \<Rightarrow> bool" where
  "probe_stranded addr pd y ret y' \<longleftrightarrow> ret = - E2BIG \<and> unat (slotsize (bar2_globals (worlds y pd))) \<le> 151 \<and>
     addr \<notin> k_live (sys_heap y') \<and> probe_undone pd (y\<lparr>famez_adapter_list := famez_adapter_list y @ [addr]\<rparr>) y'"

definition probe_outcome :: "probe_env \<Rightarrow> nat \<Rightarrow> famez_sys \<Rightarrow> int \<Rightarrow> famez_sys \<Rightarrow> bool" where
  "probe_outcome E pd y ret y' \<longleftrightarrow>
     (if ret = 0 then probe_done E pd y y' else probe_undone pd y y' \<or> (\<exists>addr. probe_stranded addr pd y ret y'))"

lemma sema_slip_ok: "probe_ok E pd (sema_slip E y) = probe_ok E pd y" if "0 < famez_adapter_sema y"
  using that by (simp add: probe_ok_def list_ok_def sema_slip_def sema_up_def)

lemma sema_slip_outcome [simp]:
  "probe_undone pd (sema_slip E y) y' = probe_undone pd y y'"
  "probe_done E pd (sema_slip E y) y' = probe_done E pd y y'"
  by (simp_all add: probe_undone_def probe_done_def loc_listed_def)

text \<open>The state once the adapter exists and its interrupts are set up.\<close>

definition probed_state ::
  "nat \<Rightarrow> nat \<Rightarrow> famez_adapter \<Rightarrow> kheap \<Rightarrow> pci_dev \<Rightarrow> irq_state \<Rightarrow> fz_world \<Rightarrow> famez_sys \<Rightarrow> famez_sys" where
  "probed_state addr pd a h d s w y = put_adapter addr a (put_irqs pd s (put_dev pd d (put_world pd w (y\<lparr>sys_heap := h\<rparr>))))"

lemma probed_state_simps [simp]:
  "sys_heap (probed_state addr pd a h d s w y) = h"
  "adapter_at (probed_state addr pd a h d s w y) c = (if c = addr then a else adapter_at y c)"
  "famez_adapter_list (probed_state addr pd a h d s w y) = famez_adapter_list y"
  "famez_adapter_sema (probed_state addr pd a h d s w y) = famez_adapter_sema y"
  "pci_devs (probed_state addr pd a h d s w y) q = (if q = pd then d else pci_devs y q)"
  "irq_states (probed_state addr pd a h d s w y) = (irq_states y)(pd := s)"
  "worlds (probed_state addr pd a h d s w y) q = (if q = pd then w else worlds y q)"
  by (simp_all add: probed_state_def put_defs)

lemma probe_failed_before_list:
  assumes off: "irq_states y pd = \<lparr>attached = {}, vectors_on = False\<rparr>" and new: "adapter_owns (addr, a) \<inter> k_live (sys_heap y) = {}"
    and idle: "adapter_idle (addr, a)" and h: "k_live h = k_live (sys_heap y) \<union> adapter_owns (addr, a)" "wf_heap h"
    and d: "drvdata d = Some addr" "regions d"
    and z: "z = probed_state addr pd a h d \<lparr>attached = {}, vectors_on = False\<rparr> w (put_dev pd d' y)"
  shows "\<exists>y'. err_pci_disable_device ret (Some addr) pd z = Some (ret, y') \<and> probe_undone pd y y'"
proof -
  have "addr \<notin> k_live (sys_heap y)" using new by (auto simp: adapter_owns_def)
  moreover have "k_live h - adapter_owns (addr, a) = k_live (sys_heap y)" using new h by blast
  moreover have "wf_heap (h\<lparr>k_live := k_live (sys_heap y)\<rparr>)" using h by (auto intro: wf_heap_shrink)
  moreover have "(irq_states y)(pd := \<lparr>attached = {}, vectors_on = False\<rparr>) = irq_states y"
    using off by auto
  moreover have "adapter_owns (addr, a) \<subseteq> k_live h" using h by blast
  ultimately show ?thesis
    using disable_adapter [of addr z pd ret] idle d
    by (auto simp: z probe_undone_def put_dev_def pci_release_regions_def)
qed

text \<open>After the set-up of the interrupts everything is torn down again.\<close>

lemma probe_failed_after_setup:
  assumes off: "irq_states y pd = \<lparr>attached = {}, vectors_on = False\<rparr>" and new: "adapter_owns (addr, a) \<inter> k_live (sys_heap y) = {}"
    and idle: "adapter_idle (addr, a)" and h: "k_live h2 = k_live (sys_heap y) \<union> adapter_owns (addr, a)"
    and d: "drvdata d = Some addr" "regions d"
    and t: "tab \<notin> k_live h2" "k_live h = insert tab (k_live h2)" "wf_heap h"
    and inv: "adapter_inv a w" and on: "irqs_on (a\<lparr>IRQ_private := Some (tab, es)\<rparr>) w h s"
    and z: "z = probed_state addr pd (a\<lparr>IRQ_private := Some (tab, es)\<rparr>) h d s w (put_dev pd d' y)"
  shows "\<exists>y'. err_MSIX_teardown ret addr pd z = Some (ret, y') \<and> probe_undone pd y y'"
proof -
  have "addr \<in> k_live h" using h t by (auto simp: adapter_owns_def)
  then have live: "addr \<in> k_live (sys_heap z)" by (simp add: z)
  have a0: "a\<lparr>IRQ_private := None\<rparr> = a" using idle by (simp add: adapter_idle_def)
  have "geometry (bar2_globals (worlds z pd))" "globals (adapter_at z addr)"
    using inv by (simp_all add: z adapter_inv_def)
  from isr_teardown_at_run [OF _ this live, of tab es] on obtain h' where
    td: "isr_teardown_at addr pd z = Some (put_adapter addr ((adapter_at z addr)\<lparr>IRQ_private := None\<rparr>)
      (put_irqs pd \<lparr>attached = {}, vectors_on = False\<rparr> (z\<lparr>sys_heap := h'\<rparr>)))"
    and h': "k_live h' = k_live h - {tab}" "k_next h' = k_next h" by (auto simp: z)
  have "put_adapter addr ((adapter_at z addr)\<lparr>IRQ_private := None\<rparr>)
      (put_irqs pd \<lparr>attached = {}, vectors_on = False\<rparr> (z\<lparr>sys_heap := h'\<rparr>))
      = probed_state addr pd a h' d \<lparr>attached = {}, vectors_on = False\<rparr> w (put_dev pd d' y)"
    using a0 by (simp add: z probed_state_def put_defs)
  moreover have "k_live h' = k_live (sys_heap y) \<union> adapter_owns (addr, a)" using h' t h by auto
  moreover have "wf_heap h'" using t(3) h' by (auto simp: wf_heap_def)
  ultimately show ?thesis
    using probe_failed_before_list [OF off new idle _ _ d refl, where h = h' and w = w and d' = d' and ret = ret] td
    by (simp add: err_MSIX_teardown_def)
qed

text \<open>
  Listed, the adapter greets the server. \<open>z\<close> is the state before the walk of the list.
\<close>

lemma probe_greets:
  assumes ok: "probe_ok E pd y" and new: "adapter_owns (addr, a) \<inter> k_live (sys_heap y) = {}"
    and idle: "adapter_idle (addr, a)" and h: "k_live h2 = k_live (sys_heap y) \<union> adapter_owns (addr, a)"
    and d: "drvdata d = Some addr" "regions d" "enabled d"
    and t: "tab \<notin> k_live h2" "k_live h = insert tab (k_live h2)" "wf_heap h"
    and rdy: "adapter_ready a w" "pdev a = Some pd" "mail w (unat (my_id a)) = None" "bar2_globals w = bar2_globals (worlds y pd)"
    and on: "irqs_on (a\<lparr>IRQ_private := Some (tab, es)\<rparr>) w h s"
    and z: "z = probed_state addr pd (a\<lparr>IRQ_private := Some (tab, es)\<rparr>) h d s w (put_dev pd d' y)"
    and new_loc: "\<not> loc_listed E pd (famez_adapter_list y) y" and big: "151 < unat (slotsize (bar2_globals (worlds y pd)))"
  shows "\<exists>y'. greet_server E addr pd (z\<lparr>famez_adapter_list := famez_adapter_list z @ [addr]\<rparr>) = Some (0, y') \<and> probe_done E pd y y'"
proof -
  let ?a = "a\<lparr>IRQ_private := Some (tab, es)\<rparr>" and ?z = "z\<lparr>famez_adapter_list := famez_adapter_list z @ [addr]\<rparr>"
  have inv: "adapter_inv a w" using rdy(1) by (simp add: adapter_ready_def)
  have fresh: "addr \<notin> k_live (sys_heap y)" and live: "addr \<in> k_live h" using new h t by (auto simp: adapter_owns_def)
  have lz: "list_ok z" using ok fresh h t by (auto simp: z probe_ok_def list_ok_def put_dev_def)
  have inv': "adapter_inv ?a w" using inv by (simp add: adapter_inv_def)
  have big: "23 < unat (max_buflen ?a)" using max_buflen_bound(1) [OF inv] big rdy(4) by simp
  have my: "my_id ?a = my_id a" by simp
  have at: "?a = adapter_at ?z addr" "w = worlds ?z pd" "addr \<in> k_live (sys_heap ?z)"
    "mail w (unat (my_id ?a)) = None" using rdy(3) live by (simp_all add: z)
  obtain w' where g: "greet_server E addr pd ?z = Some (0, put_world pd w' ?z)" "adapter_inv ?a w'"
    "bar2_globals w' = bar2_globals w"
    "mail w' (unat (my_id a)) = Some (unat (server_id (bar2_globals w)), get_peer_attributes)"
    using greet_server_run [OF inv' at(1,2,3) at(4) big, of E] unfolding my by blast
  have on': "irqs_on ?a w' h s" using on g(3) by (simp add: irqs_on_def irq_table_ok_def)
  have pd: "pdev a \<noteq> None" using idle by (simp add: adapter_idle_def)
  have "list_ok (put_world pd w' ?z)"
    using lz live pd unfolding list_ok_def by (simp add: put_world_def z)
  moreover have "k_live (sys_heap y) \<subseteq> k_live h" using h t by auto
  moreover have "adapter_holds (k_live (sys_heap y)) addr (put_world pd w' ?z)"
    using idle new h t by (auto simp: adapter_holds_def z put_world_def)
  ultimately have "probe_done E pd y (put_world pd w' ?z)"
    using g rdy(2,4) fresh d t(3) on' new_loc unfolding probe_done_def by (auto simp: z put_world_def put_dev_def)
  with g(1) show ?thesis by blast
qed

lemma probe_listed:
  assumes ok: "probe_ok E pd y" and new: "adapter_owns (addr, a) \<inter> k_live (sys_heap y) = {}"
    and idle: "adapter_idle (addr, a)" and h: "k_live h2 = k_live (sys_heap y) \<union> adapter_owns (addr, a)"
    and d: "drvdata d = Some addr" "regions d" "enabled d"
    and t: "tab \<notin> k_live h2" "k_live h = insert tab (k_live h2)" "wf_heap h"
    and rdy: "adapter_ready a w" "pdev a = Some pd" "mail w (unat (my_id a)) = None" "bar2_globals w = bar2_globals (worlds y pd)"
    and on: "irqs_on (a\<lparr>IRQ_private := Some (tab, es)\<rparr>) w h s"
    and z: "z = probed_state addr pd (a\<lparr>IRQ_private := Some (tab, es)\<rparr>) h d s w (put_dev pd d' y)"
  shows "\<exists>ret y'. do {
      (ret4, y4) \<leftarrow> list_adapter E addr pd z;
      if ret4 \<noteq> 0 then err_MSIX_teardown ret4 addr pd y4
      else do {
        (ret5, y5) \<leftarrow> greet_server E addr pd y4;
        if ret5 = 0 then Some (0, y5) else err_MSIX_teardown ret5 addr pd y5
      } } = Some (ret, y') \<and>
    (if loc_listed E pd (famez_adapter_list y) y then ret \<noteq> 0 \<and> probe_undone pd y y'
     else if 151 < unat (slotsize (bar2_globals (worlds y pd))) then ret = 0 \<and> probe_done E pd y y'
     else probe_stranded addr pd y ret y')"
proof -
  let ?a = "a\<lparr>IRQ_private := Some (tab, es)\<rparr>" and ?y = "sema_slip E y"
  have inv: "adapter_inv a w" using rdy(1) by (simp add: adapter_ready_def)
  have fresh: "addr \<notin> k_live (sys_heap y)" and live: "addr \<in> k_live h" using new h t by (auto simp: adapter_owns_def)
  have sema: "0 < famez_adapter_sema y" and off: "irq_states y pd = \<lparr>attached = {}, vectors_on = False\<rparr>"
    using ok by (simp_all add: probe_ok_def)
  have oks: "probe_ok E pd ?y" using ok sema_slip_ok [OF sema] by simp
  have zs: "sema_slip E z = probed_state addr pd ?a h d s w (put_dev pd d' ?y)"
    by (simp add: z sema_slip_def sema_up_def probed_state_def put_defs)
  have lz: "list_ok z" using ok fresh h t by (auto simp: z probe_ok_def list_ok_def put_dev_def)
  have loc: "loc_listed E pd (famez_adapter_list z) z = loc_listed E pd (famez_adapter_list y) y"
    using ok fresh by (auto simp: loc_listed_def z put_dev_def probe_ok_def list_ok_def)
  have la: "list_adapter E addr pd z = Some (if loc_listed E pd (famez_adapter_list y) y then (- EALREADY, sema_slip E z)
      else (0, (sema_slip E z)\<lparr>famez_adapter_list := famez_adapter_list z @ [addr]\<rparr>))"
    using list_adapter_run [OF lz, of E addr pd] sema loc by (simp add: z put_dev_def)
  consider (dup) "loc_listed E pd (famez_adapter_list y) y"
    | (big) "\<not> loc_listed E pd (famez_adapter_list y) y" "151 < unat (slotsize (bar2_globals (worlds y pd)))"
    | (small) "\<not> loc_listed E pd (famez_adapter_list y) y" "\<not> 151 < unat (slotsize (bar2_globals (worlds y pd)))" by blast
  then show ?thesis
  proof cases
    case dup
    then show ?thesis
      using probe_failed_after_setup [of ?y pd addr a, OF _ _ idle _ d(1,2) t inv on zs, of "- EALREADY"] off new h la
      by auto
  next
    case big
    have "\<not> loc_listed E pd (famez_adapter_list ?y) ?y" using big(1) by (simp add: loc_listed_def)
    from probe_greets [OF oks _ idle _ d t rdy(1-3) _ on zs this] big new h rdy(4) la show ?thesis by fastforce
  next
    case small
    define y1 where "y1 = ?y\<lparr>famez_adapter_list := famez_adapter_list y @ [addr]\<rparr>"
    define z1 where "z1 = (sema_slip E z)\<lparr>famez_adapter_list := famez_adapter_list z @ [addr]\<rparr>"
    have z1: "z1 = probed_state addr pd ?a h d s w (put_dev pd d' y1)"
      unfolding z1_def zs by (simp add: y1_def z probed_state_def put_defs)
    obtain y' where td: "err_MSIX_teardown (- E2BIG) addr pd z1 = Some (- E2BIG, y')" "probe_undone pd y1 y'"
      using probe_failed_after_setup [of y1 pd addr a, OF _ _ idle _ d(1,2) t inv on z1, of "- E2BIG"] off new h
      by (auto simp: y1_def)
    have "probe_undone pd (y\<lparr>famez_adapter_list := famez_adapter_list y @ [addr]\<rparr>) y'"
      using td(2) by (simp add: probe_undone_def y1_def)
    then have st: "probe_stranded addr pd y (- E2BIG) y'"
      using small(2) fresh by (auto simp: probe_stranded_def probe_undone_def)
    have "greet_server E addr pd z1 = Some (- E2BIG, z1)"
    proof (rule greet_server_fails)
      show "adapter_inv ?a w" using inv by (simp add: adapter_inv_def)
      show "\<not> 23 < unat (max_buflen ?a)" using max_buflen_bound(1) [OF inv] small(2) rdy(4) by simp
    qed (use live in \<open>simp_all add: z1\<close>)
    then show ?thesis using la small st td(1) unfolding z1_def [symmetric] by (simp add: z1_def [symmetric])
  qed
qed

lemma init_one_with_adapter:
  assumes ok: "probe_ok E pd y" and run: "\<not> pci_enable_device (pci_of E pd) < 0"
    "\<not> (revision (pci_of E pd) \<noteq> 1 \<or> \<not> msix_cap (pci_of E pd) \<or> \<not> pci_resource_start_1 (pci_of E pd))"
    and d0: "d0 = (pci_devs y pd)\<lparr>enabled := True\<rparr>"
    and c: "famez_adapter_create (pci_of E pd) pd (sys_heap y) d0 (worlds y pd) = Some (Inr (addr, a), h2, d2, w2)"
    "adapter_created (pci_of E pd) pd (sys_heap y) d0 (worlds y pd) (Inr (addr, a)) h2 d2 w2"
  shows "\<exists>ret y'. famez_init_one E pd y = Some (ret, y') \<and>
    probe_outcome E pd y ret y' \<and>
    (fst (the (famez_ISR_setup (irq_of E pd) a w2 h2 (irq_states y pd))) = 0 \<longrightarrow>
     \<not> loc_listed E pd (famez_adapter_list y) y \<longrightarrow>
     (if 151 < unat (slotsize (bar2_globals (worlds y pd))) then ret = 0 else probe_stranded addr pd y ret y'))"
proof -
  have pre: "drvdata (pci_devs y pd) = None" "irq_states y pd = \<lparr>attached = {}, vectors_on = False\<rparr>"
    "mailbox_ready (worlds y pd)" "irq_env_ok (irq_of E pd)" using ok by (simp_all add: probe_ok_def)
  from c(2) have cr: "adapter_idle (addr, a)" "adapter_owns (addr, a) \<inter> k_live (sys_heap y) = {}"
    "k_live h2 = k_live (sys_heap y) \<union> adapter_owns (addr, a)" "wf_heap h2"
    and d2: "drvdata d2 = Some addr" "regions d2" "enabled d2" by (simp_all add: adapter_created_def d0)
  have mk: "adapter_ready a w2" "pdev a = Some pd" "mail w2 (unat (my_id a)) = None" "bar2_globals w2 = bar2_globals (worlds y pd)"
    using create_makes_ready [OF pre(3) c(2)] unfolding snd_conv by blast+
  have off: "irqs_off a (irq_states y pd)" "globals a"
    using mk(1) pre(2) by (simp_all add: irqs_off_def adapter_ready_def adapter_inv_def)
  obtain ret a3 h3 s3 where st: "famez_ISR_setup (irq_of E pd) a w2 h2 (irq_states y pd) = Some (ret, a3, h3, s3)"
    "wf_heap h3" and res: "if ret = 0 then irqs_on a3 w2 h3 s3 \<and> (\<exists>tab es. a3 = a\<lparr>IRQ_private := Some (tab, es)\<rparr> \<and>
       tab \<notin> k_live h2 \<and> k_live h3 = insert tab (k_live h2))
     else ret < 0 \<and> a3 = a \<and> s3 = irq_states y pd \<and> k_live h3 = k_live h2"
    using ISR_setup_result [OF pre(4) cr(4) off, of w2] by blast
  define z where "z = probed_state addr pd a3 h3 d2 s3 w2 (put_dev pd d0 y)"
  have z_eq: "put_adapter addr a3 (put_irqs pd s3 ((put_dev pd d2 (put_world pd w2
      ((put_dev pd d0 y)\<lparr>sys_heap := h2\<rparr>)))\<lparr>sys_heap := h3\<rparr>)) = z"
    by (cases y) (simp add: z_def probed_state_def put_defs)
  have eq: "famez_init_one E pd y = (if ret \<noteq> 0 then err_pci_disable_device ret (Some addr) pd z
     else do { (ret4, y4) \<leftarrow> list_adapter E addr pd z;
       if ret4 \<noteq> 0 then err_MSIX_teardown ret4 addr pd y4
       else do { (ret5, y5) \<leftarrow> greet_server E addr pd y4;
         if ret5 = 0 then Some (0, y5) else err_MSIX_teardown ret5 addr pd y5 } })"
    using run pre c(1) st(1) z_eq unfolding famez_init_one_def Let_def d0 by simp
  show ?thesis
  proof (cases "ret = 0")
    case True
    with res obtain tab es where a3: "a3 = a\<lparr>IRQ_private := Some (tab, es)\<rparr>" and t: "tab \<notin> k_live h2"
      "k_live h3 = insert tab (k_live h2)" and on: "irqs_on (a\<lparr>IRQ_private := Some (tab, es)\<rparr>) w2 h3 s3" by auto
    note z = z_def [unfolded a3]
    have "famez_init_one E pd y = do { (ret4, y4) \<leftarrow> list_adapter E addr pd z;
       if ret4 \<noteq> 0 then err_MSIX_teardown ret4 addr pd y4
       else do { (ret5, y5) \<leftarrow> greet_server E addr pd y4;
         if ret5 = 0 then Some (0, y5) else err_MSIX_teardown ret5 addr pd y5 } }" using eq True by simp
    moreover have "ret \<noteq> 0" if "probe_stranded addr pd y ret y'" for ret y' using that by (simp add: probe_stranded_def)
    ultimately show ?thesis
      using probe_listed [OF ok cr(2,1,3) d2 t st(2) mk on z] unfolding probe_outcome_def by (smt (verit, best))
  next
    case False
    with res pre(2) have "z = probed_state addr pd a h3 d2 \<lparr>attached = {}, vectors_on = False\<rparr> w2 (put_dev pd d0 y)"
      and "k_live h3 = k_live (sys_heap y) \<union> adapter_owns (addr, a)" using cr(3) by (simp_all add: z_def)
    from probe_failed_before_list [OF pre(2) cr(2,1) this(2) st(2) d2(1,2) this(1), of ret] False
    show ?thesis unfolding eq using st(1) by (auto simp: probe_outcome_def)
  qed
qed

lemma init_one_result:
  assumes ok: "probe_ok E pd y"
  shows "\<exists>ret y'. famez_init_one E pd y = Some (ret, y') \<and> probe_outcome E pd y ret y'"
proof -
  let ?P = "pci_of E pd" and ?d = "(pci_devs y pd)\<lparr>enabled := True\<rparr>" and ?w = "worlds y pd"
  have pre: "wf_heap (sys_heap y)" "drvdata (pci_devs y pd) = None" "\<not> enabled (pci_devs y pd)"
    "\<not> regions (pci_devs y pd)" "irq_states y pd = \<lparr>attached = {}, vectors_on = False\<rparr>"
    "mailbox_ready ?w" "pci_request_regions ?P \<le> 0" "irq_env_ok (irq_of E pd)"
    using ok by (simp_all add: probe_ok_def)
  have none: "\<exists>y'. err_pci_disable_device ret None pd (put_dev pd d' (put_world pd w' (y\<lparr>sys_heap := h'\<rparr>))) = Some (ret, y') \<and> probe_undone pd y y'"
    if "drvdata d' = None" "\<not> regions d'" "k_live h' = k_live (sys_heap y)" "wf_heap h'" for ret d' w' h'
    unfolding disable_no_adapter using that by (simp add: probe_undone_def put_defs)
  consider "pci_enable_device ?P < 0"
    | "\<not> pci_enable_device ?P < 0" "revision ?P \<noteq> 1 \<or> \<not> msix_cap ?P \<or> \<not> pci_resource_start_1 ?P"
    | (run) "\<not> pci_enable_device ?P < 0" "\<not> (revision ?P \<noteq> 1 \<or> \<not> msix_cap ?P \<or> \<not> pci_resource_start_1 ?P)" by blast
  then show ?thesis
  proof cases
    case 1
    then show ?thesis using pre by (simp add: famez_init_one_def probe_undone_def probe_outcome_def)
  next
    case 2
    then have "famez_init_one E pd y = err_pci_disable_device (- ENODEV) None pd
        (put_dev pd ?d (put_world pd ?w (y\<lparr>sys_heap := sys_heap y\<rparr>)))"
      using pre by (simp add: famez_init_one_def put_defs)
    with pre none [of ?d "sys_heap y" "- ENODEV" ?w] show ?thesis
      by (intro exI [of _ "- ENODEV"]) (auto simp: probe_outcome_def)
  next
    case run
    obtain r h2 d2 w2 where c: "famez_adapter_create ?P pd (sys_heap y) ?d ?w = Some (r, h2, d2, w2)"
      "adapter_created ?P pd (sys_heap y) ?d ?w r h2 d2 w2"
      using adapter_create_result [of "sys_heap y" ?d ?P pd ?w] pre by auto
    show ?thesis
    proof (cases r)
      case (Inl e)
      then have "drvdata d2 = None" "\<not> regions d2" "k_live h2 = k_live (sys_heap y)" "wf_heap h2" "e < 0"
        using c(2) by (simp_all add: adapter_created_def)
      moreover have "famez_init_one E pd y = err_pci_disable_device e None pd (put_dev pd d2 (put_world pd w2 (y\<lparr>sys_heap := h2\<rparr>)))"
        using run c(1) Inl pre unfolding famez_init_one_def Let_def by (simp add: put_defs)
      ultimately show ?thesis using none [of d2 h2 e w2]
        by (intro exI [of _ e]) (auto simp: probe_outcome_def)
    next
      case (Inr ap)
      obtain addr a where ap: "ap = (addr, a)" by (cases ap)
      then show ?thesis
        using init_one_with_adapter [OF ok run refl c [unfolded Inr ap]] by blast
    qed
  qed
qed

section \<open>Removing what was probed\<close>

lemma list_del_loc_run:
  assumes "\<forall>c \<in> set cs. c \<in> k_live (sys_heap y) \<and> pdev (adapter_at y c) \<noteq> None"
  shows "list_del_loc E loc cs y = Some (filter (\<lambda>c. CARDLOC E (the (pdev (adapter_at y c))) \<noteq> loc) cs)"
  using assms by (induction cs) (auto simp: adapter_ref_def)

lemma remove_one_steps:
  assumes d: "drvdata (pci_devs y pd) = Some addr" and live: "addr \<in> k_live (sys_heap y)"
    and td: "isr_teardown_at addr pd y = Some z" and lz: "list_ok z"
    and sema: "0 < famez_adapter_sema z" and pz: "pci_devs z pd = pci_devs y pd"
    and idle: "adapter_idle (addr, adapter_at z addr)" "adapter_owns (addr, adapter_at z addr) \<subseteq> k_live (sys_heap z)"
  shows "famez_remove_one E pd y = Some (put_dev pd
      ((pci_release_regions ((pci_devs y pd)\<lparr>enabled := False\<rparr>))\<lparr>drvdata := None\<rparr>)
      ((sema_slip E z)\<lparr>famez_adapter_list := filter (\<lambda>c. CARDLOC E (the (pdev (adapter_at z c))) \<noteq> CARDLOC E pd) (famez_adapter_list z),
         sys_heap := (sys_heap z)\<lparr>k_live := k_live (sys_heap z) - adapter_owns (addr, adapter_at z addr)\<rparr>\<rparr>))"
proof -
  let ?d = "(pci_devs z pd)\<lparr>enabled := False\<rparr>"
  have l: "list_del_loc E (CARDLOC E pd) (famez_adapter_list z) ((put_dev pd ?d z)\<lparr>famez_adapter_sema := n\<rparr>) =
      Some (filter (\<lambda>c. CARDLOC E (the (pdev (adapter_at z c))) \<noteq> CARDLOC E pd) (famez_adapter_list z))" for n
    using list_del_loc_run [of "famez_adapter_list z" "(put_dev pd ?d z)\<lparr>famez_adapter_sema := n\<rparr>" E "CARDLOC E pd"] lz
    by (simp add: list_ok_def put_dev_def)
  note l0 = l [of "famez_adapter_sema z"]
  have dr: "drvdata ?d \<noteq> None" using d pz by simp
  have "addr \<in> k_live (sys_heap z)" using idle(2) by (simp add: adapter_owns_def)
  then show ?thesis
    using d td sema l [of "famez_adapter_sema z - 1"] l0 destroy_idle [OF idle dr] pz
    by (cases z) (auto simp: famez_remove_one_def sema_down_def sema_up_def sema_slip_def adapter_ref_def put_dev_def)
qed

lemma probe_remove_balanced:
  assumes ok: "probe_ok E pd y" and pr: "probe_done E pd y y'" and sema: "0 < famez_adapter_sema y'"
  shows "\<exists>y''. famez_remove_one E pd y' = Some y'' \<and> probe_undone pd y y''"
proof -
  obtain addr where a: "addr \<notin> k_live (sys_heap y)" "famez_adapter_list y' = famez_adapter_list y @ [addr]"
    "drvdata (pci_devs y' pd) = Some addr" "regions (pci_devs y' pd)" "pdev (adapter_at y' addr) = Some pd"
    "adapter_holds (k_live (sys_heap y)) addr y'" "adapter_inv (adapter_at y' addr) (worlds y' pd)"
    "irqs_on (adapter_at y' addr) (worlds y' pd) (sys_heap y') (irq_states y' pd)"
    using pr by (auto simp: probe_done_def)
  have d: "\<not> loc_listed E pd (famez_adapter_list y) y" "wf_heap (sys_heap y')" "0 < famez_adapter_sema y'" "list_ok y'"
    "\<forall>c \<in> k_live (sys_heap y). adapter_at y' c = adapter_at y c"
    "\<forall>q. q \<noteq> pd \<longrightarrow> pci_devs y' q = pci_devs y q \<and> irq_states y' q = irq_states y q"
    using pr ok sema by (auto simp: probe_done_def probe_ok_def)
  obtain b tab es where b: "adapter_at y' addr = b\<lparr>IRQ_private := Some (tab, es)\<rparr>" "adapter_idle (addr, b)"
    "adapter_owns (addr, b) \<inter> k_live (sys_heap y) = {}" "tab \<notin> k_live (sys_heap y) \<union> adapter_owns (addr, b)"
    "k_live (sys_heap y') = insert tab (k_live (sys_heap y) \<union> adapter_owns (addr, b))"
    using a(6) by (auto simp: adapter_holds_def)
  have live: "addr \<in> k_live (sys_heap y')" using b by (simp add: adapter_owns_def)
  have b0: "b\<lparr>IRQ_private := None\<rparr> = b" using b(2) by (simp add: adapter_idle_def)
  obtain h' where td: "isr_teardown_at addr pd y' = Some (put_adapter addr b
      (put_irqs pd \<lparr>attached = {}, vectors_on = False\<rparr> (y'\<lparr>sys_heap := h'\<rparr>)))"
    and h': "k_live h' = k_live (sys_heap y') - {tab}" "k_next h' = k_next (sys_heap y')"
    using isr_teardown_at_run [OF a(8) _ _ live, of tab es] a(7) b(1) b0 by (auto simp: adapter_inv_def)
  define z where "z = put_adapter addr b (put_irqs pd \<lparr>attached = {}, vectors_on = False\<rparr> (y'\<lparr>sys_heap := h'\<rparr>))"
  have kl: "k_live h' = k_live (sys_heap y) \<union> adapter_owns (addr, b)" using h' b by auto
  have pdb: "pdev b = Some pd" using a(5) b(1) by simp
  have ly: "list_ok y" "irq_states y pd = \<lparr>attached = {}, vectors_on = False\<rparr>" using ok by (simp_all add: probe_ok_def)
  have at: "adapter_at z c = (if c = addr then b else adapter_at y' c)" for c by (simp add: z_def put_defs)
  have lz: "list_ok z"
    using ly(1) a(1,2) d(5) kl pdb by (auto simp: list_ok_def at) (auto simp: z_def put_defs adapter_owns_def)
  have flt: "filter (\<lambda>c. CARDLOC E (the (pdev (adapter_at z c))) \<noteq> CARDLOC E pd) (famez_adapter_list z) = famez_adapter_list y"
  proof -
    have "CARDLOC E (the (pdev (adapter_at z c))) \<noteq> CARDLOC E pd" if "c \<in> set (famez_adapter_list y)" for c
      using that ly(1) d(1,5) a(1) by (auto simp: list_ok_def loc_listed_def at)
    then have "filter (\<lambda>c. CARDLOC E (the (pdev (adapter_at z c))) \<noteq> CARDLOC E pd) (famez_adapter_list y) = famez_adapter_list y"
      by (simp add: filter_id_conv)
    moreover have "famez_adapter_list z = famez_adapter_list y @ [addr]" using a(2) by (simp add: z_def put_defs)
    ultimately show ?thesis using pdb at [of addr] by simp
  qed
  have "wf_heap (h'\<lparr>k_live := k_live (sys_heap y)\<rparr>)" using d(2) b(5) h' by (auto simp: wf_heap_def)
  moreover have "k_live h' - adapter_owns (addr, b) = k_live (sys_heap y)" using kl b(3) by blast
  moreover have "irq_states z = irq_states y" using d(6) ly(2) by (auto simp: z_def put_defs)
  moreover note remove_one_steps [OF a(3) live td [folded z_def] lz, of E, unfolded flt]
  ultimately show ?thesis
    using ok kl b(2) d a(1,4) unfolding probe_ok_def
    by (auto simp: probe_undone_def at) (auto simp: z_def put_defs pci_release_regions_def)
qed

section \<open>The semaphore\<close>

lemma sema_keeps [simp]:
  "famez_adapter_sema (put_adapter addr a y) = famez_adapter_sema y" "famez_adapter_sema (put_dev pd d y) = famez_adapter_sema y"
  "famez_adapter_sema (put_irqs pd s y) = famez_adapter_sema y" "famez_adapter_sema (put_world pd w y) = famez_adapter_sema y"
  by (simp_all add: put_defs)

lemma teardown_sema: "isr_teardown_at addr pd y = Some y' \<Longrightarrow> famez_adapter_sema y' = famez_adapter_sema y"
  by (auto simp: isr_teardown_at_def split: bind_splits)

lemma disable_sema: "err_pci_disable_device ret a pd y = Some (r, y') \<Longrightarrow> famez_adapter_sema y' = famez_adapter_sema y"
  by (auto simp: err_pci_disable_device_def split: bind_splits option.splits)

lemma err_teardown_sema: "err_MSIX_teardown ret addr pd y = Some (r, y') \<Longrightarrow> famez_adapter_sema y' = famez_adapter_sema y"
  by (auto simp: err_MSIX_teardown_def split: bind_splits dest!: teardown_sema disable_sema)

lemma greet_sema: "greet_server E addr pd y = Some (r, y') \<Longrightarrow> famez_adapter_sema y' = famez_adapter_sema y"
  by (auto simp: greet_server_def split: bind_splits)

text \<open>1 if the wait was interrupted.\<close>

definition slip :: "probe_env \<Rightarrow> nat" where
  "slip E = (if down_ret E = 0 then 0 else 1)"

lemma list_adapter_sema:
  "list_adapter E addr pd y = Some (r, y') \<Longrightarrow> famez_adapter_sema y' = famez_adapter_sema y + slip E"
  by (auto simp: list_adapter_def sema_down_def sema_up_def slip_def split: bind_splits if_splits)

lemma init_one_sema:
  assumes "famez_init_one E pd y = Some (ret, y')"
  shows "sema_kept E 1 y y'"
proof -
  have "famez_adapter_sema y' = famez_adapter_sema y \<or> famez_adapter_sema y' = famez_adapter_sema y + slip E"
    using assms unfolding famez_init_one_def Let_def
    by (auto split: bind_splits if_splits sum.splits dest!: disable_sema err_teardown_sema list_adapter_sema greet_sema)
  then show ?thesis by (auto simp: sema_kept_def slip_def)
qed

lemma remove_one_sema: "famez_remove_one E pd y = Some y' \<Longrightarrow> sema_kept E 1 y y'"
  by (auto simp: famez_remove_one_def sema_down_def sema_up_def sema_kept_def Let_def
      split: bind_splits if_splits option.splits dest!: teardown_sema)

section \<open>A freed adapter on the list\<close>

lemma list_del_loc_stuck: "addr \<in> set cs \<Longrightarrow> addr \<notin> k_live (sys_heap y) \<Longrightarrow> list_del_loc E loc cs y = None"
  by (induction cs) (auto simp: adapter_ref_def bind_eq_None_conv)

lemma teardown_shrinks:
  assumes "isr_teardown_at addr pd y = Some y'"
  shows "k_live (sys_heap y') \<subseteq> k_live (sys_heap y)" and "famez_adapter_list y' = famez_adapter_list y"
  using assms by (auto simp: isr_teardown_at_def famez_ISR_teardown_def kfree_def put_defs Let_def
      split: bind_splits if_splits option.splits)

text \<open>Every removal walks the whole list, so it follows the address of the freed adapter.\<close>

lemma remove_one_stuck:
  assumes "addr \<in> set (famez_adapter_list y)" and "addr \<notin> k_live (sys_heap y)" and "drvdata (pci_devs y q) \<noteq> None"
  shows "famez_remove_one E q y = None"
proof -
  obtain x where x: "drvdata (pci_devs y q) = Some x" using assms(3) by auto
  show ?thesis
  proof (cases "isr_teardown_at x q y")
    case (Some y1)
    note k = teardown_shrinks [OF Some]
    have "list_del_loc E (CARDLOC E q) (famez_adapter_list y3) y3 = None"
      if "sema_down E (put_dev q d y1) = Some y3" for y3 d
      using that assms(1,2) k
      by (intro list_del_loc_stuck [of addr]) (auto simp: sema_down_def put_dev_def split: if_splits)
    then show ?thesis using x Some by (auto simp: famez_remove_one_def Let_def bind_eq_None_conv)
  qed (simp add: famez_remove_one_def x)
qed

section \<open>Properties\<close>

definition demo_probe :: probe_env where
  "demo_probe = \<lparr>pci_of = (\<lambda>_. demo_pci), irq_of = (\<lambda>_. demo_irq_env), kern = demo_kenv, down_ret = 0\<rparr>"

definition demo_sys :: famez_sys where
  "demo_sys = \<lparr>sys_heap = demo_heap 9, adapter_at = (\<lambda>_. demo_adapter), famez_adapter_list = [], famez_adapter_sema = 1,
     pci_devs = (\<lambda>_. untaken\<lparr>enabled := False\<rparr>), irq_states = (\<lambda>_. \<lparr>attached = {}, vectors_on = False\<rparr>),
     worlds = (\<lambda>_. demo_world)\<rparr>"

lemma demo_probe_ok: "probe_ok demo_probe 0 demo_sys"
  by (simp add: probe_ok_def demo_probe_def demo_sys_def list_ok_def untaken_def demo_pci_def)

text \<open>
  C14. Probing a free device on a prepared mailbox always returns, with one of three
  outcomes. It succeeds: the adapter is listed, well-formed, its interrupts are attached,
  and the server's mailbox request "Link CTL Peer-Attribute" is in its slot. Or it fails
  and the heap, the list, the interrupts and the device are as before. Or the slots have
  at most 151 bytes, so that the greeting does not fit: then it fails with \<open>-E2BIG\<close> and gives
  everything back too, but the address of the freed adapter stays on the list. The count of
  the semaphore is as before, unless the wait for it was interrupted: then it may be one
  higher.
\<close>

theorem probe_all_or_nothing:
  assumes "probe_ok E pd y"
  shows "\<exists>ret y'. famez_init_one E pd y = Some (ret, y') \<and> sema_kept E 1 y y' \<and>
    (if ret = 0 then probe_done E pd y y' else probe_undone pd y y' \<or> (\<exists>addr. probe_stranded addr pd y ret y'))"
  using init_one_result [OF assms] init_one_sema unfolding probe_outcome_def by blast

theorem probe_all_or_nothing_witness:
  "\<exists>ret y'. famez_init_one demo_probe 0 demo_sys = Some (ret, y') \<and> sema_kept demo_probe 1 demo_sys y' \<and>
    (if ret = 0 then probe_done demo_probe 0 demo_sys y'
     else probe_undone 0 demo_sys y' \<or> (\<exists>addr. probe_stranded addr 0 demo_sys ret y'))"
  by (rule probe_all_or_nothing [OF demo_probe_ok])

text \<open>
  C15. Removing a device gives back everything its probe took: memory, interrupts,
  regions, driver data and the list entry; the other adapters are untouched. The count of
  the semaphore is as before, unless one of the two waits for it was interrupted.
\<close>

theorem probe_then_remove:
  assumes "probe_ok E pd y" and "famez_init_one E pd y = Some (0, y')"
  shows "\<exists>y''. famez_remove_one E pd y' = Some y'' \<and> probe_undone pd y y'' \<and> sema_kept E 2 y y''"
proof -
  have "probe_done E pd y y'" using init_one_result [OF assms(1)] assms(2) by (auto simp: probe_outcome_def)
  moreover have k: "sema_kept E 1 y y'" by (rule init_one_sema [OF assms(2)])
  then have "0 < famez_adapter_sema y'" using assms(1) by (auto simp: sema_kept_def probe_ok_def)
  ultimately obtain y'' where r: "famez_remove_one E pd y' = Some y''" "probe_undone pd y y''"
    using probe_remove_balanced [OF assms(1)] by blast
  then show ?thesis using sema_kept_trans [OF k remove_one_sema [OF r(1)]] by (auto simp: numeral_2_eq_2)
qed

lemma demo_probe_succeeds: "\<exists>y'. famez_init_one demo_probe 0 demo_sys = Some (0, y')"
proof -
  let ?d = "(pci_devs demo_sys 0)\<lparr>enabled := True\<rparr>"
  have d: "?d = untaken\<lparr>enabled := True\<rparr>" "sys_heap demo_sys = demo_heap 9" "worlds demo_sys 0 = demo_world"
    "pci_of demo_probe 0 = demo_pci" by (simp_all add: demo_sys_def demo_probe_def)
  have e: "drvdata ?d = None" "\<not> regions ?d" "pci_request_regions demo_pci \<le> 0" "\<not> pci_enable_device demo_pci < 0"
    "\<not> (revision demo_pci \<noteq> 1 \<or> \<not> msix_cap demo_pci \<or> \<not> pci_resource_start_1 demo_pci)"
    by (simp_all add: demo_sys_def untaken_def demo_pci_def)
  obtain addr a h' d' w' where c: "famez_adapter_create demo_pci 0 (demo_heap 9) ?d demo_world = Some (Inr (addr, a), h', d', w')"
    and k: "k_ok h' (k_next h')" using demo_create [of True] unfolding d by blast
  have cr: "adapter_created demo_pci 0 (demo_heap 9) ?d demo_world (Inr (addr, a)) h' d' w'"
    using adapter_create_result [OF demo_heap_wf(1) e(1-3), of 0 9 demo_world] c by auto
  have "bar2_globals w' = demo_globals" "adapter_ready a w'"
    using create_makes_ready [OF demo_mailbox_ready cr] by simp_all
  then have "\<exists>a3 h3 s3. famez_ISR_setup demo_irq_env a w' h' (irq_states demo_sys 0) = Some (0, a3, h3, s3)"
    using k by (intro ISR_setup_succeeds [of a demo_irq_env w' h' 6])
      (simp_all add: adapter_ready_def adapter_inv_def demo_globals_def demo_irq_env_def to_u64_def)
  then have "fst (the (famez_ISR_setup (irq_of demo_probe 0) a w' h' (irq_states demo_sys 0))) = 0"
    by (auto simp: demo_probe_def)
  moreover have "\<not> loc_listed demo_probe 0 (famez_adapter_list demo_sys) demo_sys" "151 < unat (slotsize (bar2_globals demo_world))"
    by (simp_all add: demo_sys_def loc_listed_def demo_globals_def)
  ultimately show ?thesis
    using init_one_with_adapter [OF demo_probe_ok, unfolded d(2-4), OF e(4,5) refl c cr] by (simp only: if_True not_False_eq_True simp_thms) blast
qed

theorem probe_then_remove_witness:
  "\<exists>y' y''. famez_init_one demo_probe 0 demo_sys = Some (0, y') \<and>
    famez_remove_one demo_probe 0 y' = Some y'' \<and> probe_undone 0 demo_sys y'' \<and> sema_kept demo_probe 2 demo_sys y''"
  using demo_probe_succeeds probe_then_remove [OF demo_probe_ok] by blast

text \<open>
  C33. The failed greeting of a probe. The device is in order, its adapter was created, its
  interrupts are set up and no adapter of its location is listed, but a slot has at most 151
  bytes. Then the probe fails with \<open>-E2BIG\<close>, after putting the adapter on the list: everything is
  given back, the adapter is freed, and its address is still on the list. From then on the
  removal of any bound device, which walks the list, accesses the freed adapter.
\<close>

theorem failed_greeting_leaves_freed_adapter_listed:
  assumes "probe_ok E pd y" and "\<not> pci_enable_device (pci_of E pd) < 0"
    and "\<not> (revision (pci_of E pd) \<noteq> 1 \<or> \<not> msix_cap (pci_of E pd) \<or> \<not> pci_resource_start_1 (pci_of E pd))"
    and "famez_adapter_create (pci_of E pd) pd (sys_heap y) ((pci_devs y pd)\<lparr>enabled := True\<rparr>) (worlds y pd)
      = Some (Inr (addr, a), h2, d2, w2)"
    and "famez_ISR_setup (irq_of E pd) a w2 h2 (irq_states y pd) = Some (0, a3, h3, s3)"
    and "\<not> loc_listed E pd (famez_adapter_list y) y" and "unat (slotsize (bar2_globals (worlds y pd))) \<le> 151"
  shows "\<exists>y'. famez_init_one E pd y = Some (- E2BIG, y') \<and>
    famez_adapter_list y' = famez_adapter_list y @ [addr] \<and> addr \<notin> k_live (sys_heap y') \<and>
    k_live (sys_heap y') = k_live (sys_heap y) \<and> drvdata (pci_devs y' pd) = None \<and>
    (\<forall>F q. drvdata (pci_devs y' q) \<noteq> None \<longrightarrow> famez_remove_one F q y' = None)"
proof -
  let ?d = "(pci_devs y pd)\<lparr>enabled := True\<rparr>"
  have "adapter_created (pci_of E pd) pd (sys_heap y) ?d (worlds y pd) (Inr (addr, a)) h2 d2 w2"
    using adapter_create_result [of "sys_heap y" ?d "pci_of E pd" pd "worlds y pd"] assms(1,4) by (auto simp: probe_ok_def)
  from init_one_with_adapter [OF assms(1-3) refl assms(4) this] assms(5-7)
  obtain ret y' where r: "famez_init_one E pd y = Some (ret, y')" "probe_stranded addr pd y ret y'" by auto
  then have freed: "addr \<notin> k_live (sys_heap y')" unfolding probe_stranded_def by blast
  have l: "famez_adapter_list y' = famez_adapter_list y @ [addr]"
    "k_live (sys_heap y') = k_live (sys_heap y)" "drvdata (pci_devs y' pd) = None" "ret = - E2BIG"
    using r(2) by (simp_all add: probe_stranded_def probe_undone_def)
  have "famez_remove_one F q y' = None" if "drvdata (pci_devs y' q) \<noteq> None" for F q
    by (rule remove_one_stuck [OF _ freed that]) (simp add: l(1))
  then show ?thesis using r(1) l freed by blast
qed

text \<open>The small machine with slots of 144 bytes, 16 of them for the message.\<close>

definition small_world :: fz_world where
  "small_world = demo_world\<lparr>bar2_globals := demo_globals\<lparr>slotsize := 144\<rparr>,
     bar2 := (\<lambda>p. (demo_slot (p div 144) [])\<lparr>buf := replicate 16 NUL\<rparr>)\<rparr>"

definition small_sys :: famez_sys where
  "small_sys = demo_sys\<lparr>worlds := (\<lambda>_. small_world)\<rparr>"

lemma small_mailbox_ready: "mailbox_ready small_world"
  by (simp add: mailbox_ready_def small_world_def geometry_def offsetof_buf_def) (simp add: demo_world_def demo_globals_def)

lemma small_create: "\<exists>addr a h' d' w'. famez_adapter_create demo_pci 0 (demo_heap 9) (untaken\<lparr>enabled := e\<rparr>) small_world
    = Some (Inr (addr, a), h', d', w') \<and> k_ok h' (k_next h')"
  by (simp add: famez_adapter_create_def genz_core_structure_create_def kzalloc_def demo_heap_def
      GENZ_CORE_STRUCTURE_ALLOC_ALL_def GENZ_CORE_STRUCTURE_ALLOC_COMP_DEST_TABLE_def sprintf_def zero_core_def mapBARs_def
      untaken_def demo_pci_def adapter_create_slot_def offsetof_buf_def calculate_mailslot_def zero_slot_def snprintf_def Let_def)
    (simp add: small_world_def demo_world_def demo_globals_def memcpy_def)

theorem failed_greeting_leaves_freed_adapter_listed_witness:
  "\<exists>addr y'. famez_init_one demo_probe 0 small_sys = Some (- E2BIG, y') \<and>
    famez_adapter_list y' = [addr] \<and> addr \<notin> k_live (sys_heap y')"
proof -
  let ?d = "(pci_devs small_sys 0)\<lparr>enabled := True\<rparr>"
  have d: "?d = untaken\<lparr>enabled := True\<rparr>" "sys_heap small_sys = demo_heap 9" "worlds small_sys 0 = small_world"
    "pci_of demo_probe 0 = demo_pci" "famez_adapter_list small_sys = []"
    by (simp_all add: small_sys_def demo_sys_def demo_probe_def)
  have e: "drvdata ?d = None" "\<not> regions ?d" "pci_request_regions demo_pci \<le> 0" "\<not> pci_enable_device demo_pci < 0"
    "\<not> (revision demo_pci \<noteq> 1 \<or> \<not> msix_cap demo_pci \<or> \<not> pci_resource_start_1 demo_pci)"
    by (simp_all add: small_sys_def demo_sys_def untaken_def demo_pci_def)
  have ok: "probe_ok demo_probe 0 small_sys"
    using demo_probe_ok small_mailbox_ready by (simp add: probe_ok_def small_sys_def list_ok_def)
  obtain addr a h' d' w' where c: "famez_adapter_create demo_pci 0 (demo_heap 9) ?d small_world = Some (Inr (addr, a), h', d', w')"
    and k: "k_ok h' (k_next h')" using small_create [of True] unfolding d by blast
  have cr: "adapter_created demo_pci 0 (demo_heap 9) ?d small_world (Inr (addr, a)) h' d' w'"
    using adapter_create_result [OF demo_heap_wf(1) e(1-3), of 0 9 small_world] c by auto
  have g: "bar2_globals w' = demo_globals\<lparr>slotsize := 144\<rparr>" "adapter_ready a w'"
    using create_makes_ready [OF small_mailbox_ready cr] by (simp_all add: small_world_def)
  have "\<exists>a3 h3 s3. famez_ISR_setup demo_irq_env a w' h' (irq_states small_sys 0) = Some (0, a3, h3, s3)"
    using k g by (intro ISR_setup_succeeds [of a demo_irq_env w' h' 6])
      (simp_all add: adapter_ready_def adapter_inv_def demo_globals_def demo_irq_env_def to_u64_def)
  then obtain a3 h3 s3 where st: "famez_ISR_setup demo_irq_env a w' h' (irq_states small_sys 0) = Some (0, a3, h3, s3)" by blast
  have "irq_of demo_probe 0 = demo_irq_env" by (simp add: demo_probe_def)
  then have st': "famez_ISR_setup (irq_of demo_probe 0) a w' h' (irq_states small_sys 0) = Some (0, a3, h3, s3)" using st by simp
  have u: "unat (slotsize (bar2_globals small_world)) \<le> 151" by (simp add: small_world_def)
  have n: "\<not> loc_listed demo_probe 0 [] small_sys" by (simp add: loc_listed_def)
  note f = failed_greeting_leaves_freed_adapter_listed [OF ok, unfolded d(2-5), OF e(4,5) c st' n u]
  then obtain y' where "famez_init_one demo_probe 0 small_sys = Some (- E2BIG, y')" "famez_adapter_list y' = [] @ [addr]"
    "addr \<notin> k_live (sys_heap y')" by (elim exE conjE)
  then show ?thesis by (intro exI [of _ addr] exI [of _ y']) simp
qed

end
