(* ===== verification/Genz_Class.thy ===== *)
theory Genz_Class
  imports Famez_Rollback
begin

text \<open>
  \<open>kernel/genz/genz_class.c\<close> and the component class encodings of
  \<open>kernel/genz/genz_baseline.h\<close>: the table of device classes, its bounds-checked lookup,
  and registering all classes with the driver core or none. The set of registered classes
  is a set of table indices; unregistering a class that is not registered is a kernel bug
  without a result.
\<close>

section \<open>Encodings and classes\<close>

datatype genz_component_class_encodings =
    GENZ_CCE_RESERVED_SHALL_NOT_BE_USED | GENZ_CCE_MEMORY_P2P_CORE | GENZ_CCE_MEMORY_EXPLICIT_OPCLASS
  | GENZ_CCE_INTEGRATED_SWITCH | GENZ_CCE_ENC_EXP_SWITCH | GENZ_CCE_FABRIC_SWITCH
  | GENZ_CCE_PROCESSOR | GENZ_CCE_PROCESSOR_NB
  | GENZ_CCE_ACCELERATOR_NB_NC | GENZ_CCE_ACCELERATOR_NB | GENZ_CCE_ACCELERATOR_NC | GENZ_CCE_ACCELERATOR
  | GENZ_CCE_IO_NB_NC | GENZ_CCE_IO_NB | GENZ_CCE_IO_NC | GENZ_CCE_IO
  | GENZ_CCE_BLOCK_STORAGE | GENZ_CCE_BLOCK_STORAGE_NB | GENZ_CCE_TRANSPARENT_ROUTER | GENZ_CCE_MULTI_CLASS
  | GENZ_CCE_DISCRETE_BRIDGE | GENZ_CCE_INTEGRATED_BRIDGE

primrec CCE_value :: "genz_component_class_encodings \<Rightarrow> u32" where
  "CCE_value GENZ_CCE_RESERVED_SHALL_NOT_BE_USED = 0x0"
| "CCE_value GENZ_CCE_MEMORY_P2P_CORE = 0x1"
| "CCE_value GENZ_CCE_MEMORY_EXPLICIT_OPCLASS = 0x2"
| "CCE_value GENZ_CCE_INTEGRATED_SWITCH = 0x3"
| "CCE_value GENZ_CCE_ENC_EXP_SWITCH = 0x4"
| "CCE_value GENZ_CCE_FABRIC_SWITCH = 0x5"
| "CCE_value GENZ_CCE_PROCESSOR = 0x6"
| "CCE_value GENZ_CCE_PROCESSOR_NB = 0x7"
| "CCE_value GENZ_CCE_ACCELERATOR_NB_NC = 0x8"
| "CCE_value GENZ_CCE_ACCELERATOR_NB = 0x9"
| "CCE_value GENZ_CCE_ACCELERATOR_NC = 0xA"
| "CCE_value GENZ_CCE_ACCELERATOR = 0xB"
| "CCE_value GENZ_CCE_IO_NB_NC = 0xC"
| "CCE_value GENZ_CCE_IO_NB = 0xD"
| "CCE_value GENZ_CCE_IO_NC = 0xE"
| "CCE_value GENZ_CCE_IO = 0xF"
| "CCE_value GENZ_CCE_BLOCK_STORAGE = 0x10"
| "CCE_value GENZ_CCE_BLOCK_STORAGE_NB = 0x11"
| "CCE_value GENZ_CCE_TRANSPARENT_ROUTER = 0x12"
| "CCE_value GENZ_CCE_MULTI_CLASS = 0x13"
| "CCE_value GENZ_CCE_DISCRETE_BRIDGE = 0x14"
| "CCE_value GENZ_CCE_INTEGRATED_BRIDGE = 0x15"

text \<open>The names of the table; the empty entry that ends it is \<open>None\<close>.\<close>

definition genz_class_names :: "string list" where
  "genz_class_names =
    [''RESERVED'', ''genz_memory_p2p'', ''genz_memory_explicit'', ''genz_switch_integrated'',
     ''genz_switch_enclosure'', ''genz_switch_fabric'', ''genz_processor'', ''genz_processor_nb'',
     ''genz_accelerator_nb_nc'', ''genz_accelerator_nb'', ''genz_accelerator_nc'', ''genz_accelerator'',
     ''genz_io_nb_nc'', ''genz_io_nb'', ''genz_io_nc'', ''genz_io'', ''genz_block'', ''genz_block_nb'',
     ''genz_tr'', ''genz_multiclass'', ''genz_bridge_discrete'', ''genz_bridge_integrated'']"

definition genz_classes :: "string option list" where
  "genz_classes = map Some genz_class_names @ [None]"

definition maxindex :: u32 where
  "maxindex = of_nat (length genz_classes) - 2"

text \<open>A pointer into the table is its index, \<open>None\<close> for NULL.\<close>

definition genz_class_getter :: "u32 \<Rightarrow> nat option" where
  "genz_class_getter index = (if index \<noteq> 0 \<and> index \<le> maxindex then Some (unat index) else None)"

section \<open>Registration\<close>

record class_state =
  class_names :: "nat set"

definition class_register :: "(nat \<Rightarrow> int) \<Rightarrow> nat \<Rightarrow> class_state \<Rightarrow> int \<times> class_state" where
  "class_register reg i s = (reg i, if reg i = 0 then s\<lparr>class_names := insert i (class_names s)\<rparr> else s)"

definition class_unregister :: "nat \<Rightarrow> class_state \<Rightarrow> class_state option" where
  "class_unregister i s =
     (if i \<in> class_names s then Some (s\<lparr>class_names := class_names s - {i}\<rparr>) else None)"

text \<open>\<open>for (i = 1; genz_classes[i].name; i++)\<close>\<close>

definition class_indices :: "nat list" where
  "class_indices = takeWhile (\<lambda>i. genz_classes ! i \<noteq> None) [1..<length genz_classes]"

definition genz_classes_init :: "(nat \<Rightarrow> int) \<Rightarrow> class_state \<Rightarrow> (int \<times> class_state) option" where
  "genz_classes_init reg s =
     (case acquire_all (class_register reg) class_indices s of
        (ret, got, s1) \<Rightarrow>
          if ret \<noteq> 0 then do {
            s2 \<leftarrow> release_all class_unregister (rev got) s1;
            Some (ret, s2)
          }
          else Some (0, s1))"

definition genz_classes_destroy :: "class_state \<Rightarrow> class_state option" where
  "genz_classes_destroy s = release_all class_unregister class_indices s"

interpretation classes: rollback "class_register reg" class_unregister class_names "\<lambda>H s. s\<lparr>class_names := H\<rparr>"
  by unfold_locales (auto simp: class_register_def class_unregister_def split: if_splits)

section \<open>Lemmas\<close>

lemma length_genz_class_names [simp]: "length genz_class_names = 22"
  by (simp add: genz_class_names_def)

lemma genz_classes_named: "i < 23 \<Longrightarrow> genz_classes ! i = None \<longleftrightarrow> i = 22"
  by (auto simp: genz_classes_def nth_append)

lemma class_indices_eq: "class_indices = [1..<22]"
proof -
  have "length genz_classes = Suc 22" by (simp add: genz_classes_def)
  moreover have "[1..<Suc 22] = [1..<22] @ [22]" by (rule upt_Suc_append) simp
  moreover have "takeWhile (\<lambda>i. genz_classes ! i \<noteq> None) ([1..<22] @ [22])
      = [1..<22] @ takeWhile (\<lambda>i. genz_classes ! i \<noteq> None) [22]"
    using genz_classes_named by (intro takeWhile_append2) auto
  ultimately show ?thesis using genz_classes_named [of 22] unfolding class_indices_def by (simp del: upt_rec_numeral)
qed

lemma maxindex_eq: "maxindex = 21"
  by (simp add: maxindex_def genz_classes_def)

lemma classes_ret:
  "acquire_all (class_register reg) ks t = (r, g, t') \<Longrightarrow>
    if r = 0 then \<forall>i \<in> set ks. reg i = 0 else \<exists>i \<in> set ks. reg i = r"
proof (induction ks arbitrary: t r g t')
  case (Cons k ks)
  obtain r2 g2 t2 where b: "acquire_all (class_register reg) ks (snd (class_register reg k t)) = (r2, g2, t2)"
    by (metis prod_cases3)
  show ?case
  proof (cases "reg k = 0")
    case True
    then have c: "class_register reg k t = (0, snd (class_register reg k t))" by (simp add: class_register_def)
    with b Cons.prems have "r = r2" by (auto split: prod.splits)
    with Cons.IH [OF b] True show ?thesis by auto
  qed (use Cons.prems in \<open>auto simp: class_register_def\<close>)
qed simp

text \<open>All classes or none.\<close>

lemma classes_init_result:
  assumes "class_names s = {}"
  shows "\<exists>ret s'. genz_classes_init reg s = Some (ret, s') \<and>
    (if ret = 0 then s' = s\<lparr>class_names := {1..<22}\<rparr> \<and> (\<forall>i \<in> {1..<22}. reg i = 0)
     else s' = s \<and> (\<exists>i \<in> {1..<22}. reg i = ret))"
proof -
  obtain ret got s1 where a: "acquire_all (class_register reg) class_indices s = (ret, got, s1)"
    by (metis prod_cases3)
  note r = classes_ret [OF a, unfolded class_indices_eq]
  show ?thesis
  proof (cases "ret = 0")
    case True
    then have "got = class_indices" using acquire_all_prefix [OF a] by auto
    then show ?thesis using True a r classes.acquire_all_state [OF a] assms
      by (auto simp: genz_classes_init_def class_indices_eq)
  next
    case False
    obtain rest where "class_indices = got @ rest" using acquire_all_prefix [OF a] by blast
    then have "distinct got" using class_indices_eq by (metis distinct_append distinct_upt)
    then have "release_all class_unregister (rev got) s1 = Some s"
      using classes.rollback_restores [OF _ _ a, of "rev got"] assms by (simp add: class_indices_eq)
    then show ?thesis using False a r by (auto simp: genz_classes_init_def)
  qed
qed

lemma classes_destroy_result:
  assumes "class_names s = {1..<22}"
  shows "genz_classes_destroy s = Some (s\<lparr>class_names := {}\<rparr>)"
  using classes.release_all_state [of class_indices s] assms
  by (simp add: genz_classes_destroy_def class_indices_eq)

section \<open>Properties\<close>

text \<open>
  C26. Registering the classes always returns and is all or nothing: either all
  twenty-one classes are registered, and unregistering them restores the state, or the
  error of the class that failed is returned and none is left registered.
\<close>

theorem classes_all_or_nothing:
  assumes "class_names s = {}"
  shows "\<exists>ret s'. genz_classes_init reg s = Some (ret, s') \<and>
    (if ret = 0 then class_names s' = {1..<22} \<and> genz_classes_destroy s' = Some s
     else s' = s \<and> (\<exists>i \<in> {1..<22}. reg i = ret))"
proof -
  obtain ret s' where r: "genz_classes_init reg s = Some (ret, s')"
    "if ret = 0 then s' = s\<lparr>class_names := {1..<22}\<rparr> \<and> (\<forall>i \<in> {1..<22}. reg i = 0)
     else s' = s \<and> (\<exists>i \<in> {1..<22}. reg i = ret)"
    using classes_init_result [OF assms, of reg] by blast
  have "s\<lparr>class_names := {}\<rparr> = s" using assms by simp
  then show ?thesis using r classes_destroy_result [of s'] by (cases "ret = 0") auto
qed

theorem classes_all_or_nothing_witness:
  "\<exists>ret s'. genz_classes_init (\<lambda>i. if i = 3 then - 12 else 0) \<lparr>class_names = {}\<rparr> = Some (ret, s') \<and>
    (if ret = 0 then class_names s' = {1..<22} \<and> genz_classes_destroy s' = Some \<lparr>class_names = {}\<rparr>
     else s' = \<lparr>class_names = {}\<rparr> \<and> (\<exists>i \<in> {1..<22}. (if i = (3::nat) then - 12 else 0) = ret))"
  by (rule classes_all_or_nothing) simp

text \<open>
  Every component class encoding but the reserved one has an entry of the class table
  at its own value, and the lookup gives no other entries: its results are exactly the
  entries 1 to 21, never the reserved one nor the terminator.
\<close>

theorem class_of_every_encoding:
  "genz_class_getter (CCE_value e) =
     (if e = GENZ_CCE_RESERVED_SHALL_NOT_BE_USED then None else Some (unat (CCE_value e))) \<and>
   (genz_class_getter i = Some n \<longleftrightarrow> n = unat i \<and> 1 \<le> n \<and> n \<le> 21) \<and>
   (1 \<le> n \<and> n \<le> 21 \<longrightarrow> genz_classes ! n = Some (genz_class_names ! n))"
proof (intro conjI)
  show "genz_class_getter (CCE_value e) =
      (if e = GENZ_CCE_RESERVED_SHALL_NOT_BE_USED then None else Some (unat (CCE_value e)))"
    by (cases e) (simp_all add: genz_class_getter_def maxindex_eq)
  have "i \<noteq> 0 \<longleftrightarrow> 1 \<le> unat i" by (simp add: Suc_le_eq unat_gt_0)
  then show "genz_class_getter i = Some n \<longleftrightarrow> n = unat i \<and> 1 \<le> n \<and> n \<le> 21"
    by (auto simp: genz_class_getter_def maxindex_eq word_le_nat_alt)
  show "1 \<le> n \<and> n \<le> 21 \<longrightarrow> genz_classes ! n = Some (genz_class_names ! n)"
    by (simp add: genz_classes_def nth_append)
qed

theorem class_of_every_encoding_witness:
  "genz_class_getter (CCE_value GENZ_CCE_DISCRETE_BRIDGE) = Some 20 \<and> genz_classes ! 20 = Some ''genz_bridge_discrete''"
  using class_of_every_encoding [where e = GENZ_CCE_DISCRETE_BRIDGE and n = 20] by (simp add: genz_class_names_def)

end
