(* ===== verification/Genz_Device.thy ===== *)
theory Genz_Device
  imports Genz_Core Genz_Class
begin

text \<open>
  \<open>genz_register_bridge\<close> of \<open>kernel/genz/genz_device.c\<close> and the wrapper of
  \<open>kernel/genz/genz_device.h\<close>: a bridge gets the first free minor number, a character
  device and a device node; its private data is found again when the node is opened.

  The record \<open>chr_env\<close> is what the character-device and driver core answer. The file's
  static variables and the kernel's tables (regions, character devices by device number,
  device nodes) are \<open>genz_dev_state\<close>. A character device stores the address of its
  wrapper; opening a device whose wrapper has been freed has no result.
\<close>

section \<open>Data\<close>

record chr_env =
  register_chrdev_region :: "u32 \<Rightarrow> int"
  alloc_chrdev_region :: "nat \<Rightarrow> int \<times> u32"
  kobject_set_name :: "string \<Rightarrow> int"
  cdev_add :: "u32 \<Rightarrow> int"
  device_create_with_groups :: "u32 \<Rightarrow> int"

record genz_char_device =
  file_private_data :: "nat option"
  genz_class :: "nat option"
  cdev_dev :: u32
  cdev_name :: string

record genz_dev_state =
  bridge_mutex :: bool
  bridge_minor_bitmap :: "nat set"
  bridge_major :: u64
  chrdev_regions :: "u32 set"
  cdevs :: "u32 \<Rightarrow> (nat \<times> genz_char_device) option"
  device_nodes :: "(u32 \<times> string) list"

definition GENZ_MINORBITS :: nat where "GENZ_MINORBITS = 14"

definition MAXMINORS :: nat where "MAXMINORS = 2 ^ GENZ_MINORBITS"

text \<open>\<open>MKDEV\<close> and \<open>MAJOR\<close> of \<open>linux/kdev_t.h\<close>.\<close>

definition MKDEV :: "u64 \<Rightarrow> nat \<Rightarrow> u32" where
  "MKDEV ma mi = ucast (push_bit 20 ma OR of_nat mi)"

definition MAJOR :: "u32 \<Rightarrow> u64" where
  "MAJOR dev = ucast (drop_bit 20 dev)"

definition find_first_zero_bit :: "nat set \<Rightarrow> nat \<Rightarrow> nat" where
  "find_first_zero_bit B n = (case find (\<lambda>i. i \<notin> B) [0..<n] of None \<Rightarrow> n | Some i \<Rightarrow> i)"

section \<open>Operations\<close>

text \<open>The label \<open>up_and_out\<close>.\<close>

definition up_and_out ::
  "int \<Rightarrow> nat option \<Rightarrow> kheap \<Rightarrow> genz_dev_state \<Rightarrow> (int \<times> kheap \<times> genz_dev_state) option" where
  "up_and_out ret wrapper h s = do {
     h1 \<leftarrow> (if ret \<noteq> 0 then kfree wrapper h else Some h);
     l \<leftarrow> mutex_unlock (bridge_mutex s);
     Some (ret, h1, s\<lparr>bridge_mutex := l\<rparr>)
   }"

text \<open>Reserving the region: the major number is allocated with the first bridge.\<close>

definition bridge_region :: "chr_env \<Rightarrow> nat \<Rightarrow> genz_dev_state \<Rightarrow> int \<times> genz_dev_state" where
  "bridge_region E minor s =
     (if bridge_major s \<noteq> 0 then
        (let dev = MKDEV (bridge_major s) minor; ret = register_chrdev_region E dev in
         (ret, if ret = 0 then s\<lparr>chrdev_regions := insert dev (chrdev_regions s)\<rparr> else s))
      else
        (case alloc_chrdev_region E minor of
           (ret, dev) \<Rightarrow>
             (ret, if ret = 0 then s\<lparr>chrdev_regions := insert dev (chrdev_regions s), bridge_major := MAJOR dev\<rparr>
                   else s)))"

definition genz_register_bridge ::
  "chr_env \<Rightarrow> string \<Rightarrow> u32 \<Rightarrow> nat option \<Rightarrow> kheap \<Rightarrow> genz_dev_state \<Rightarrow> (int \<times> kheap \<times> genz_dev_state) option" where
  "genz_register_bridge E devname cce priv h s =
     (if cce < CCE_value GENZ_CCE_DISCRETE_BRIDGE \<or> cce > CCE_value GENZ_CCE_INTEGRATED_BRIDGE
      then Some (- EDOM, h, s)
      else do {
        l \<leftarrow> mutex_lock (bridge_mutex s);
        let s0 = s\<lparr>bridge_mutex := l\<rparr>;
        let minor = find_first_zero_bit (bridge_minor_bitmap s0) GENZ_MINORBITS;
        if minor \<ge> GENZ_MINORBITS then up_and_out (- EDOM) None h s0
        else case bridge_region E minor s0 of (ret, s1) \<Rightarrow>
          if ret \<noteq> 0 then up_and_out ret None h s1
          else
            let s2 = s1\<lparr>bridge_minor_bitmap := insert minor (bridge_minor_bitmap s1)\<rparr> in
            case kzalloc h of
              (None, h1) \<Rightarrow> up_and_out (- ENOMEM) None h1 s2
            | (Some wp, h1) \<Rightarrow>
                let dev = MKDEV (bridge_major s2) minor in
                if kobject_set_name E devname \<noteq> 0 then up_and_out (kobject_set_name E devname) (Some wp) h1 s2
                else
                  let wrapper = \<lparr>file_private_data = None,
                        genz_class = genz_class_getter (CCE_value GENZ_CCE_DISCRETE_BRIDGE),
                        cdev_dev = dev, cdev_name = devname\<rparr> in
                  if cdev_add E dev \<noteq> 0 then up_and_out (cdev_add E dev) (Some wp) h1 s2
                  else
                    let s3 = s2\<lparr>cdevs := (cdevs s2)(dev \<mapsto> (wp, wrapper\<lparr>file_private_data := priv\<rparr>))\<rparr> in
                    if device_create_with_groups E dev < 0
                    then up_and_out (device_create_with_groups E dev) (Some wp) h1 s3
                    else up_and_out 0 (Some wp) h1 (s3\<lparr>device_nodes := device_nodes s3 @ [(dev, devname)]\<rparr>)
      })"

text \<open>The private data of the device behind an open file: \<open>container_of\<close> its \<open>cdev\<close>.\<close>

definition genz_char_drv_1stopen_private_data :: "u32 \<Rightarrow> kheap \<Rightarrow> genz_dev_state \<Rightarrow> nat option option" where
  "genz_char_drv_1stopen_private_data dev h s = do {
     (wp, wrapper) \<leftarrow> cdevs s dev;
     if wp \<in> k_live h then Some (file_private_data wrapper) else None
   }"

section \<open>Lemmas\<close>

lemma first_zero_bit_cases:
  "find_first_zero_bit B n < n \<Longrightarrow> find_first_zero_bit B n \<notin> B"
  "find_first_zero_bit B n \<ge> n \<longleftrightarrow> {..<n} \<subseteq> B"
  by (auto simp: find_first_zero_bit_def find_None_iff find_Some_iff split: option.splits)

lemma bit_small: "m < 2 ^ k \<Longrightarrow> bit (m :: nat) n \<Longrightarrow> n < k"
  by (metis bit_take_bit_iff take_bit_nat_eq_self)

lemma take_bit_MKDEV: "mi < 2 ^ 20 \<Longrightarrow> take_bit 20 (MKDEV ma mi) = of_nat mi"
proof (rule bit_eqI)
  fix n
  assume "mi < 2 ^ 20"
  then have "bit mi n \<Longrightarrow> n < 20" by (rule bit_small)
  then show "bit (take_bit 20 (MKDEV ma mi)) n = bit (of_nat mi :: u32) n"
    by (auto simp: MKDEV_def bit_simps)
qed

lemma MAJOR_MKDEV:
  assumes "ma < 4096" and "mi < 2 ^ 20"
  shows "MAJOR (MKDEV ma mi) = ma"
proof (rule bit_eqI)
  fix n
  have "unat ma < 2 ^ 12" using assms(1) by (simp add: word_less_nat_alt)
  then have "bit ma n \<Longrightarrow> n < 12" using bit_small [of "unat ma" 12 n] by (simp add: bit_simps)
  moreover have "\<not> bit mi (20 + n)" using bit_small [OF assms(2), of "20 + n"] by auto
  ultimately show "bit (MAJOR (MKDEV ma mi)) n = bit ma n"
    by (auto simp: MAJOR_def MKDEV_def bit_simps)
qed

lemma MKDEV_inj: "i < 14 \<Longrightarrow> j < 14 \<Longrightarrow> MKDEV ma i = MKDEV ma' j \<Longrightarrow> i = j"
proof -
  assume i: "i < 14" "j < 14" and eq: "MKDEV ma i = MKDEV ma' j"
  have "(of_nat i :: u32) = of_nat j"
    using take_bit_MKDEV [of i ma] take_bit_MKDEV [of j ma'] i eq by simp
  then have "unat (of_nat i :: u32) = unat (of_nat j :: u32)" by simp
  then show "i = j" using i by (simp add: unat_of_nat)
qed

text \<open>
  Documented behaviour: an allocated region has a major number that is not 0 and fits the
  twelve bits of a device number, and the minor that was asked for; errors are negative.
\<close>

definition chr_env_ok :: "chr_env \<Rightarrow> bool" where
  "chr_env_ok E \<longleftrightarrow>
     (\<forall>mi dev. alloc_chrdev_region E mi = (0, dev) \<longrightarrow> (\<exists>ma. 0 < ma \<and> ma < 4096 \<and> dev = MKDEV ma mi)) \<and>
     (\<forall>mi. fst (alloc_chrdev_region E mi) \<le> 0) \<and> (\<forall>dev. register_chrdev_region E dev \<le> 0) \<and>
     (\<forall>t. kobject_set_name E t \<le> 0) \<and> (\<forall>dev. cdev_add E dev \<le> 0) \<and>
     (\<forall>dev. device_create_with_groups E dev \<le> 0)"

lemma region_ret: "chr_env_ok E \<Longrightarrow> bridge_region E mi s = (ret, s') \<Longrightarrow> ret \<le> 0"
  by (auto simp: chr_env_ok_def bridge_region_def Let_def split: if_splits prod.splits) (metis fst_conv)+

text \<open>The state between two calls: every device has a minor of its own and a live wrapper.\<close>

definition bridge_inv :: "kheap \<Rightarrow> genz_dev_state \<Rightarrow> bool" where
  "bridge_inv h s \<longleftrightarrow> wf_heap h \<and> \<not> bridge_mutex s \<and> bridge_minor_bitmap s \<subseteq> {..<14} \<and>
     (\<forall>dev wp wr. cdevs s dev = Some (wp, wr) \<longrightarrow>
        wp \<in> k_live h \<and> (\<exists>ma. \<exists>mi \<in> bridge_minor_bitmap s. dev = MKDEV ma mi))"

definition bridge_class :: "u32 \<Rightarrow> bool" where
  "bridge_class cce \<longleftrightarrow> cce = CCE_value GENZ_CCE_DISCRETE_BRIDGE \<or> cce = CCE_value GENZ_CCE_INTEGRATED_BRIDGE"

lemma bridge_class_iff:
  "\<not> (cce < CCE_value GENZ_CCE_DISCRETE_BRIDGE \<or> cce > CCE_value GENZ_CCE_INTEGRATED_BRIDGE) \<longleftrightarrow> bridge_class cce"
proof -
  have "\<not> (cce < 0x14 \<or> cce > 0x15) \<longleftrightarrow> unat cce = 20 \<or> unat cce = 21"
    by (auto simp: word_less_nat_alt)
  also have "\<dots> \<longleftrightarrow> cce = 0x14 \<or> cce = 0x15"
    using word_unat_eq_iff [of cce "0x14"] word_unat_eq_iff [of cce "0x15"] by simp
  finally show ?thesis by (simp add: bridge_class_def)
qed

lemma region_keeps:
  "bridge_region E mi s = (ret, s') \<Longrightarrow>
    cdevs s' = cdevs s \<and> bridge_minor_bitmap s' = bridge_minor_bitmap s \<and> bridge_mutex s' = bridge_mutex s \<and>
    device_nodes s' = device_nodes s"
  by (auto simp: bridge_region_def Let_def split: if_splits prod.splits)

text \<open>The calls in the order the code makes them, once a minor and a region are reserved.\<close>

lemma register_bridge_steps:
  assumes inv: "bridge_inv h s" and cls: "bridge_class cce"
    and mi: "mi = find_first_zero_bit (bridge_minor_bitmap s) 14" "mi < 14"
    and reg: "bridge_region E mi (s\<lparr>bridge_mutex := True\<rparr>) = (0, s1)"
    and al: "kzalloc h = (Some wp, h1)" and dev: "dev = MKDEV (bridge_major s1) mi"
    and wr: "wr = \<lparr>file_private_data = priv, genz_class = Some 20, cdev_dev = dev, cdev_name = devname\<rparr>"
  shows "genz_register_bridge E devname cce priv h s =
    (let s2 = s1\<lparr>bridge_minor_bitmap := insert mi (bridge_minor_bitmap s)\<rparr>;
         s3 = s2\<lparr>cdevs := (cdevs s)(dev \<mapsto> (wp, wr))\<rparr> in
     if kobject_set_name E devname \<noteq> 0 then up_and_out (kobject_set_name E devname) (Some wp) h1 s2
     else if cdev_add E dev \<noteq> 0 then up_and_out (cdev_add E dev) (Some wp) h1 s2
     else if device_create_with_groups E dev < 0 then up_and_out (device_create_with_groups E dev) (Some wp) h1 s3
     else up_and_out 0 (Some wp) h1 (s3\<lparr>device_nodes := device_nodes s @ [(dev, devname)]\<rparr>))"
proof -
  have l: "\<not> bridge_mutex s" using inv by (simp add: bridge_inv_def)
  have c: "genz_class_getter (CCE_value GENZ_CCE_DISCRETE_BRIDGE) = Some 20"
    by (simp add: genz_class_getter_def maxindex_eq)
  have k: "cdevs s1 = cdevs s" "bridge_minor_bitmap s1 = bridge_minor_bitmap s" "device_nodes s1 = device_nodes s"
    using region_keeps [OF reg] by simp_all
  show ?thesis
    using cls [folded bridge_class_iff] l mi reg al
    unfolding genz_register_bridge_def Let_def GENZ_MINORBITS_def
    by (simp add: k c dev wr del: CCE_value.simps)
qed

lemma up_and_out_run:
  "bridge_mutex s \<Longrightarrow> up_and_out 0 wp h s = Some (0, h, s\<lparr>bridge_mutex := False\<rparr>)"
  "bridge_mutex s \<Longrightarrow> ret \<noteq> 0 \<Longrightarrow> up_and_out ret None h s = Some (ret, h, s\<lparr>bridge_mutex := False\<rparr>)"
  "bridge_mutex s \<Longrightarrow> ret \<noteq> 0 \<Longrightarrow> w \<in> k_live h \<Longrightarrow>
    up_and_out ret (Some w) h s = Some (ret, h\<lparr>k_live := k_live h - {w}\<rparr>, s\<lparr>bridge_mutex := False\<rparr>)"
  by (simp_all add: up_and_out_def)

text \<open>The ways a call ends before the wrapper exists.\<close>

lemma register_bridge_early:
  assumes inv: "bridge_inv h s" and cls: "bridge_class cce"
    and mi: "mi = find_first_zero_bit (bridge_minor_bitmap s) 14"
    and reg: "bridge_region E mi (s\<lparr>bridge_mutex := True\<rparr>) = (ret, s1)"
  shows "\<not> mi < 14 \<Longrightarrow> genz_register_bridge E devname cce priv h s = Some (- EDOM, h, s)"
    and "mi < 14 \<Longrightarrow> ret \<noteq> 0 \<Longrightarrow>
      genz_register_bridge E devname cce priv h s = Some (ret, h, s1\<lparr>bridge_mutex := False\<rparr>)"
    and "mi < 14 \<Longrightarrow> ret = 0 \<Longrightarrow> kzalloc h = (None, h1) \<Longrightarrow>
      genz_register_bridge E devname cce priv h s = Some (- ENOMEM, h1,
        s1\<lparr>bridge_minor_bitmap := insert mi (bridge_minor_bitmap s), bridge_mutex := False\<rparr>)"
proof -
  have l: "\<not> bridge_mutex s" using inv by (simp add: bridge_inv_def)
  have k: "bridge_minor_bitmap s1 = bridge_minor_bitmap s" "bridge_mutex s1"
    using region_keeps [OF reg] by simp_all
  have "s\<lparr>bridge_mutex := False\<rparr> = s" using l by simp
  then show "\<not> mi < 14 \<Longrightarrow> genz_register_bridge E devname cce priv h s = Some (- EDOM, h, s)"
    and "mi < 14 \<Longrightarrow> ret \<noteq> 0 \<Longrightarrow>
      genz_register_bridge E devname cce priv h s = Some (ret, h, s1\<lparr>bridge_mutex := False\<rparr>)"
    and "mi < 14 \<Longrightarrow> ret = 0 \<Longrightarrow> kzalloc h = (None, h1) \<Longrightarrow>
      genz_register_bridge E devname cce priv h s = Some (- ENOMEM, h1,
        s1\<lparr>bridge_minor_bitmap := insert mi (bridge_minor_bitmap s), bridge_mutex := False\<rparr>)"
    using cls [folded bridge_class_iff] l mi reg k
    unfolding genz_register_bridge_def Let_def GENZ_MINORBITS_def
    by (simp_all add: up_and_out_run del: CCE_value.simps)
qed

text \<open>
  Every call returns. A failing one keeps no memory and creates no node; a successful one
  adds a device under a new number that opens with the caller's private data, and leaves
  all other devices as they were.
\<close>

definition bridge_registered ::
  "nat option \<Rightarrow> string \<Rightarrow> kheap \<Rightarrow> genz_dev_state \<Rightarrow> kheap \<Rightarrow> genz_dev_state \<Rightarrow> bool" where
  "bridge_registered priv devname h s h' s' \<longleftrightarrow> bridge_inv h' s' \<and> k_live h \<subseteq> k_live h' \<and>
     (\<exists>dev. cdevs s dev = None \<and> genz_char_drv_1stopen_private_data dev h' s' = Some priv \<and>
        device_nodes s' = device_nodes s @ [(dev, devname)] \<and>
        (\<forall>dev'. dev' \<noteq> dev \<longrightarrow> cdevs s' dev' = cdevs s dev'))"

lemma registered_state:
  assumes inv: "bridge_inv h s" and keep: "cdevs s1 = cdevs s" "device_nodes s1 = device_nodes s"
    and w: "k_live h1 = insert wp (k_live h)" "wf_heap h1" and "mi < 14" and dev: "dev = MKDEV ma mi"
    and new: "cdevs s dev = None" and wr: "file_private_data wr = priv"
  shows "bridge_registered priv devname h s h1
    (s1\<lparr>bridge_minor_bitmap := insert mi (bridge_minor_bitmap s), cdevs := (cdevs s)(dev \<mapsto> (wp, wr)),
        device_nodes := device_nodes s @ [(dev, devname)], bridge_mutex := False\<rparr>)" (is "bridge_registered _ _ _ _ _ ?s")
proof -
  have "wp' \<in> k_live h1 \<and> (\<exists>ma. \<exists>mi' \<in> insert mi (bridge_minor_bitmap s). d = MKDEV ma mi')"
    if "((cdevs s)(dev \<mapsto> (wp, wr))) d = Some (wp', wr')" for d wp' wr'
  proof (cases "d = dev")
    case False
    with that have "cdevs s d = Some (wp', wr')" by simp
    with inv show ?thesis unfolding bridge_inv_def w(1) by blast
  qed (use that w dev in auto)
  then have "bridge_inv h1 ?s"
    using inv w(2) \<open>mi < 14\<close> unfolding bridge_inv_def by simp
  then show ?thesis
    using w(1) new wr unfolding bridge_registered_def genz_char_drv_1stopen_private_data_def
    by (auto intro!: exI [of _ dev])
qed

lemma register_bridge_result:
  assumes inv: "bridge_inv h s" and E: "chr_env_ok E" and cls: "bridge_class cce"
  shows "\<exists>ret h' s'. genz_register_bridge E devname cce priv h s = Some (ret, h', s') \<and>
    (if ret = 0 then bridge_registered priv devname h s h' s'
     else ret < 0 \<and> k_live h' = k_live h \<and> \<not> bridge_mutex s' \<and> wf_heap h' \<and> device_nodes s' = device_nodes s)"
proof -
  define mi where "mi = find_first_zero_bit (bridge_minor_bitmap s) 14"
  obtain ret s1 where reg: "bridge_region E mi (s\<lparr>bridge_mutex := True\<rparr>) = (ret, s1)" by (metis surj_pair)
  obtain p h1 where al: "kzalloc h = (p, h1)" by (metis surj_pair)
  have wf: "wf_heap h" "\<not> bridge_mutex s" using inv by (simp_all add: bridge_inv_def)
  note keep = region_keeps [OF reg]
  note early = register_bridge_early [OF inv cls mi_def reg, where devname = devname and priv = priv]
  consider "\<not> (mi < 14 \<and> ret = 0)" | "mi < 14" "ret = 0" "p = None" | wp where "mi < 14" "ret = 0" "p = Some wp"
    by (cases p) auto
  then show ?thesis
  proof cases
    case 1
    then show ?thesis using early(1,2) wf keep region_ret [OF E reg] by (cases "mi < 14") auto
  next
    case 2
    then show ?thesis using early(3) al kzalloc_None [of h h1] kzalloc_wf [of h None h1] wf keep by auto
  next
    case 3
    define dev where "dev = MKDEV (bridge_major s1) mi"
    have reg0: "bridge_region E mi (s\<lparr>bridge_mutex := True\<rparr>) = (0, s1)" and al0: "kzalloc h = (Some wp, h1)"
      using reg al 3 by simp_all
    note run = register_bridge_steps [OF inv cls mi_def 3(1) reg0 al0 dev_def refl, of devname priv]
    have w: "wp \<notin> k_live h" "k_live h1 = insert wp (k_live h)" "wf_heap h1"
      using kzalloc_Some [of h wp h1] al 3 wf by simp_all
    have wf': "wf_heap (h1\<lparr>k_live := k_live h\<rparr>)" using w by (auto intro: wf_heap_shrink)
    have new: "cdevs s dev = None"
    proof (rule ccontr)
      assume "cdevs s dev \<noteq> None"
      then obtain ma mj where "mj \<in> bridge_minor_bitmap s" "dev = MKDEV ma mj" "mj < 14"
        using inv by (force simp: bridge_inv_def)
      then show False
        using MKDEV_inj [of mi mj "bridge_major s1" ma] 3(1) first_zero_bit_cases(1) [of "bridge_minor_bitmap s" 14]
        by (simp add: dev_def mi_def)
    qed
    have le: "device_create_with_groups E dev \<le> 0" "kobject_set_name E devname \<le> 0" "cdev_add E dev \<le> 0"
      using E by (simp_all add: chr_env_ok_def)
    show ?thesis
    proof (cases "kobject_set_name E devname \<noteq> 0 \<or> cdev_add E dev \<noteq> 0 \<or> device_create_with_groups E dev < 0")
      case True
      then show ?thesis
        unfolding run Let_def using w wf' keep le by (fastforce simp: up_and_out_run)
    next
      case False
      then show ?thesis
        unfolding run Let_def
        using registered_state [OF inv _ _ w(2,3) 3(1) dev_def new, of s1] keep by (simp add: up_and_out_run)
    qed
  qed
qed

text \<open>With a free minor, memory, and no error from the character-device core it succeeds.\<close>

definition chr_calls_succeed :: "chr_env \<Rightarrow> bool" where
  "chr_calls_succeed E \<longleftrightarrow> (\<forall>dev. register_chrdev_region E dev = 0) \<and> (\<forall>mi. fst (alloc_chrdev_region E mi) = 0) \<and>
     (\<forall>t. kobject_set_name E t = 0) \<and> (\<forall>dev. cdev_add E dev = 0) \<and> (\<forall>dev. device_create_with_groups E dev = 0)"

lemma region_succeeds: "chr_calls_succeed E \<Longrightarrow> fst (bridge_region E mi s) = 0"
  by (auto simp: chr_calls_succeed_def bridge_region_def Let_def split: prod.splits) (metis fst_conv)

lemma register_bridge_succeeds:
  assumes inv: "bridge_inv h s" and E: "chr_calls_succeed E" and cls: "bridge_class cce"
    and mem: "\<And>k. k_ok h k" and room: "card (bridge_minor_bitmap s) < 14"
  shows "\<exists>h' s'. genz_register_bridge E devname cce priv h s = Some (0, h', s') \<and> k_ok h' = k_ok h \<and>
    card (bridge_minor_bitmap s') = Suc (card (bridge_minor_bitmap s))"
proof -
  define mi where "mi = find_first_zero_bit (bridge_minor_bitmap s) 14"
  have fin: "finite (bridge_minor_bitmap s)" using inv by (auto simp: bridge_inv_def intro: finite_subset)
  have "\<not> {..<14} \<subseteq> bridge_minor_bitmap s" using card_mono [OF fin, of "{..<14}"] room by auto
  then have mi: "mi < 14" using first_zero_bit_cases(2) [of 14 "bridge_minor_bitmap s"] by (auto simp: mi_def not_le)
  then have new: "mi \<notin> bridge_minor_bitmap s" using first_zero_bit_cases(1) [of "bridge_minor_bitmap s" 14] by (simp add: mi_def)
  obtain s1 where reg: "bridge_region E mi (s\<lparr>bridge_mutex := True\<rparr>) = (0, s1)"
    using region_succeeds [OF E, of mi "s\<lparr>bridge_mutex := True\<rparr>"] by (metis prod.collapse)
  obtain wp h1 where al: "kzalloc h = (Some wp, h1)" and k: "k_ok h1 = k_ok h" using mem by (auto simp: kzalloc_def)
  show ?thesis
    unfolding register_bridge_steps [OF inv cls mi_def mi reg al refl refl, of devname priv] Let_def
    using E region_keeps [OF reg] new fin k by (simp add: chr_calls_succeed_def up_and_out_run)
qed

section \<open>Properties\<close>

definition demo_chr :: chr_env where
  "demo_chr = \<lparr>register_chrdev_region = (\<lambda>_. 0), alloc_chrdev_region = (\<lambda>mi. (0, MKDEV 240 mi)),
     kobject_set_name = (\<lambda>_. 0), cdev_add = (\<lambda>_. 0), device_create_with_groups = (\<lambda>_. 0)\<rparr>"

definition demo_genz :: genz_dev_state where
  "demo_genz = \<lparr>bridge_mutex = False, bridge_minor_bitmap = {}, bridge_major = 0, chrdev_regions = {},
     cdevs = (\<lambda>_. None), device_nodes = []\<rparr>"

lemma demo_chr_ok [simp]: "chr_env_ok demo_chr"
  by (auto simp: chr_env_ok_def demo_chr_def intro!: exI [of _ 240])

lemma demo_bridge_inv [simp]: "bridge_inv (demo_heap n) demo_genz"
  by (simp add: bridge_inv_def demo_genz_def)

text \<open>
  C22. Registering a bridge always returns with the mutex free. On success the bridge has
  a device number no device had, opening it yields the private data that was passed in,
  all other devices are as before, and the device is listed under its name. A failure
  keeps no memory and creates no device node.
\<close>

theorem register_bridge_opens:
  assumes "bridge_inv h s" and "chr_env_ok E" and "bridge_class cce"
  shows "\<exists>ret h' s'. genz_register_bridge E devname cce priv h s = Some (ret, h', s') \<and> \<not> bridge_mutex s' \<and>
    (if ret = 0
     then bridge_inv h' s' \<and> (\<exists>dev. cdevs s dev = None \<and> genz_char_drv_1stopen_private_data dev h' s' = Some priv \<and>
       device_nodes s' = device_nodes s @ [(dev, devname)] \<and> (\<forall>dev'. dev' \<noteq> dev \<longrightarrow> cdevs s' dev' = cdevs s dev'))
     else ret < 0 \<and> k_live h' = k_live h \<and> device_nodes s' = device_nodes s)"
proof -
  obtain ret h' s' where r: "genz_register_bridge E devname cce priv h s = Some (ret, h', s')"
    "if ret = 0 then bridge_registered priv devname h s h' s'
     else ret < 0 \<and> k_live h' = k_live h \<and> \<not> bridge_mutex s' \<and> wf_heap h' \<and> device_nodes s' = device_nodes s"
    using register_bridge_result [OF assms, of devname priv] by blast
  have "bridge_inv h' s' \<Longrightarrow> \<not> bridge_mutex s'" by (simp add: bridge_inv_def)
  with r show ?thesis by (cases "ret = 0") (auto simp: bridge_registered_def)
qed

theorem register_bridge_opens_witness:
  "\<exists>ret h' s'. genz_register_bridge demo_chr ''fzbridge_05'' (CCE_value GENZ_CCE_DISCRETE_BRIDGE) (Some 3) (demo_heap 9) demo_genz
      = Some (ret, h', s') \<and> \<not> bridge_mutex s' \<and>
    (if ret = 0
     then bridge_inv h' s' \<and> (\<exists>dev. cdevs demo_genz dev = None \<and> genz_char_drv_1stopen_private_data dev h' s' = Some (Some 3) \<and>
       device_nodes s' = device_nodes demo_genz @ [(dev, ''fzbridge_05'')] \<and> (\<forall>dev'. dev' \<noteq> dev \<longrightarrow> cdevs s' dev' = cdevs demo_genz dev'))
     else ret < 0 \<and> k_live h' = k_live (demo_heap 9) \<and> device_nodes s' = device_nodes demo_genz)"
  by (rule register_bridge_opens) (simp_all add: bridge_class_def)

text \<open>
  The search for a free minor number looks at \<open>GENZ_MINORBITS\<close> bits instead of
  \<open>MAXMINORS\<close>: after fourteen bridges every further one is refused, although the bitmap
  has room for 16384. A minor is never given back, not even when the registration fails
  after it was taken (here, for lack of memory).
\<close>

theorem minors_exhausted_after_14:
  assumes "bridge_inv h s" and "bridge_class cce"
  shows "({..<14} \<subseteq> bridge_minor_bitmap s \<longrightarrow>
      genz_register_bridge E devname cce priv h s = Some (- EDOM, h, s) \<and> 14 < MAXMINORS) \<and>
    (\<not> {..<14} \<subseteq> bridge_minor_bitmap s \<and> \<not> k_ok h (k_next h) \<and>
      fst (bridge_region E (find_first_zero_bit (bridge_minor_bitmap s) 14) (s\<lparr>bridge_mutex := True\<rparr>)) = 0 \<longrightarrow>
      (\<exists>h' s'. genz_register_bridge E devname cce priv h s = Some (- ENOMEM, h', s') \<and>
        bridge_minor_bitmap s' = insert (find_first_zero_bit (bridge_minor_bitmap s) 14) (bridge_minor_bitmap s)))"
proof -
  let ?mi = "find_first_zero_bit (bridge_minor_bitmap s) 14"
  obtain ret s1 where reg: "bridge_region E ?mi (s\<lparr>bridge_mutex := True\<rparr>) = (ret, s1)" by (metis surj_pair)
  note early = register_bridge_early [OF assms refl reg, where devname = devname and priv = priv]
  have "14 < MAXMINORS" by (simp add: MAXMINORS_def GENZ_MINORBITS_def)
  moreover have "?mi < 14 \<longleftrightarrow> \<not> {..<14} \<subseteq> bridge_minor_bitmap s"
    using first_zero_bit_cases(2) [of 14 "bridge_minor_bitmap s"] by linarith
  moreover have "\<exists>h' s'. genz_register_bridge E devname cce priv h s = Some (- ENOMEM, h', s') \<and>
      bridge_minor_bitmap s' = insert ?mi (bridge_minor_bitmap s)"
    if "?mi < 14" "ret = 0" "\<not> k_ok h (k_next h)"
    using early(3) [OF that(1,2)] that(3) by (simp add: kzalloc_def)
  ultimately show ?thesis using early(1) reg by (metis fst_conv)
qed

theorem minors_exhausted_after_14_witness:
  "genz_register_bridge demo_chr ''fzbridge_05'' (CCE_value GENZ_CCE_DISCRETE_BRIDGE) (Some 3) (demo_heap 9)
     (demo_genz\<lparr>bridge_minor_bitmap := {..<14}\<rparr>) = Some (- EDOM, demo_heap 9, demo_genz\<lparr>bridge_minor_bitmap := {..<14}\<rparr>)"
proof -
  have "bridge_inv (demo_heap 9) (demo_genz\<lparr>bridge_minor_bitmap := {..<14}\<rparr>)" by (simp add: bridge_inv_def demo_genz_def)
  moreover have "bridge_class (CCE_value GENZ_CCE_DISCRETE_BRIDGE)" by (simp add: bridge_class_def)
  ultimately show ?thesis using minors_exhausted_after_14 [of "demo_heap 9" "demo_genz\<lparr>bridge_minor_bitmap := {..<14}\<rparr>"
    "CCE_value GENZ_CCE_DISCRETE_BRIDGE" demo_chr "''fzbridge_05''" "Some 3"] by simp
qed

end
