(* ===== verification/Famez_Register.thy ===== *)
theory Famez_Register
  imports Famez_Pci Genz_Device
begin

text \<open>
  \<open>kernel/famez/famez_register.c\<close>: binding a driver to every active adapter, and the
  module entry points of \<open>kernel/famez/fz_bridge.c\<close> that call it. \<open>ownername\<close> is
  \<open>fops->owner->name\<close>. The adapter's address is the private data of its device.
\<close>

section \<open>Operations\<close>

text \<open>\<open>sprintf(devname, "%s_%02x", ownername, pdev->devfn >> 3)\<close>\<close>

definition bridge_devname :: "probe_env \<Rightarrow> string \<Rightarrow> nat \<Rightarrow> string" where
  "bridge_devname E ownername pd = ownername @ CHR ''_'' # hex02 (devfn (pci_of E pd) div 8)"

text \<open>
  The loop over the list: the last result (0 when every binding was made), the number of
  bindings, and the state. The first failure ends it; the bindings made so far stay.
\<close>

fun register_loop ::
  "probe_env \<Rightarrow> chr_env \<Rightarrow> string \<Rightarrow> string \<Rightarrow> nat list \<Rightarrow> int \<Rightarrow> famez_sys \<Rightarrow> genz_dev_state \<Rightarrow>
     (int \<times> int \<times> famez_sys \<times> genz_dev_state) option" where
  "register_loop E C cls ownername [] n y g = Some (0, n, y, g)"
| "register_loop E C cls ownername (c # cs) n y g = do {
     a \<leftarrow> adapter_ref c y;
     pd \<leftarrow> pdev a;
     devname \<leftarrow> sprintf (replicate 64 NUL) (bridge_devname E ownername pd);
     (ret, h1, g1) \<leftarrow> genz_register_bridge C (cstr devname) (CCE_value GENZ_CCE_DISCRETE_BRIDGE) (Some c) (sys_heap y) g;
     let y1 = y\<lparr>sys_heap := h1\<rparr>;
     if ret \<noteq> 0 then Some (ret, n, y1, g1)
     else do {
       (ca, cs0) \<leftarrow> core a;
       str \<leftarrow> strncpy (Base_C_Class_str cs0) cls 32;
       register_loop E C cls ownername cs (n + 1)
         (put_adapter c (a\<lparr>core := Some (ca, cs0\<lparr>Base_C_Class_str := str\<rparr>)\<rparr>) y1) g1
     }
   }"

definition famez_register ::
  "probe_env \<Rightarrow> chr_env \<Rightarrow> string \<Rightarrow> string \<Rightarrow> famez_sys \<Rightarrow> genz_dev_state \<Rightarrow> (int \<times> famez_sys \<times> genz_dev_state) option" where
  "famez_register E C cls ownername y g =
     (if down_ret E \<noteq> 0 then Some (down_ret E, y, g)
      else do {
        y1 \<leftarrow> sema_down E y;
        (ret, n, y2, g2) \<leftarrow> register_loop E C cls ownername (famez_adapter_list y1) 0 y1 g;
        Some (if ret \<noteq> 0 then ret else n, sema_up y2, g2)
      })"

definition famez_deregister :: "famez_sys \<Rightarrow> genz_dev_state \<Rightarrow> int \<times> famez_sys \<times> genz_dev_state" where
  "famez_deregister y g = (0, y, g)"

text \<open>The module's entry points; \<open>_nbindings\<close> is a static variable of the module.\<close>

definition fzbridge_init ::
  "probe_env \<Rightarrow> chr_env \<Rightarrow> string \<Rightarrow> famez_sys \<Rightarrow> genz_dev_state \<Rightarrow> (int \<times> int \<times> famez_sys \<times> genz_dev_state) option" where
  "fzbridge_init E C ownername y g = do {
     (ret, y1, g1) \<leftarrow> famez_register E C ''Bridge'' ownername y g;
     if ret < 0 then Some (ret, 0, y1, g1)
     else Some (if ret \<noteq> 0 then 0 else - ENODEV, ret, y1, g1)
   }"

definition fzbridge_exit :: "famez_sys \<Rightarrow> genz_dev_state \<Rightarrow> famez_sys \<times> genz_dev_state" where
  "fzbridge_exit y g = (case famez_deregister y g of (ret, y1, g1) \<Rightarrow> (y1, g1))"

section \<open>Lemmas\<close>

lemma strncpy_short:
  assumes "NUL \<notin> set cls" and "length cls < 32" and "length dst = 32"
  shows "\<exists>d. strncpy dst cls 32 = Some d \<and> cstr d = cls \<and> length d = 32"
proof -
  obtain m where m: "32 - length cls = Suc m" using assms(2) by (metis Suc_diff_Suc)
  have "take 32 (cls @ replicate 32 NUL) = cls @ NUL # replicate m NUL"
    using assms(2) m by (simp del: replicate.simps) simp
  moreover have "length cls + m = 31" using assms(2) m by linarith
  ultimately show ?thesis using assms by (simp add: strncpy_def memcpy_def del: replicate.simps)
qed

text \<open>What the loop needs of the adapters it visits.\<close>

definition bindable :: "probe_env \<Rightarrow> string \<Rightarrow> nat \<Rightarrow> famez_sys \<Rightarrow> bool" where
  "bindable E ownername c y \<longleftrightarrow> c \<in> k_live (sys_heap y) \<and>
     (\<exists>pd. pdev (adapter_at y c) = Some pd \<and> length (bridge_devname E ownername pd) < 64) \<and>
     (\<exists>ca cs0. core (adapter_at y c) = Some (ca, cs0) \<and> length (Base_C_Class_str cs0) = 32)"

definition class_of :: "nat \<Rightarrow> famez_sys \<Rightarrow> string option" where
  "class_of c y = map_option (\<lambda>c. cstr (Base_C_Class_str (snd c))) (core (adapter_at y c))"

definition loop_bound :: "string \<Rightarrow> nat list \<Rightarrow> famez_sys \<Rightarrow> genz_dev_state \<Rightarrow> famez_sys \<Rightarrow> genz_dev_state \<Rightarrow> bool" where
  "loop_bound cls cs y g y' g' \<longleftrightarrow> bridge_inv (sys_heap y') g' \<and> k_live (sys_heap y) \<subseteq> k_live (sys_heap y') \<and>
     (\<forall>c \<in> set cs. (\<exists>dev. genz_char_drv_1stopen_private_data dev (sys_heap y') g' = Some (Some c)) \<and> class_of c y' = Some cls) \<and>
     (\<forall>dev x. genz_char_drv_1stopen_private_data dev (sys_heap y) g = Some x \<longrightarrow>
        genz_char_drv_1stopen_private_data dev (sys_heap y') g' = Some x) \<and>
     (\<forall>c. c \<notin> set cs \<longrightarrow> adapter_at y' c = adapter_at y c) \<and>
     famez_adapter_list y' = famez_adapter_list y \<and> famez_adapter_sema y' = famez_adapter_sema y"

lemma registered_keeps:
  assumes "bridge_registered priv nm h s h' s'" and "genz_char_drv_1stopen_private_data dev h s = Some x"
  shows "genz_char_drv_1stopen_private_data dev h' s' = Some x"
proof -
  obtain wp wr where "cdevs s dev = Some (wp, wr)" "wp \<in> k_live h" "x = file_private_data wr"
    using assms(2) by (auto simp: genz_char_drv_1stopen_private_data_def split: bind_splits if_splits)
  moreover obtain d where "cdevs s d = None" "\<forall>d'. d' \<noteq> d \<longrightarrow> cdevs s' d' = cdevs s d'" "k_live h \<subseteq> k_live h'"
    using assms(1) by (auto simp: bridge_registered_def)
  ultimately have "cdevs s' dev = Some (wp, wr)" "wp \<in> k_live h'" by (metis option.distinct(1), blast)
  then show ?thesis using \<open>x = file_private_data wr\<close> by (simp add: genz_char_drv_1stopen_private_data_def)
qed

text \<open>Nothing stands in the way of \<open>n\<close> more bridges: no error, memory, and enough minor numbers.\<close>

definition room_for_bridges :: "chr_env \<Rightarrow> kheap \<Rightarrow> genz_dev_state \<Rightarrow> nat \<Rightarrow> bool" where
  "room_for_bridges C h g n \<longleftrightarrow> chr_calls_succeed C \<and> (\<forall>k. k_ok h k) \<and> card (bridge_minor_bitmap g) + n \<le> 14"

lemma register_loop_result:
  assumes C: "chr_env_ok C" and cls: "NUL \<notin> set cls" "length cls < 32"
  shows "bridge_inv (sys_heap y) g \<Longrightarrow> distinct cs \<Longrightarrow> \<forall>c \<in> set cs. bindable E ownername c y \<Longrightarrow>
    \<exists>ret n' y' g'. register_loop E C cls ownername cs n y g = Some (ret, n', y', g') \<and> ret \<le> 0 \<and>
      (ret = 0 \<longrightarrow> n' = n + int (length cs) \<and> loop_bound cls cs y g y' g') \<and>
      (room_for_bridges C (sys_heap y) g (length cs) \<longrightarrow> ret = 0)"
proof (induction cs arbitrary: n y g)
  case Nil
  then show ?case by (simp add: loop_bound_def)
next
  case (Cons c cs)
  obtain pd ca cs0 where b: "c \<in> k_live (sys_heap y)" "pdev (adapter_at y c) = Some pd"
    "length (bridge_devname E ownername pd) < 64" "core (adapter_at y c) = Some (ca, cs0)" "length (Base_C_Class_str cs0) = 32"
    using Cons.prems(3) by (auto simp: bindable_def)
  obtain nm where nm: "sprintf (replicate 64 NUL) (bridge_devname E ownername pd) = Some nm"
    using sprintf_fits [of "bridge_devname E ownername pd" "replicate 64 NUL"] b(3) by (auto simp del: replicate.simps)
  have bc: "bridge_class (CCE_value GENZ_CCE_DISCRETE_BRIDGE)" by (simp add: bridge_class_def)
  from register_bridge_result [OF Cons.prems(1) C bc, of "cstr nm" "Some c"] obtain ret h1 g1 where
    reg: "genz_register_bridge C (cstr nm) (CCE_value GENZ_CCE_DISCRETE_BRIDGE) (Some c) (sys_heap y) g = Some (ret, h1, g1)"
    and ok: "ret = 0 \<longrightarrow> bridge_registered (Some c) (cstr nm) (sys_heap y) g h1 g1" "ret \<le> 0" by (auto split: if_splits)
  have room: "ret = 0 \<and> room_for_bridges C h1 g1 (length cs)" if "room_for_bridges C (sys_heap y) g (length (c # cs))"
    using register_bridge_succeeds [OF Cons.prems(1) _ bc, of C "cstr nm" "Some c"] that reg
    by (auto simp: room_for_bridges_def)
  obtain str where str: "strncpy (Base_C_Class_str cs0) cls 32 = Some str" "cstr str = cls" "length str = 32"
    using strncpy_short [OF cls b(5)] by blast
  let ?y1 = "put_adapter c ((adapter_at y c)\<lparr>core := Some (ca, cs0\<lparr>Base_C_Class_str := str\<rparr>)\<rparr>) (y\<lparr>sys_heap := h1\<rparr>)"
  have step: "register_loop E C cls ownername (c # cs) n y g = (if ret \<noteq> 0 then Some (ret, n, y\<lparr>sys_heap := h1\<rparr>, g1)
      else register_loop E C cls ownername cs (n + 1) ?y1 g1)"
    using b(1,2,4) reg nm str(1) by (simp add: adapter_ref_def del: CCE_value.simps replicate.simps)
  show ?case
  proof (cases "ret = 0")
    case True
    with ok(1) have r: "bridge_registered (Some c) (cstr nm) (sys_heap y) g h1 g1" by simp
    then have h1: "k_live (sys_heap y) \<subseteq> k_live h1" "bridge_inv h1 g1" by (simp_all add: bridge_registered_def)
    have "bindable E ownername d ?y1" if "d \<in> set cs" for d
      using Cons.prems(2,3) that h1(1) by (auto simp: bindable_def put_adapter_def)
    with Cons.IH [of ?y1 g1 "n + 1"] h1(2) Cons.prems(2) obtain ret' n' y' g' where
      IH: "register_loop E C cls ownername cs (n + 1) ?y1 g1 = Some (ret', n', y', g')" "ret' \<le> 0"
      "ret' = 0 \<longrightarrow> n' = n + 1 + int (length cs) \<and> loop_bound cls cs ?y1 g1 y' g'"
      "room_for_bridges C h1 g1 (length cs) \<longrightarrow> ret' = 0"
      by (auto simp: put_adapter_def)
    have "loop_bound cls (c # cs) y g y' g'" if lb: "loop_bound cls cs ?y1 g1 y' g'"
    proof -
      have cl: "class_of c y' = Some cls"
        using lb Cons.prems(2) str(2) by (auto simp: loop_bound_def class_of_def put_adapter_def)
      obtain dev where "genz_char_drv_1stopen_private_data dev h1 g1 = Some (Some c)"
        using r by (auto simp: bridge_registered_def)
      then have "\<exists>dev. genz_char_drv_1stopen_private_data dev (sys_heap y') g' = Some (Some c)"
        using lb unfolding loop_bound_def by (simp add: put_adapter_def) metis
      moreover have "genz_char_drv_1stopen_private_data dev (sys_heap y) g = Some x \<Longrightarrow>
          genz_char_drv_1stopen_private_data dev (sys_heap y') g' = Some x" for dev x
        using lb registered_keeps [OF r, of dev x] unfolding loop_bound_def by (simp add: put_adapter_def)
      ultimately show ?thesis
        using lb h1(1) cl unfolding loop_bound_def by (simp add: put_adapter_def) blast
    qed
    with IH True room show ?thesis unfolding step by auto
  qed (use ok(2) room in \<open>auto simp: step simp del: register_loop.simps\<close>)
qed

lemma register_result:
  assumes C: "chr_env_ok C" and cls: "NUL \<notin> set cls" "length cls < 32"
    and inv: "bridge_inv (sys_heap y) g" and l: "distinct (famez_adapter_list y)"
    "\<forall>c \<in> set (famez_adapter_list y). bindable E ownername c y"
    and sema: "down_ret E = 0" "0 < famez_adapter_sema y"
  shows "\<exists>ret y' g'. famez_register E C cls ownername y g = Some (ret, y', g') \<and>
    (loop_bound cls (famez_adapter_list y) y g y' g' \<and> ret = int (length (famez_adapter_list y)) \<or> ret < 0) \<and>
    (room_for_bridges C (sys_heap y) g (length (famez_adapter_list y)) \<longrightarrow> 0 \<le> ret)"
proof -
  let ?y = "y\<lparr>famez_adapter_sema := famez_adapter_sema y - 1\<rparr>"
  have "\<forall>c \<in> set (famez_adapter_list y). bindable E ownername c ?y" using l(2) by (simp add: bindable_def)
  from register_loop_result [OF C cls, of ?y g "famez_adapter_list y" E ownername 0] inv l(1) this
  obtain ret n' y' g' where r: "register_loop E C cls ownername (famez_adapter_list y) 0 ?y g = Some (ret, n', y', g')" "ret \<le> 0"
    "ret = 0 \<longrightarrow> n' = int (length (famez_adapter_list y)) \<and> loop_bound cls (famez_adapter_list y) ?y g y' g'"
    "room_for_bridges C (sys_heap y) g (length (famez_adapter_list y)) \<longrightarrow> ret = 0"
    by auto
  have "loop_bound cls cs ?y g y' g' \<Longrightarrow> loop_bound cls cs y g (sema_up y') g'" for cs
    using sema(2) by (auto simp: loop_bound_def sema_up_def class_of_def)
  then show ?thesis
    using r sema by (auto simp: famez_register_def sema_down_def)
qed

section \<open>Properties\<close>

text \<open>
  C21. Loading the bridge driver, with the list, its semaphore and the Gen-Z tables in
  order, always returns. If the list is empty it fails with \<open>-ENODEV\<close>. Otherwise it succeeds
  when memory and the character-device core do not fail and enough of the 14 minor numbers
  are free; and whenever it succeeds, it has bound every adapter and counted them: each
  adapter has a device that opens with it, its class string says "Bridge", devices that
  could be opened before still open the same way, and the semaphore is released. Every
  other result is a negative error. Unloading the driver undoes none of it.
\<close>

theorem bridge_driver_binds_every_adapter:
  assumes "chr_env_ok C" and "bridge_inv (sys_heap y) g" and "distinct (famez_adapter_list y)"
    and "\<forall>c \<in> set (famez_adapter_list y). bindable E ownername c y" and "down_ret E = 0" and "0 < famez_adapter_sema y"
  shows "\<exists>ret n y' g'. fzbridge_init E C ownername y g = Some (ret, n, y', g') \<and> fzbridge_exit y' g' = (y', g') \<and>
    (famez_adapter_list y = [] \<longrightarrow> ret = - ENODEV) \<and>
    (famez_adapter_list y \<noteq> [] \<and> room_for_bridges C (sys_heap y) g (length (famez_adapter_list y)) \<longrightarrow> ret = 0) \<and>
    (if ret = 0
     then famez_adapter_list y \<noteq> [] \<and> n = int (length (famez_adapter_list y)) \<and> famez_adapter_sema y' = famez_adapter_sema y \<and>
       (\<forall>c \<in> set (famez_adapter_list y). class_of c y' = Some ''Bridge'' \<and>
          (\<exists>dev. genz_char_drv_1stopen_private_data dev (sys_heap y') g' = Some (Some c))) \<and>
       (\<forall>dev x. genz_char_drv_1stopen_private_data dev (sys_heap y) g = Some x \<longrightarrow>
          genz_char_drv_1stopen_private_data dev (sys_heap y') g' = Some x)
     else ret < 0)"
proof -
  obtain ret y' g' where r: "famez_register E C ''Bridge'' ownername y g = Some (ret, y', g')"
    "loop_bound ''Bridge'' (famez_adapter_list y) y g y' g' \<and> ret = int (length (famez_adapter_list y)) \<or> ret < 0"
    "room_for_bridges C (sys_heap y) g (length (famez_adapter_list y)) \<longrightarrow> 0 \<le> ret"
    using register_result [OF assms(1) _ _ assms(2-6), of "''Bridge''"] by auto
  have x: "fzbridge_exit y' g' = (y', g')" by (simp add: fzbridge_exit_def famez_deregister_def)
  show ?thesis
  proof (cases "ret < 0")
    case True
    moreover from this have "famez_adapter_list y \<noteq> []"
      using r(1) assms(5,6) by (auto simp: famez_register_def sema_down_def)
    ultimately show ?thesis using r(1,3) x by (auto simp: fzbridge_init_def)
  next
    case False
    with r(2) have lb: "loop_bound ''Bridge'' (famez_adapter_list y) y g y' g'" "ret = int (length (famez_adapter_list y))" by auto
    show ?thesis
    proof (cases "famez_adapter_list y = []")
      case True
      then show ?thesis using r(1) lb x by (simp add: fzbridge_init_def)
    next
      case f: False
      then show ?thesis using r(1) lb x assms(6) False by (auto simp: fzbridge_init_def loop_bound_def)
    qed
  qed
qed

text \<open>A guest with one adapter on the list.\<close>

definition demo_listed :: famez_sys where
  "demo_listed = demo_sys\<lparr>sys_heap := \<lparr>k_ok = (\<lambda>_. True), k_next = 8, k_live = {3, 7}\<rparr>, famez_adapter_list := [3],
     pci_devs := (\<lambda>_. untaken\<lparr>drvdata := Some 3, regions := True\<rparr>)\<rparr>"

lemma demo_bindable: "bindable demo_probe ''fzbridge'' 3 demo_listed"
  by (simp add: bindable_def demo_listed_def demo_sys_def demo_adapter_def bridge_devname_def demo_probe_def demo_pci_def
      hex02_def pad0_def hex_nat.simps)

theorem bridge_driver_binds_every_adapter_witness:
  "\<exists>y' g' dev. fzbridge_init demo_probe demo_chr ''fzbridge'' demo_listed demo_genz = Some (0, 1, y', g') \<and>
    fzbridge_exit y' g' = (y', g') \<and> class_of 3 y' = Some ''Bridge'' \<and>
    genz_char_drv_1stopen_private_data dev (sys_heap y') g' = Some (Some 3)"
proof -
  have l: "famez_adapter_list demo_listed = [3]" "\<forall>k. k_ok (sys_heap demo_listed) k" "famez_adapter_sema demo_listed = 1"
    "down_ret demo_probe = 0" by (simp_all add: demo_listed_def demo_sys_def demo_probe_def)
  have b: "bridge_inv (sys_heap demo_listed) demo_genz" "card (bridge_minor_bitmap demo_genz) = 0"
    by (simp_all add: bridge_inv_def demo_listed_def demo_genz_def wf_heap_def)
  have c: "room_for_bridges demo_chr (sys_heap demo_listed) demo_genz 1"
    using l(2) b(2) by (simp add: room_for_bridges_def chr_calls_succeed_def) (simp add: demo_chr_def)
  note f = bridge_driver_binds_every_adapter [OF demo_chr_ok b(1), of demo_probe "''fzbridge''", unfolded l(1,3,4)]
  obtain ret n y' g' where r: "fzbridge_init demo_probe demo_chr ''fzbridge'' demo_listed demo_genz = Some (ret, n, y', g')"
    "fzbridge_exit y' g' = (y', g')" "ret = 0"
    "if ret = 0 then n = 1 \<and> class_of 3 y' = Some ''Bridge'' \<and>
       (\<exists>dev. genz_char_drv_1stopen_private_data dev (sys_heap y') g' = Some (Some 3)) else ret < 0"
    using f demo_bindable c by force
  then show ?thesis by auto
qed

end
