(* ===== verification/File_Life.thy ===== *)
theory File_Life
  imports Famez_Kalloc
begin

text \<open>
  A character device that one process at a time may open, as the VFS drives it. Both
  drivers provide one (\<open>bridge_fops\<close> in \<open>kernel/famez/fz_bridge.c\<close> and in
  \<open>kernel/famez/monolithic/famez_bridge.c\<close>).

  \<open>file_operations\<close> holds the operations of such a device and \<open>chardev\<close> its interrupt handler
  as well, over a device structure \<open>'d\<close>, the memory \<open>'w\<close> shared with the other guests and the
  routines \<open>'e\<close> of the kernel that they call. \<open>file_step\<close> is what may happen to the device: \<open>fs_refs\<close> is the
  reference count of the open file, 0 when there is none; \<open>dup\<close> and \<open>fork\<close> raise it; every
  \<open>close\<close> calls \<open>flush\<close> first and the last one calls \<open>release\<close>; reads and writes happen while
  a file is open and interrupts at any time between two operations; \<open>poll\<close> changes nothing. The shared memory is
  not part of the state: other guests write it, so each step may find it changed.

  The locale \<open>exclusive_file\<close> is the contract of a device with exclusive open. Its lemmas
  hold for every sequence of steps.
\<close>

section \<open>Files and operations\<close>

type_synonym user_mem = "nat \<Rightarrow> char"

record bridge_file =
  f_nonblock :: bool
  f_count :: int
  f_pos :: u64

definition file_of :: "nat \<Rightarrow> bridge_file" where
  "file_of n = \<lparr>f_nonblock = False, f_count = int n, f_pos = 0\<rparr>"

record ('d, 'e, 'w) file_operations =
  cd_open :: "'d \<Rightarrow> kheap \<Rightarrow> (int \<times> 'd \<times> kheap) option"
  cd_flush :: "bridge_file \<Rightarrow> 'd \<Rightarrow> int \<times> 'd"
  cd_release :: "'d \<Rightarrow> kheap \<Rightarrow> (int \<times> 'd \<times> kheap) option"
  cd_read :: "'e \<Rightarrow> u64 \<Rightarrow> bridge_file \<Rightarrow> user_mem \<Rightarrow> 'd \<Rightarrow> 'w \<Rightarrow> (int \<times> bridge_file \<times> user_mem \<times> 'd \<times> 'w) option"
  cd_write :: "'e \<Rightarrow> bytes \<Rightarrow> u64 \<Rightarrow> 'd \<Rightarrow> 'w \<Rightarrow> (int \<times> 'd \<times> 'w) option"
  cd_poll :: "'d \<Rightarrow> 'w \<Rightarrow> u32 option"

record ('d, 'e, 'w) chardev = "('d, 'e, 'w) file_operations" +
  cd_isr :: "'e \<Rightarrow> int \<Rightarrow> 'd \<Rightarrow> 'w \<Rightarrow> (bool \<times> 'd \<times> 'w) option"

record 'd file_state =
  fs_dev :: 'd
  fs_heap :: kheap
  fs_refs :: nat

section \<open>What may happen to the device\<close>

inductive file_step ::
  "('d, 'e, 'w) chardev \<Rightarrow> ('e \<Rightarrow> bool) \<Rightarrow> 'd file_state \<Rightarrow> 'd file_state \<Rightarrow> bool"
  for cd env_ok where
  open_ok: "cd_open cd (fs_dev s) (fs_heap s) = Some (0, d', h') \<Longrightarrow>
    file_step cd env_ok s \<lparr>fs_dev = d', fs_heap = h', fs_refs = 1\<rparr>"
| open_fails: "cd_open cd (fs_dev s) (fs_heap s) = Some (ret, d', h') \<Longrightarrow> ret \<noteq> 0 \<Longrightarrow>
    file_step cd env_ok s (s\<lparr>fs_dev := d', fs_heap := h'\<rparr>)"
| dup: "0 < fs_refs s \<Longrightarrow> file_step cd env_ok s (s\<lparr>fs_refs := Suc (fs_refs s)\<rparr>)"
| close_one: "1 < fs_refs s \<Longrightarrow> cd_flush cd (file_of (fs_refs s)) (fs_dev s) = (r, d') \<Longrightarrow>
    file_step cd env_ok s (s\<lparr>fs_dev := d', fs_refs := fs_refs s - 1\<rparr>)"
| close_last: "fs_refs s = 1 \<Longrightarrow> cd_flush cd (file_of (fs_refs s)) (fs_dev s) = (r, d') \<Longrightarrow>
    cd_release cd d' (fs_heap s) = Some (r2, d2, h2) \<Longrightarrow>
    file_step cd env_ok s \<lparr>fs_dev = d2, fs_heap = h2, fs_refs = 0\<rparr>"
| reading: "0 < fs_refs s \<Longrightarrow> env_ok e \<Longrightarrow> cd_read cd e count f um (fs_dev s) w = Some (r, f', um', d', w') \<Longrightarrow>
    file_step cd env_ok s (s\<lparr>fs_dev := d'\<rparr>)"
| writing: "0 < fs_refs s \<Longrightarrow> env_ok e \<Longrightarrow> cd_write cd e ubuf count (fs_dev s) w = Some (r, d', w') \<Longrightarrow>
    file_step cd env_ok s (s\<lparr>fs_dev := d'\<rparr>)"
| interrupt: "env_ok e \<Longrightarrow> cd_isr cd e irq (fs_dev s) w = Some (woken, d', w') \<Longrightarrow>
    file_step cd env_ok s (s\<lparr>fs_dev := d'\<rparr>)"

inductive file_reach ::
  "('d, 'e, 'w) chardev \<Rightarrow> ('e \<Rightarrow> bool) \<Rightarrow> 'd file_state \<Rightarrow> 'd file_state \<Rightarrow> bool"
  for cd env_ok where
  start: "file_reach cd env_ok s s"
| step: "file_reach cd env_ok s t \<Longrightarrow> file_step cd env_ok t u \<Longrightarrow> file_reach cd env_ok s u"

text \<open>
  With no file open nothing is held: \<open>unused\<close> of the device, and the blocks \<open>L\<close> that were
  live at the start are the live ones. With a file open the device holds fresh blocks.
\<close>

definition life_inv ::
  "('d \<Rightarrow> bool) \<Rightarrow> (nat set \<Rightarrow> 'd \<Rightarrow> bool) \<Rightarrow> nat set \<Rightarrow> 'd file_state \<Rightarrow> bool" where
  "life_inv unused holds L s \<longleftrightarrow> wf_heap (fs_heap s) \<and>
     (if fs_refs s = 0 then unused (fs_dev s) \<and> k_live (fs_heap s) = L
      else \<exists>A. holds A (fs_dev s) \<and> A \<inter> L = {} \<and> k_live (fs_heap s) = L \<union> A)"

lemma life_inv_closed [simp]:
  "fs_refs s = 0 \<Longrightarrow> life_inv unused holds L s \<longleftrightarrow> wf_heap (fs_heap s) \<and> unused (fs_dev s) \<and> k_live (fs_heap s) = L"
  by (simp add: life_inv_def)

section \<open>Exclusive open\<close>

locale exclusive_file =
  fixes cd :: "('d, 'e, 'w) chardev"
    and env_ok :: "'e \<Rightarrow> bool"
    and unused :: "'d \<Rightarrow> bool"
    and holds :: "nat set \<Rightarrow> 'd \<Rightarrow> bool"
  assumes open_unused: "unused d \<Longrightarrow> wf_heap h \<Longrightarrow>
      \<exists>r d' h'. cd_open cd d h = Some (r, d', h') \<and> wf_heap h' \<and>
        (if r = 0 then \<exists>A. holds A d' \<and> A \<inter> k_live h = {} \<and> k_live h' = k_live h \<union> A
         else d' = d \<and> k_live h' = k_live h)"
    and open_busy: "holds A d \<Longrightarrow> cd_open cd d h = Some (- EBUSY, d, h)"
    and flush_shared: "holds A d \<Longrightarrow> 1 < n \<Longrightarrow> cd_flush cd (file_of n) d = (r, d') \<Longrightarrow> holds A d'"
    and last_close: "holds A d \<Longrightarrow> A \<subseteq> k_live h \<Longrightarrow> cd_flush cd (file_of 1) d = (r, d') \<Longrightarrow>
      \<exists>d2. cd_release cd d' h = Some (0, d2, h\<lparr>k_live := k_live h - A\<rparr>) \<and> unused d2"
    and read_holds: "holds A d \<Longrightarrow> env_ok e \<Longrightarrow> cd_read cd e count f um d w = Some (r, f', um', d', w') \<Longrightarrow> holds A d'"
    and write_holds: "holds A d \<Longrightarrow> env_ok e \<Longrightarrow> cd_write cd e ubuf count d w = Some (r, d', w') \<Longrightarrow> holds A d'"
    and isr_holds: "holds A d \<Longrightarrow> env_ok e \<Longrightarrow> cd_isr cd e irq d w = Some (woken, d', w') \<Longrightarrow> holds A d'"
    and isr_unused: "unused d \<Longrightarrow> env_ok e \<Longrightarrow> cd_isr cd e irq d w = Some (woken, d', w') \<Longrightarrow> unused d'"
begin

lemma open_inv:
  assumes "life_inv unused holds L s" and "cd_open cd (fs_dev s) (fs_heap s) = Some (r, d', h')"
  shows "life_inv unused holds L (if r = 0 then \<lparr>fs_dev = d', fs_heap = h', fs_refs = 1\<rparr> else s\<lparr>fs_dev := d', fs_heap := h'\<rparr>)"
proof (cases "fs_refs s = 0")
  case True
  then show ?thesis using assms open_unused [of "fs_dev s" "fs_heap s"]
    by (auto simp: life_inv_def split: if_splits)
next
  case False
  then obtain A where "holds A (fs_dev s)" using assms(1) by (auto simp: life_inv_def)
  from open_busy [OF this] have "r = - EBUSY" "d' = fs_dev s" "h' = fs_heap s" using assms(2) by simp_all
  then show ?thesis using assms(1) by simp
qed

lemma held_inv:
  assumes "life_inv unused holds L s" and "0 < fs_refs s" and "0 < n" and "\<And>A. holds A (fs_dev s) \<Longrightarrow> holds A d'"
  shows "life_inv unused holds L (s\<lparr>fs_dev := d', fs_refs := n\<rparr>)"
  using assms by (auto simp: life_inv_def)

lemma last_close_runs:
  assumes "life_inv unused holds L s" and "fs_refs s = 1" and "cd_flush cd (file_of 1) (fs_dev s) = (r, d')"
  shows "\<exists>d2 h2. cd_release cd d' (fs_heap s) = Some (0, d2, h2) \<and> unused d2 \<and> wf_heap h2 \<and> k_live h2 = L"
proof -
  obtain A where A: "holds A (fs_dev s)" "A \<inter> L = {}" "k_live (fs_heap s) = L \<union> A" and wf: "wf_heap (fs_heap s)"
    using assms(1,2) by (auto simp: life_inv_def)
  have "A \<subseteq> k_live (fs_heap s)" and "k_live (fs_heap s) - A = L" using A(2,3) by auto
  moreover have "wf_heap ((fs_heap s)\<lparr>k_live := L\<rparr>)" using wf A(3) by (intro wf_heap_shrink) auto
  ultimately show ?thesis using last_close [OF A(1) _ assms(3)] by fastforce
qed

lemma step_inv:
  assumes inv: "life_inv unused holds L s" and st: "file_step cd env_ok s t"
  shows "life_inv unused holds L t"
  using st
proof cases
  case (open_ok d' h')
  then show ?thesis using open_inv [OF inv, of 0] by simp
next
  case (open_fails ret d' h')
  then show ?thesis using open_inv [OF inv] by fastforce
next
  case dup
  then show ?thesis using inv by (simp add: life_inv_def)
next
  case (close_one r d')
  then show ?thesis using held_inv [OF inv, of "fs_refs s - 1" d'] flush_shared by fastforce
next
  case (close_last r d' r2 d2 h2)
  then show ?thesis using last_close_runs [OF inv, of r d'] by auto
next
  case (reading e count f um w r f' um' d' w')
  then show ?thesis using held_inv [OF inv, of "fs_refs s" d'] read_holds by fastforce
next
  case (writing e ubuf count w r d' w')
  then show ?thesis using held_inv [OF inv, of "fs_refs s" d'] write_holds by fastforce
next
  case (interrupt e irq w woken d' w')
  then show ?thesis using inv isr_holds isr_unused by (fastforce simp: life_inv_def)
qed

lemma reach_inv: "file_reach cd env_ok s t \<Longrightarrow> life_inv unused holds L s \<Longrightarrow> life_inv unused holds L t"
  by (induction rule: file_reach.induct) (auto intro: step_inv)

text \<open>
  From a device nobody has open: whatever is done to it, it is unused and nothing is held
  while no file is open; while one is, a second open changes nothing, and closing the last
  reference succeeds and gives every block back.
\<close>

lemma exclusive:
  assumes "file_reach cd env_ok s t" and "fs_refs s = 0" and "unused (fs_dev s)" and "wf_heap (fs_heap s)"
  shows "if fs_refs t = 0 then unused (fs_dev t) \<and> k_live (fs_heap t) = k_live (fs_heap s)
    else (\<exists>A. holds A (fs_dev t)) \<and> cd_open cd (fs_dev t) (fs_heap t) = Some (- EBUSY, fs_dev t, fs_heap t) \<and>
      (fs_refs t = 1 \<longrightarrow> (\<exists>d h. cd_release cd (snd (cd_flush cd (file_of 1) (fs_dev t))) (fs_heap t) = Some (0, d, h) \<and>
         unused d \<and> k_live h = k_live (fs_heap s)))"
proof -
  have inv: "life_inv unused holds (k_live (fs_heap s)) t" using reach_inv [OF assms(1)] assms(2-4) by simp
  obtain r d' where fl: "cd_flush cd (file_of 1) (fs_dev t) = (r, d')" by (metis surj_pair)
  then have d': "snd (cd_flush cd (file_of 1) (fs_dev t)) = d'" by simp
  show ?thesis
  proof (cases "fs_refs t = 0")
    case True
    then show ?thesis using inv by simp
  next
    case False
    then obtain A where "holds A (fs_dev t)" using inv by (auto simp: life_inv_def)
    then show ?thesis using False last_close_runs [OF inv _ fl] open_busy unfolding d' by auto
  qed
qed

end

end
