(* ===== verification/Fz_Bridge.thy ===== *)
theory Fz_Bridge
  imports Famez_Register File_Life
begin

text \<open>
  \<open>kernel/famez/fz_bridge.c\<close>: the file operations user space sees. An open file is the
  record \<open>bridge_file\<close> of \<open>File_Life\<close>; the user's buffer of a \<open>read\<close> is a map from byte
  positions, so that writing past the announced size is visible. \<open>user_env\<close> is what the kernel's copy
  and number parsing routines do. Each operation is one step: the interrupt handler runs
  between operations and while one sleeps, not in the middle of one.
\<close>

section \<open>Data\<close>

record user_env =
  copy_to_user :: "nat \<Rightarrow> bytes \<Rightarrow> user_mem \<Rightarrow> int \<times> user_mem"
  copy_from_user :: "bytes \<Rightarrow> nat \<Rightarrow> int \<times> bytes"
  kstrtoint :: "string \<Rightarrow> int + int"

section \<open>Open, flush and release\<close>

text \<open>The label \<open>alldone\<close>.\<close>

definition open_alldone :: "int \<Rightarrow> famez_adapter \<Rightarrow> kheap \<Rightarrow> int \<times> famez_adapter \<times> kheap" where
  "open_alldone ret a h = (ret, if ret \<noteq> 0 then a\<lparr>nr_users := nr_users a - 1\<rparr> else a, h)"

definition famez_bridge_open :: "famez_adapter \<Rightarrow> kheap \<Rightarrow> (int \<times> famez_adapter \<times> kheap) option" where
  "famez_bridge_open a h =
     (let a1 = a\<lparr>nr_users := nr_users a + 1\<rparr> in
      if nr_users a1 = 1 then
        (case kzalloc h of
           (None, h1) \<Rightarrow> Some (open_alldone (- ENOMEM) a1 h1)
         | (Some bp, h1) \<Rightarrow>
             (case kzalloc h1 of
                (None, h2) \<Rightarrow> do {
                  h3 \<leftarrow> kfree (Some bp) h2;
                  Some (open_alldone (- ENOMEM) a1 h3)
                }
              | (Some wp, h2) \<Rightarrow>
                  let buffers = \<lparr>buffers_addr = bp, wbuf_addr = wp,
                        wbuf = replicate (unat (max_buflen a1)) NUL, wbuf_mutex = False\<rparr> in
                  Some (open_alldone 0 (a1\<lparr>outgoing := Some buffers\<rparr>) h2)))
      else Some (open_alldone (- EBUSY) a1 h))"

definition famez_bridge_flush :: "bridge_file \<Rightarrow> famez_adapter \<Rightarrow> int \<times> famez_adapter" where
  "famez_bridge_flush f a = (0, if f_count f = 1 then a\<lparr>nr_users := nr_users a - 1\<rparr> else a)"

text \<open>\<open>BUG_ON(nr_users)\<close> stops the kernel: no result.\<close>

definition famez_bridge_release :: "famez_adapter \<Rightarrow> kheap \<Rightarrow> (int \<times> famez_adapter \<times> kheap) option" where
  "famez_bridge_release a h =
     (if nr_users a \<noteq> 0 then None
      else do {
        b \<leftarrow> outgoing a;
        h1 \<leftarrow> kfree (Some (wbuf_addr b)) h;
        h2 \<leftarrow> kfree (Some (buffers_addr b)) h1;
        Some (0, a\<lparr>outgoing := None\<rparr>, h2)
      })"

section \<open>Read\<close>

text \<open>The text "CID,SID:" in front of a message.\<close>

definition sender_prefix :: "famez_mailslot \<Rightarrow> string" where
  "sender_prefix m = dec_u64 (peer_CID m) @ CHR '','' # dec_u64 (peer_SID m) @ [CHR '':'']"

text \<open>The label \<open>read_complete\<close>.\<close>

definition read_complete ::
  "int \<Rightarrow> bridge_file \<Rightarrow> user_mem \<Rightarrow> famez_adapter \<Rightarrow> fz_world \<Rightarrow>
     (int \<times> bridge_file \<times> user_mem \<times> famez_adapter \<times> fz_world) option" where
  "read_complete ret f um a w = do {
     (a1, w1) \<leftarrow> famez_release_incoming a w;
     Some (ret, f, um, a1, w1)
   }"

definition famez_bridge_read ::
  "kenv \<Rightarrow> user_env \<Rightarrow> u64 \<Rightarrow> bridge_file \<Rightarrow> user_mem \<Rightarrow> famez_adapter \<Rightarrow> fz_world \<Rightarrow>
     (int \<times> bridge_file \<times> user_mem \<times> famez_adapter \<times> fz_world) option" where
  "famez_bridge_read K U count f um a w =
     (case famez_await_incoming K (f_nonblock f) a w of
        (Inl e, a1, w1) \<Rightarrow> Some (e, f, um, a1, w1)
      | (Inr sender, a1, w1) \<Rightarrow> do {
          m \<leftarrow> deref_slot sender w1;
          (sidcidstr, n) \<leftarrow> snprintf (replicate 32 NUL) 31 (sender_prefix m);
          if n \<ge> 32 \<or> count < buflen m + of_nat n - 1 then read_complete (- E2BIG) f um a1 w1
          else case copy_to_user U 0 (take n sidcidstr) um of (ret, um1) \<Rightarrow>
            if ret \<noteq> 0 then read_complete (if ret > 0 then - EFAULT else ret) f um1 a1 w1
            else do {
              body \<leftarrow> (if unat (buflen m) \<le> length (buf m) then Some (take (unat (buflen m)) (buf m)) else None);
              case copy_to_user U n body um1 of (ret2, um2) \<Rightarrow>
                let ret3 = (if ret2 = 0 then to_int (buflen m + of_nat n)
                            else if ret2 > 0 then - EFAULT else ret2) in
                read_complete ret3 (if ret3 > 0 then f\<lparr>f_pos := 0\<rparr> else f) um2 a1 w1
            }
        })"

section \<open>Write\<close>

text \<open>
  The destination in front of the colon: the SID and CID, or the error of \<open>kstrtoint\<close>.
  With a comma the first number is stored in \<open>SID\<close> and the second in \<open>CID\<close>.
\<close>

definition parse_dest ::
  "user_env \<Rightarrow> bytes \<Rightarrow> famez_adapter \<Rightarrow> fz_world \<Rightarrow> (bytes \<times> (int + int \<times> int)) option" where
  "parse_dest U wb a w =
     (if STREQ wb ''server'' \<or> STREQ wb ''switch'' \<or> STREQ wb ''link'' \<or> STREQ wb ''interface'' then do {
        g \<leftarrow> deref_globals a w;
        Some (wb, Inr (FAMEZ_SID_CID_IS_PEER_ID, to_int (server_id g)))
      }
      else (case strchr wb (CHR '','') of
              Some comma \<Rightarrow>
                let wb' = wb[comma := NUL] in
                (case kstrtoint U (cstr wb') of
                   Inl e \<Rightarrow> Some (wb', Inl e)
                 | Inr SID \<Rightarrow>
                     (case kstrtoint U (cstr (drop (comma + 1) wb')) of
                        Inl e \<Rightarrow> Some (wb', Inl e)
                      | Inr CID \<Rightarrow> Some (wb', Inr (SID, CID))))
            | None \<Rightarrow>
                (case kstrtoint U (cstr wb) of
                   Inl e \<Rightarrow> Some (wb, Inl e)
                 | Inr CID \<Rightarrow> Some (wb, Inr (FAMEZ_SID_CID_IS_PEER_ID, CID)))))"

text \<open>The label \<open>unlock_return\<close>.\<close>

definition unlock_return ::
  "int \<Rightarrow> bridge_buffers \<Rightarrow> famez_adapter \<Rightarrow> fz_world \<Rightarrow> (int \<times> famez_adapter \<times> fz_world) option" where
  "unlock_return ret b a w = do {
     l \<leftarrow> mutex_unlock (wbuf_mutex b);
     Some (ret, a\<lparr>outgoing := Some (b\<lparr>wbuf_mutex := l\<rparr>)\<rparr>, w)
   }"

text \<open>What the caller is told: the whole length, although the destination was cut off.\<close>

definition write_result :: "int \<Rightarrow> u64 \<Rightarrow> u64 \<Rightarrow> int" where
  "write_result ret len count =
     (if ret = - ETIMEDOUT then ret
      else if to_u64 ret = len then to_int count
      else if ret \<ge> 0 then - EIO
      else ret)"

definition famez_bridge_write ::
  "kenv \<Rightarrow> user_env \<Rightarrow> bytes \<Rightarrow> u64 \<Rightarrow> famez_adapter \<Rightarrow> fz_world \<Rightarrow> (int \<times> famez_adapter \<times> fz_world) option" where
  "famez_bridge_write K U ubuf count a w =
     (if count \<ge> max_buflen a - 1 then Some (- E2BIG, a, w)
      else do {
        b \<leftarrow> outgoing a;
        l \<leftarrow> mutex_lock (wbuf_mutex b);
        case copy_from_user U ubuf (unat count) of (ret, got) \<Rightarrow> do {
          wb1 \<leftarrow> memcpy (wbuf b) got (length got);
          let b1 = b\<lparr>wbuf := wb1, wbuf_mutex := l\<rparr>;
          if ret \<noteq> 0 then unlock_return (if ret > 0 then - EFAULT else ret) b1 a w
          else do {
            wb2 \<leftarrow> put_byte wb1 (unat count) NUL;
            (case strchr wb2 (CHR '':'') of
               None \<Rightarrow> unlock_return (- EBADMSG) (b1\<lparr>wbuf := wb2\<rparr>) a w
             | Some colon \<Rightarrow> do {
                 let wb3 = wb2[colon := NUL];
                 let len = count - of_nat (colon + 1);
                 (wb4, dest) \<leftarrow> parse_dest U wb3 a w;
                 let b4 = b1\<lparr>wbuf := wb4\<rparr>;
                 (case dest of
                    Inl e \<Rightarrow> unlock_return e b4 a w
                  | Inr (SID, CID) \<Rightarrow> do {
                      (ret4, w4) \<leftarrow> restart_send 2 (famez_create_outgoing K CID SID (drop (colon + 1) wb4) len a) w;
                      unlock_return (write_result ret4 len count) b4 a w4
                    })
               })
          }
        }
      })"

section \<open>Poll\<close>

definition POLLIN :: u32 where "POLLIN = 0x0001"
definition POLLOUT :: u32 where "POLLOUT = 0x0004"
definition POLLRDNORM :: u32 where "POLLRDNORM = 0x0040"
definition POLLWRNORM :: u32 where "POLLWRNORM = 0x0100"

definition famez_bridge_poll :: "famez_adapter \<Rightarrow> fz_world \<Rightarrow> u32 option" where
  "famez_bridge_poll a w = do {
     m \<leftarrow> deref_slot (my_slot a) w;
     let ret = POLLIN OR POLLRDNORM;
     Some (if buflen m = 0 then ret OR POLLOUT OR POLLWRNORM else ret)
   }"

section \<open>Documented behaviour of the copy routines\<close>

text \<open>
  \<open>copy_to_user\<close> and \<open>copy_from_user\<close> return the number of bytes not copied, so 0 means
  that everything was; \<open>kstrtoint\<close> reads what \<open>%d\<close> prints and its errors are negative.
\<close>

definition stored :: "nat \<Rightarrow> bytes \<Rightarrow> user_mem \<Rightarrow> user_mem" where
  "stored off src um = (\<lambda>i. if off \<le> i \<and> i < off + length src then src ! (i - off) else um i)"

definition user_env_ok :: "user_env \<Rightarrow> bool" where
  "user_env_ok U \<longleftrightarrow>
     (\<forall>off src um um'. copy_to_user U off src um = (0, um') \<longrightarrow> um' = stored off src um) \<and>
     (\<forall>ub n. length (snd (copy_from_user U ub n)) \<le> n) \<and>
     (\<forall>ub n got. copy_from_user U ub n = (0, got) \<longrightarrow> got = take n ub \<and> n \<le> length ub) \<and>
     (\<forall>i. - (2 ^ 31) \<le> i \<and> i < 2 ^ 31 \<longrightarrow> kstrtoint U (dec_int i) = Inr i) \<and>
     (\<forall>t e. kstrtoint U t = Inl e \<longrightarrow> e < 0)"

lemma stored_append: "stored (length xs) ys (stored 0 xs um) = stored 0 (xs @ ys) um"
  by (auto simp: stored_def nth_append fun_eq_iff)

section \<open>Reading\<close>

lemma snprintf_prefix:
  assumes "length t \<le> 30"
  shows "\<exists>d. snprintf (replicate 32 NUL) 31 t = Some (d, length t) \<and> take (length t) d = t"
  using assms by (simp add: snprintf_def Let_def memcpy_def del: replicate.simps)

lemma reply_size:
  assumes "unat (len :: u64) < 2 ^ 30" and "n \<le> 30" and "0 < n"
  shows "unat (len + of_nat n) = unat len + n" and "unat (len + of_nat n - 1) = unat len + n - 1"
proof -
  show tot: "unat (len + of_nat n) = unat len + n"
    using assms(1,2) by (simp add: unat_word_ariths unat_of_nat)
  have "1 \<le> len + of_nat n" using assms(3) by (simp add: word_le_nat_alt tot)
  then show "unat (len + of_nat n - 1) = unat len + n - 1" using tot by (simp add: unat_sub)
qed

text \<open>
  A pending message is handed over as "CID,SID:message" and its slot is given back. The
  size check admits a buffer one byte short of that.
\<close>

lemma read_message:
  assumes inc: "incoming_slot a = Some p" "\<not> incoming_slot_lock a" and m: "m = bar2 w p"
    and pre: "length (sender_prefix m) \<le> 30" and len: "unat (buflen m) \<le> length (buf m)" "unat (buflen m) < 2 ^ 30"
    and count: "length (sender_prefix m) + unat (buflen m) \<le> unat count + 1"
    and U: "user_env_ok U" "copy_to_user U 0 (sender_prefix m) um = (0, um1)"
    "copy_to_user U (length (sender_prefix m)) (take (unat (buflen m)) (buf m)) um1 = (0, um2)"
  shows "famez_bridge_read K U count f um a w =
    Some (int (length (sender_prefix m) + unat (buflen m)), f\<lparr>f_pos := 0\<rparr>,
      stored 0 (sender_prefix m @ take (unat (buflen m)) (buf m)) um,
      a\<lparr>incoming_slot := None\<rparr>, put_slot p (m\<lparr>buflen := 0\<rparr>) w)"
proof -
  let ?n = "length (sender_prefix m)"
  obtain d where d: "snprintf (replicate 32 NUL) 31 (sender_prefix m) = Some (d, ?n)" "take ?n d = sender_prefix m"
    using snprintf_prefix [OF pre] by blast
  have n0: "0 < ?n" by (simp add: sender_prefix_def)
  note tot = reply_size(1) [OF len(2) pre n0]
  have c: "\<not> count < buflen m + of_nat ?n - 1"
    using count reply_size(2) [OF len(2) pre n0] by (simp add: word_less_nat_alt)
  have "to_int (buflen m + of_nat ?n) = int (unat (buflen m + of_nat ?n))"
    using tot len(2) pre by (intro to_int_small) simp
  then have r: "to_int (buflen m + of_nat ?n) = int (?n + unat (buflen m))" using tot by simp
  have pos: "0 < int (?n + unat (buflen m))" using n0 unfolding of_nat_0_less_iff by simp
  have um: "um2 = stored 0 (sender_prefix m @ take (unat (buflen m)) (buf m)) um"
    using U by (simp add: user_env_ok_def flip: stored_append)
  have a0: "a\<lparr>incoming_slot := None, incoming_slot_lock := False\<rparr> = a\<lparr>incoming_slot := None\<rparr>" using inc(2) by simp
  have "famez_await_incoming K (f_nonblock f) a w = (Inr (Some p), a, w)"
    using inc(1) by (simp add: famez_await_incoming_def)
  then show ?thesis
    using pre len(1) pos a0 unfolding famez_bridge_read_def Let_def
    by (simp add: d c r U(2,3) um [symmetric] m [symmetric] read_complete_def release_incoming_run [OF inc] del: replicate.simps)
qed

text \<open>Without a message a non-blocking read fails and changes nothing.\<close>

lemma read_would_block:
  assumes "incoming_slot a = None" and "f_nonblock f"
  shows "famez_bridge_read K U count f um a w = Some (- EAGAIN, f, um, a, w)"
  using assms by (simp add: famez_bridge_read_def famez_await_incoming_def)

text \<open>A buffer that is too small loses the message: the slot is given back all the same.\<close>

lemma read_too_small:
  assumes inc: "incoming_slot a = Some p" "\<not> incoming_slot_lock a" and m: "m = bar2 w p"
    and pre: "length (sender_prefix m) \<le> 30" and len: "unat (buflen m) < 2 ^ 30"
    and count: "unat count + 1 < length (sender_prefix m) + unat (buflen m)"
  shows "famez_bridge_read K U count f um a w =
    Some (- E2BIG, f, um, a\<lparr>incoming_slot := None\<rparr>, put_slot p (m\<lparr>buflen := 0\<rparr>) w)"
proof -
  let ?n = "length (sender_prefix m)"
  obtain d where d: "snprintf (replicate 32 NUL) 31 (sender_prefix m) = Some (d, ?n)"
    using snprintf_prefix [OF pre] by blast
  have n0: "0 < ?n" by (simp add: sender_prefix_def)
  have c: "count < buflen m + of_nat ?n - 1"
    using count reply_size(2) [OF len pre n0] by (simp add: word_less_nat_alt)
  have a0: "a\<lparr>incoming_slot := None, incoming_slot_lock := False\<rparr> = a\<lparr>incoming_slot := None\<rparr>" using inc(2) by simp
  have "famez_await_incoming K (f_nonblock f) a w = (Inr (Some p), a, w)"
    using inc(1) by (simp add: famez_await_incoming_def)
  then show ?thesis
    using a0 unfolding famez_bridge_read_def Let_def
    by (simp add: d c m [symmetric] read_complete_def release_incoming_run [OF inc] del: replicate.simps)
qed

section \<open>Writing\<close>

definition buffers_ok :: "famez_adapter \<Rightarrow> bool" where
  "buffers_ok a \<longleftrightarrow> (\<exists>b. outgoing a = Some b \<and> \<not> wbuf_mutex b \<and> length (wbuf b) = unat (max_buflen a))"

lemma cstr_stops: "i < length b \<Longrightarrow> b ! i = NUL \<Longrightarrow> length (cstr b) \<le> i"
  unfolding cstr_def by (metis (mono_tags) length_takeWhile_le not_le nth_mem set_takeWhileD takeWhile_nth)

lemma parse_dest_returns:
  assumes "globals a" and "user_env_ok U"
  shows "\<exists>wb' r. parse_dest U wb a w = Some (wb', r) \<and> length wb' = length wb \<and> (\<forall>e. r = Inl e \<longrightarrow> e < 0)"
  using assms by (auto simp: parse_dest_def user_env_ok_def Let_def split: option.splits sum.splits)

lemma unlock_return_run:
  "wbuf_mutex b \<Longrightarrow> length (wbuf b) = unat (max_buflen a) \<Longrightarrow>
    \<exists>a'. unlock_return r b a w = Some (r, a', w) \<and> buffers_ok a' \<and> (\<exists>x. a' = a\<lparr>outgoing := x\<rparr>)"
  by (auto simp: unlock_return_def buffers_ok_def)

lemma to_u64_neg: "- 4095 \<le> r \<Longrightarrow> r < 0 \<Longrightarrow> unat len < 2 ^ 31 \<Longrightarrow> to_u64 r \<noteq> len"
proof
  assume r: "- 4095 \<le> r" "r < 0" and len: "unat len < 2 ^ 31" and eq: "to_u64 r = len"
  have "uint (word_of_int r :: u64) = r mod 2 ^ 64" by (simp add: uint_word_of_int)
  also have "\<dots> = (r + 2 ^ 64) mod 2 ^ 64" by simp
  also have "\<dots> = r + 2 ^ 64" using r by (intro mod_pos_pos_trivial) simp_all
  finally have "uint len = r + 2 ^ 64" using eq by (simp add: to_u64_def)
  moreover have "uint len < 2 ^ 31" using len by (metis of_nat_less_iff of_nat_numeral of_nat_power of_nat_unat)
  ultimately show False using r by simp
qed

text \<open>
  Whatever the user writes, the call returns with the mutex free. Either it fails and no
  bell was rung, or it reports the whole length and exactly one bell was rung.
\<close>

definition write_outcome :: "u64 \<Rightarrow> famez_adapter \<Rightarrow> fz_world \<Rightarrow> int \<Rightarrow> famez_adapter \<Rightarrow> fz_world \<Rightarrow> bool" where
  "write_outcome count a w r a' w' \<longleftrightarrow> buffers_ok a' \<and> adapter_inv a' w' \<and> (\<exists>x. a' = a\<lparr>outgoing := x\<rparr>) \<and>
     (r < 0 \<and> bells w' = bells w \<or>
      r = int (unat count) \<and> (\<exists>d. bells w' = bells w @ [(d, unat (my_id a))]))"

lemma write_sends:
  assumes inv: "adapter_inv a w" and K: "delay_keeps_layout K" "clock_runs K" and room: "clock_room K 3 w"
    and b: "wbuf_mutex b" "length (wbuf b) = unat (max_buflen a)"
    and len: "unat len \<le> length msg" "unat len < 2 ^ 31" and cnt: "unat count < 2 ^ 31"
  shows "\<exists>r a' w'. do { (ret4, w4) \<leftarrow> restart_send 2 (famez_create_outgoing K CID SID msg len a) w;
       unlock_return (write_result ret4 len count) b a w4 } = Some (r, a', w') \<and> write_outcome count a w r a' w'"
proof -
  let ?I = "adapter_inv a w \<and> delay_keeps_layout K \<and> clock_runs K"
  have I: ?I using inv K by simp
  have room': "clock_room K (Suc 2) w" using room by (simp add: numeral_3_eq_3 numeral_2_eq_2)
  obtain r4 w4 where s: "restart_send 2 (famez_create_outgoing K CID SID msg len a) w = Some (r4, w4)"
    using ivshmsg.restart_returns [OF I len(1) room', of "(CID, SID)"] by auto
  have o: "adapter_inv a w4" "r4 \<noteq> 0" "if 0 < r4 then r4 = int (unat len) \<and> bells w4 = bells w @ [(unat (outgoing_peer CID SID), unat (my_id a))]
      else - 4095 \<le> r4 \<and> r4 < 0 \<and> bells w4 = bells w"
    using ivshmsg.restart_once [OF I len(1), of 2 "(CID, SID)" r4 w4] s by (auto split: if_splits)
  obtain a' where u: "unlock_return (write_result r4 len count) b a w4 = Some (write_result r4 len count, a', w4)"
    "buffers_ok a'" "\<exists>x. a' = a\<lparr>outgoing := x\<rparr>" using unlock_return_run [OF b] by blast
  have inv': "adapter_inv a' w4" using o(1) u(3) by auto
  have "r4 < 0 \<Longrightarrow> write_result r4 len count = r4"
    using o(3) to_u64_neg [OF _ _ len(2), of r4] by (auto simp: write_result_def)
  moreover have "0 < r4 \<Longrightarrow> write_result r4 len count = int (unat count)"
    using o(3) to_int_small [of count] cnt by (auto simp: write_result_def to_u64_def)
  ultimately show ?thesis
    using s u inv' o by (cases "0 < r4") (auto simp: write_outcome_def)
qed

lemma write_count_bound:
  assumes "adapter_inv a w" and "\<not> count \<ge> max_buflen a - 1"
  shows "unat count + 1 < unat (max_buflen a)" and "unat count < 2 ^ 31"
proof -
  have "0 < unat (max_buflen a)"
    using assms(1) max_buflen_bound(1) [OF assms(1)] by (simp add: adapter_inv_def geometry_def word_less_nat_alt offsetof_buf_def)
  then have "unat (max_buflen a - 1) = unat (max_buflen a) - 1" by (simp add: unat_sub word_le_nat_alt)
  then show "unat count + 1 < unat (max_buflen a)" using assms(2) by (simp add: word_le_nat_alt)
  then show "unat count < 2 ^ 31" using max_buflen_bound(2) [OF assms(1)] by simp
qed

lemma unat_minus_of_nat: "n \<le> unat c \<Longrightarrow> unat ((c :: u64) - of_nat n) = unat c - n"
proof -
  assume n: "n \<le> unat c"
  moreover have "n < 2 ^ 64" using n le_less_trans [OF n unat_less_2p [of c]] by simp
  then have "unat (of_nat n :: u64) = n" by (rule unat_of_nat_small)
  ultimately show ?thesis using unat_sub [of "of_nat n" c] by (simp add: word_le_nat_alt)
qed

text \<open>The locked buffer with given contents.\<close>

definition held_buf :: "bridge_buffers \<Rightarrow> bytes \<Rightarrow> bridge_buffers" where
  "held_buf b x = b\<lparr>wbuf := x, wbuf_mutex := True\<rparr>"

lemma held_buf_simps [simp]:
  "(held_buf b x)\<lparr>wbuf := y\<rparr> = held_buf b y" "wbuf_mutex (held_buf b x)" "wbuf (held_buf b x) = x"
  by (cases b; simp add: held_buf_def)+

lemma write_run:
  assumes big: "\<not> count \<ge> max_buflen a - 1" and b: "outgoing a = Some b" "\<not> wbuf_mutex b" "length (wbuf b) = unat (max_buflen a)"
    and cp: "copy_from_user U ubuf (unat count) = (ret, got)" "length got \<le> unat count"
    and cnt: "unat count + 1 < unat (max_buflen a)"
    and wb1: "wb1 = got @ drop (length got) (wbuf b)" and wb2: "wb2 = wb1[unat count := NUL]"
  shows "famez_bridge_write K U ubuf count a w =
    (if ret \<noteq> 0 then unlock_return (if ret > 0 then - EFAULT else ret) (held_buf b wb1) a w
     else case strchr wb2 (CHR '':'') of
       None \<Rightarrow> unlock_return (- EBADMSG) (held_buf b wb2) a w
     | Some i \<Rightarrow> do {
         (wb4, dest) \<leftarrow> parse_dest U (wb2[i := NUL]) a w;
         (case dest of
            Inl e \<Rightarrow> unlock_return e (held_buf b wb4) a w
          | Inr (SID, CID) \<Rightarrow> do {
              (ret4, w4) \<leftarrow> restart_send 2 (famez_create_outgoing K CID SID (drop (i + 1) wb4) (count - of_nat (i + 1)) a) w;
              unlock_return (write_result ret4 (count - of_nat (i + 1)) count) (held_buf b wb4) a w4 }) })"
proof -
  have mc: "memcpy (wbuf b) got (length got) = Some wb1" using cp(2) cnt b(3) by (simp add: memcpy_def wb1)
  have "length wb1 = unat (max_buflen a)" using cp(2) cnt b(3) by (simp add: wb1)
  then have "put_byte wb1 (unat count) NUL = Some wb2" using cnt by (simp add: wb2)
  then show ?thesis
    using big b(1,2) cp(1) mc unfolding famez_bridge_write_def Let_def
    by (cases "strchr wb2 (CHR '':'')") (simp_all add: held_buf_def [symmetric])
qed

lemma write_once:
  assumes inv: "adapter_inv a w" and K: "delay_keeps_layout K" "clock_runs K" and room: "clock_room K 3 w"
    and ok: "buffers_ok a" and U: "user_env_ok U"
  shows "\<exists>r a' w'. famez_bridge_write K U ubuf count a w = Some (r, a', w') \<and> write_outcome count a w r a' w'"
proof (cases "count \<ge> max_buflen a - 1")
  case True
  moreover have "\<exists>x. a = a\<lparr>outgoing := x\<rparr>" by (intro exI [of _ "outgoing a"]) simp
  ultimately show ?thesis using ok inv by (simp add: famez_bridge_write_def write_outcome_def)
next
  case False
  note cnt = write_count_bound [OF inv False]
  obtain b where b: "outgoing a = Some b" "\<not> wbuf_mutex b" "length (wbuf b) = unat (max_buflen a)"
    using ok by (auto simp: buffers_ok_def)
  obtain ret got where cp: "copy_from_user U ubuf (unat count) = (ret, got)" by (metis surj_pair)
  have got: "length got \<le> unat count" using U cp unfolding user_env_ok_def by (metis snd_conv)
  define wb1 where "wb1 = got @ drop (length got) (wbuf b)"
  define wb2 where "wb2 = wb1[unat count := NUL]"
  have l: "length wb1 = unat (max_buflen a)" "length wb2 = unat (max_buflen a)"
    using got cnt b(3) by (simp_all add: wb1_def wb2_def)
  have fail: "\<exists>r a' w'. unlock_return e (held_buf b x) a w = Some (r, a', w') \<and> write_outcome count a w r a' w'"
    if "e < 0" "length x = unat (max_buflen a)" for e x
    using unlock_return_run [of "held_buf b x" a e w] that inv by (auto simp: write_outcome_def)
  note run = write_run [OF False b cp got cnt(1) wb1_def wb2_def, of K w]
  show ?thesis
  proof (cases "strchr wb2 (CHR '':'')")
    case None
    then show ?thesis unfolding run using fail l by simp
  next
    case (Some i)
    have "length (cstr wb2) \<le> unat count" using l cnt by (intro cstr_stops) (simp_all add: wb2_def)
    then have i: "i < unat count" using Some index_of_Some [of _ "cstr wb2" i] by (force simp: strchr_def)
    obtain wb4 dest where pd: "parse_dest U (wb2[i := NUL]) a w = Some (wb4, dest)" "length wb4 = unat (max_buflen a)"
      and e: "\<And>e. dest = Inl e \<Longrightarrow> e < 0"
      using parse_dest_returns [of a U "wb2[i := NUL]" w] inv U l(2) by (auto simp: adapter_inv_def)
    have len: "unat (count - of_nat (i + 1)) = unat count - (i + 1)"
      using i cnt(2) by (intro unat_minus_of_nat) simp_all
    have fits: "unat (count - of_nat (i + 1)) \<le> length (drop (i + 1) wb4)" "unat (count - of_nat (i + 1)) < 2 ^ 31"
      using len pd(2) cnt i by simp_all
    have held: "wbuf_mutex (held_buf b wb4)" "length (wbuf (held_buf b wb4)) = unat (max_buflen a)"
      using pd(2) by simp_all
    note sends = write_sends [OF inv K room held fits cnt(2)]
    show ?thesis unfolding run Some option.case pd(1) bind.bind_lunit prod.case
      using fail l(1) pd(2) e sends by (cases dest) (auto simp del: of_nat_add)
  qed
qed

section \<open>What a write delivers\<close>

lemma digits_only: "c \<in> set (dec_int (int d)) \<Longrightarrow> isdigit c"
  by (auto simp: dec_int_def dest: dec_nat_digits)

lemma dec_int_not_keyword:
  assumes "t \<noteq> []" and "\<not> isdigit (hd t)"
  shows "dec_int (int d) \<noteq> t"
proof
  assume "dec_int (int d) = t"
  with assms digits_only [of "hd t" d] show False by auto
qed

text \<open>The buffer after the copy: the text, split at its first colon.\<close>

lemma write_split:
  assumes "CHR '':'' \<notin> set pre" "NUL \<notin> set pre"
  shows "strchr (pre @ CHR '':'' # r) (CHR '':'') = Some (length pre)"
    and "(pre @ CHR '':'' # r)[length pre := NUL] = pre @ NUL # r"
proof -
  have "cstr (pre @ CHR '':'' # r) = pre @ CHR '':'' # cstr r" using assms(2) by (induction pre) (auto simp: cstr_def)
  then show "strchr (pre @ CHR '':'' # r) (CHR '':'') = Some (length pre)"
    using index_of_append [OF assms(1)] by (simp add: strchr_def)
qed simp

lemma copied_text:
  "length t < length wb \<Longrightarrow> (t @ drop (length t) wb)[length t := NUL] = t @ NUL # drop (Suc (length t)) wb"
  by (simp add: list_update_append Cons_nth_drop_Suc [symmetric])

lemma parse_dest_number:
  assumes U: "user_env_ok U" and d: "d < 2 ^ 31"
  shows "parse_dest U (dec_int (int d) @ NUL # r) a w
    = Some (dec_int (int d) @ NUL # r, Inr (FAMEZ_SID_CID_IS_PEER_ID, int d))"
proof -
  have c: "cstr (dec_int (int d) @ NUL # r) = dec_int (int d)" by simp
  have "\<not> isdigit (CHR '','')" by (simp add: isdigit_def)
  then have comma: "strchr (dec_int (int d) @ NUL # r) (CHR '','') = None"
    unfolding strchr_def c index_of_None using digits_only by blast
  have k: "\<not> STREQ (dec_int (int d) @ NUL # r) t" if "t \<in> {''server'', ''switch'', ''link'', ''interface''}" for t
    using that dec_int_not_keyword [of t d] unfolding STREQ_def c by (auto simp: isdigit_def)
  have "kstrtoint U (dec_int (int d)) = Inr (int d)" using U d by (simp add: user_env_ok_def)
  with k comma show ?thesis by (simp add: parse_dest_def c)
qed

text \<open>A write of "\<open>d\<close>:\<open>msg\<close>" is a send of \<open>msg\<close> to peer \<open>d\<close>.\<close>

lemma write_parsed:
  assumes inv: "adapter_inv a w" and b: "outgoing a = Some b" "\<not> wbuf_mutex b" "length (wbuf b) = unat (max_buflen a)"
    and U: "user_env_ok U" "copy_from_user U ubuf (length ubuf) = (0, got)"
    and ubuf: "ubuf = dec_int (int d) @ CHR '':'' # msg"
    and len: "length ubuf + 1 < unat (max_buflen a)" and d: "d < 2 ^ 31"
  shows "\<exists>r. famez_bridge_write K U ubuf (of_nat (length ubuf)) a w = do {
      (ret4, w4) \<leftarrow> restart_send 2 (famez_create_outgoing K (int d) FAMEZ_SID_CID_IS_PEER_ID (msg @ NUL # r) (of_nat (length msg)) a) w;
      unlock_return (write_result ret4 (of_nat (length msg)) (of_nat (length ubuf))) (held_buf b (dec_int (int d) @ NUL # msg @ NUL # r)) a w4 } \<and>
    length (dec_int (int d) @ NUL # msg @ NUL # r) = unat (max_buflen a)"
proof -
  let ?n = "length ubuf" and ?i = "length (dec_int (int d))"
  have "?n < 2 ^ 31" using len max_buflen_bound(2) [OF inv] by simp
  then have n: "unat (of_nat ?n :: u64) = ?n" by (intro unat_of_nat_small) simp
  have got: "got = ubuf" using U unfolding user_env_ok_def by (metis order_refl take_all)
  have "unat (max_buflen a - 1) = unat (max_buflen a) - 1" using len by (simp add: unat_sub word_le_nat_alt)
  then have big: "\<not> of_nat ?n \<ge> max_buflen a - 1" using len by (simp add: word_le_nat_alt n)
  define wb2 where "wb2 = (ubuf @ drop ?n (wbuf b))[?n := NUL]"
  define r where "r = drop (Suc ?n) (wbuf b)"
  have "wb2 = ubuf @ NUL # r"
    using len b(3) copied_text [of ubuf "wbuf b"] by (simp add: wb2_def r_def)
  then have wb2: "wb2 = dec_int (int d) @ CHR '':'' # msg @ NUL # r" by (simp add: ubuf)
  have col: "CHR '':'' \<notin> set (dec_int (int d))" using digits_only [of "CHR '':''" d] by (auto simp: isdigit_def)
  have split: "strchr wb2 (CHR '':'') = Some ?i" "wb2[?i := NUL] = dec_int (int d) @ NUL # msg @ NUL # r"
    unfolding wb2 using write_split [OF col] by simp_all
  have le: "of_nat ?n - of_nat (?i + 1) = (of_nat (length msg) :: u64)" by (simp add: ubuf)
  have c2: "copy_from_user U ubuf (unat (of_nat ?n :: u64)) = (0, ubuf)" "length ubuf \<le> unat (of_nat ?n :: u64)"
    "unat (of_nat ?n :: u64) + 1 < unat (max_buflen a)" using n U(2) got len by simp_all
  have wb2': "wb2 = (ubuf @ drop (length ubuf) (wbuf b))[unat (of_nat ?n :: u64) := NUL]" by (simp only: wb2_def n)
  have "famez_bridge_write K U ubuf (of_nat ?n) a w = do {
      (ret4, w4) \<leftarrow> restart_send 2 (famez_create_outgoing K (int d) FAMEZ_SID_CID_IS_PEER_ID (msg @ NUL # r) (of_nat (length msg)) a) w;
      unlock_return (write_result ret4 (of_nat (length msg)) (of_nat ?n)) (held_buf b (dec_int (int d) @ NUL # msg @ NUL # r)) a w4 }"
    unfolding write_run [OF big b c2 refl wb2', of K w] split option.case parse_dest_number [OF U(1) d] le by simp
  moreover have "length (dec_int (int d) @ NUL # msg @ NUL # r) = unat (max_buflen a)"
    using len b(3) by (simp add: r_def ubuf)
  ultimately show ?thesis by blast
qed

lemma write_delivers:
  assumes inv: "adapter_inv a w" and ok: "buffers_ok a" and U: "user_env_ok U" "copy_from_user U ubuf (length ubuf) = (0, got)"
    and ubuf: "ubuf = dec_int (int d) @ CHR '':'' # msg"
    and len: "length ubuf + 1 < unat (max_buflen a)" and msg: "msg \<noteq> []"
    and d: "0 < d" "d \<le> unat (server_id (bar2_globals w))" and free: "mail w (unat (my_id a)) = None"
    and p: "p = slot_off (bar2_globals w) (unat (my_id a))"
  shows "\<exists>x r w'. famez_bridge_write K U ubuf (of_nat (length ubuf)) a w
      = Some (int (length ubuf), a\<lparr>outgoing := x\<rparr>, w') \<and> buffers_ok (a\<lparr>outgoing := x\<rparr>) \<and>
    adapter_inv a w' \<and> bar2_globals w' = bar2_globals w \<and>
    bar2 w' p = (bar2 w p)\<lparr>buflen := of_nat (length msg), last_responder := of_nat d, buf := msg @ NUL # r\<rparr> \<and>
    (\<forall>q. q \<noteq> p \<longrightarrow> bar2 w' q = bar2 w q) \<and>
    (\<forall>j \<le> 2 ^ 16. mail w' j = (if j = unat (my_id a) then Some (d, msg) else mail w j)) \<and>
    bells w' = bells w @ [(d, unat (my_id a))]"
proof -
  let ?n = "length ubuf"
  obtain b where b: "outgoing a = Some b" "\<not> wbuf_mutex b" "length (wbuf b) = unat (max_buflen a)"
    using ok by (auto simp: buffers_ok_def)
  have small: "?n < 2 ^ 31" using len max_buflen_bound(2) [OF inv] by simp
  have d31: "d < 2 ^ 31"
    using d(2) geometry_unat(1) [of "bar2_globals w"] inv by (auto simp: adapter_inv_def geometry_def)
  obtain r0 where run: "famez_bridge_write K U ubuf (of_nat ?n) a w = do {
      (ret4, w4) \<leftarrow> restart_send 2 (famez_create_outgoing K (int d) FAMEZ_SID_CID_IS_PEER_ID (msg @ NUL # r0) (of_nat (length msg)) a) w;
      unlock_return (write_result ret4 (of_nat (length msg)) (of_nat ?n)) (held_buf b (dec_int (int d) @ NUL # msg @ NUL # r0)) a w4 }"
    and lb: "length (dec_int (int d) @ NUL # msg @ NUL # r0) = unat (max_buflen a)"
    using write_parsed [OF inv b U ubuf len d31, of K] by blast
  have lm: "unat (of_nat (length msg) :: u64) = length msg" using small by (intro unat_of_nat_small) (simp add: ubuf)
  have peer: "unat (outgoing_peer (int d) FAMEZ_SID_CID_IS_PEER_ID) = d" using d31 by (rule outgoing_peer_id)
  then have peer': "(ucast (outgoing_peer (int d) FAMEZ_SID_CID_IS_PEER_ID) :: u64) = of_nat d"
    by (metis of_nat_unat)
  have oko: "outgoing_ok (int d) FAMEZ_SID_CID_IS_PEER_ID (of_nat (length msg)) a w"
    unfolding outgoing_ok_def peer lm using d msg len by (simp add: ubuf)
  have lr: "unat (of_nat (length msg) :: u64) \<le> length (msg @ NUL # r0)" by (simp add: lm)
  have tk: "take (length msg) (msg @ NUL # r0) = msg" by simp
  obtain w' where s: "famez_create_outgoing K (int d) FAMEZ_SID_CID_IS_PEER_ID (msg @ NUL # r0) (of_nat (length msg)) a w
      = Some (int (length msg), w')" and rest: "adapter_inv a w'" "bar2_globals w' = bar2_globals w"
    "bar2 w' p = posted_slot (outgoing_peer (int d) FAMEZ_SID_CID_IS_PEER_ID) (msg @ NUL # r0) (of_nat (length msg)) (bar2 w p)"
    "\<forall>q. q \<noteq> p \<longrightarrow> bar2 w' q = bar2 w q"
    "\<forall>j \<le> 2 ^ 16. mail w' j = (if j = unat (my_id a) then Some (d, msg) else mail w j)"
    "bells w' = bells w @ [(d, unat (my_id a))]"
    using create_outgoing_delivers [OF inv oko lr free, of K] unfolding lm peer tk p by blast
  have n: "unat (of_nat ?n :: u64) = ?n" using small by (intro unat_of_nat_small) simp
  have "to_int (of_nat ?n) = int (unat (of_nat ?n :: u64))" using n small by (intro to_int_small) simp
  then have "to_int (of_nat ?n) = int ?n" unfolding n .
  then have wr: "write_result (int (length msg)) (of_nat (length msg)) (of_nat ?n) = int ?n"
    by (simp add: write_result_def to_u64_def)
  obtain a' where "unlock_return (int ?n) (held_buf b (dec_int (int d) @ NUL # msg @ NUL # r0)) a w' = Some (int ?n, a', w')"
    "buffers_ok a'" "\<exists>x. a' = a\<lparr>outgoing := x\<rparr>"
    using unlock_return_run [of "held_buf b (dec_int (int d) @ NUL # msg @ NUL # r0)" a "int ?n" w'] lb by auto
  moreover have "restart_send 2 (famez_create_outgoing K (int d) FAMEZ_SID_CID_IS_PEER_ID (msg @ NUL # r0) (of_nat (length msg)) a) w
      = Some (int (length msg), w')" by (simp add: restart_send.simps s)
  moreover have "bar2 w' p = (bar2 w p)\<lparr>buflen := of_nat (length msg), last_responder := of_nat d,
      buf := msg @ NUL # drop (Suc (length msg)) (buf (bar2 w p))\<rparr>"
    using rest(3) by (simp add: posted_slot_def peer' lm)
  ultimately show ?thesis using rest(1,2,4,5,6) wr unfolding run by auto
qed

section \<open>The life of an open file\<close>

text \<open>The operations of the device, and what the kernel routines they call may do.\<close>

definition bridge_fops :: "(famez_adapter, kenv \<times> user_env, fz_world) file_operations" where
  "bridge_fops = \<lparr>cd_open = famez_bridge_open, cd_flush = famez_bridge_flush, cd_release = famez_bridge_release,
     cd_read = (\<lambda>(K, U). famez_bridge_read K U), cd_write = (\<lambda>(K, U). famez_bridge_write K U),
     cd_poll = famez_bridge_poll\<rparr>"

definition bridge_dev :: "(famez_adapter, kenv \<times> user_env, fz_world) chardev" where
  "bridge_dev = file_operations.extend bridge_fops
     (chardev.fields (\<lambda>(K, U) irq a w. map_option snd (all_msix K irq a w)))"

text \<open>What stays of an adapter when a message arrives or is taken.\<close>

definition same_file :: "famez_adapter \<Rightarrow> famez_adapter \<Rightarrow> bool" where
  "same_file a a' \<longleftrightarrow> nr_users a' = nr_users a \<and> outgoing a' = outgoing a \<and> max_buflen a' = max_buflen a"

definition bridge_env_ok :: "kenv \<times> user_env \<Rightarrow> bool" where
  "bridge_env_ok = (\<lambda>(K, U). \<forall>a w. same_file a (fst (snd (wait_event_incoming K a w))))"

definition bridge_unused :: "famez_adapter \<Rightarrow> bool" where
  "bridge_unused a \<longleftrightarrow> nr_users a = 0 \<and> outgoing a = None"

definition bridge_holds :: "nat set \<Rightarrow> famez_adapter \<Rightarrow> bool" where
  "bridge_holds A a \<longleftrightarrow> nr_users a = 1 \<and>
     (\<exists>b. outgoing a = Some b \<and> \<not> wbuf_mutex b \<and> length (wbuf b) = unat (max_buflen a) \<and>
        buffers_addr b \<noteq> wbuf_addr b \<and> A = {buffers_addr b, wbuf_addr b})"

lemma bridge_holds_buffers: "bridge_holds A a \<Longrightarrow> nr_users a = 1 \<and> buffers_ok a"
  by (auto simp: bridge_holds_def buffers_ok_def)

lemma bridge_dev_simps [simp]:
  "cd_open bridge_dev = famez_bridge_open" "cd_flush bridge_dev = famez_bridge_flush"
  "cd_release bridge_dev = famez_bridge_release" "cd_read bridge_dev (K, U) = famez_bridge_read K U"
  "cd_write bridge_dev (K, U) = famez_bridge_write K U"
  "cd_isr bridge_dev (K, U) irq a w = map_option snd (all_msix K irq a w)"
  by (simp_all add: bridge_dev_def bridge_fops_def file_operations.defs chardev.defs)

text \<open>Opening: exclusive, and all or nothing.\<close>

lemma bridge_open_busy:
  assumes "0 < nr_users a"
  shows "famez_bridge_open a h = Some (- EBUSY, a, h)"
proof -
  have "a\<lparr>nr_users := nr_users a\<rparr> = a" by simp
  then show ?thesis using assms by (simp add: famez_bridge_open_def open_alldone_def)
qed

lemma bridge_open_result:
  assumes free: "bridge_unused a" and wf: "wf_heap h"
  shows "\<exists>r a' h'. famez_bridge_open a h = Some (r, a', h') \<and> wf_heap h' \<and>
    (if r = 0 then \<exists>A. bridge_holds A a' \<and> A \<inter> k_live h = {} \<and> k_live h' = k_live h \<union> A
     else a' = a \<and> k_live h' = k_live h)"
proof -
  have u: "nr_users a = 0" "a\<lparr>nr_users := 0\<rparr> = a" using free by (simp_all add: bridge_unused_def)
  from wf show ?thesis
  proof (cases h rule: kzalloc_pair)
    case (two p q h1 h2)
    let ?a = "a\<lparr>nr_users := 1, outgoing := Some \<lparr>buffers_addr = p, wbuf_addr = q,
      wbuf = replicate (unat (max_buflen a)) NUL, wbuf_mutex = False\<rparr>\<rparr>"
    have "bridge_holds {p, q} ?a" using two(3) by (simp add: bridge_holds_def)
    moreover have "famez_bridge_open a h = Some (0, ?a, h2)" using two(1,2) u
      by (simp add: famez_bridge_open_def open_alldone_def)
    ultimately show ?thesis using two(4-6) by auto
  qed (simp_all add: famez_bridge_open_def open_alldone_def u)
qed

lemma bridge_last_close:
  assumes hold: "bridge_holds A a" and live: "A \<subseteq> k_live h" and fl: "famez_bridge_flush (file_of 1) a = (r, a')"
  shows "\<exists>a2. famez_bridge_release a' h = Some (0, a2, h\<lparr>k_live := k_live h - A\<rparr>) \<and> bridge_unused a2"
proof -
  obtain b where b: "outgoing a = Some b" "buffers_addr b \<noteq> wbuf_addr b" "A = {buffers_addr b, wbuf_addr b}" "nr_users a = 1"
    using hold by (auto simp: bridge_holds_def)
  have a': "a' = a\<lparr>nr_users := 0\<rparr>" using fl b(4) by (simp add: famez_bridge_flush_def file_of_def)
  have "k_live h - {wbuf_addr b} - {buffers_addr b} = k_live h - A" using b(3) by auto
  then show ?thesis using b live by (simp add: famez_bridge_release_def a' bridge_unused_def)
qed

text \<open>Reads and interrupts leave the file alone; a write changes the contents of its buffer.\<close>

lemma same_file_refl [simp]: "same_file a a"
  by (simp add: same_file_def)

lemma same_file_holds: "same_file a a' \<Longrightarrow> bridge_holds A a \<Longrightarrow> bridge_holds A a'"
  by (simp add: bridge_holds_def same_file_def)

lemma same_file_unused: "same_file a a' \<Longrightarrow> bridge_unused a \<Longrightarrow> bridge_unused a'"
  by (simp add: bridge_unused_def same_file_def)

lemma same_file_trans: "same_file a b \<Longrightarrow> same_file b c \<Longrightarrow> same_file a c"
  by (simp add: same_file_def)

lemma link_request_file:
  "famez_link_request K p a w = Some (r, a', w') \<Longrightarrow> same_file a a'"
  by (auto simp: famez_link_request_def link_take_def link_reply_def same_file_def Let_def bind_eq_Some_conv
      split: if_splits prod.splits)

lemma all_msix_file:
  "all_msix K irq a w = Some (r, woken, a', w') \<Longrightarrow> same_file a a'"
  by (auto simp: all_msix_def Let_def bind_eq_Some_conv split: if_splits option.splits prod.splits
      dest!: link_request_file) (simp_all add: same_file_def)

lemma read_complete_file:
  "read_complete ret f um a w = Some (r, f', um', a', w') \<Longrightarrow> same_file a a'"
  by (auto simp: read_complete_def famez_release_incoming_def same_file_def Let_def bind_eq_Some_conv)

lemma bridge_read_file:
  assumes "bridge_env_ok (K, U)" and "famez_bridge_read K U count f um a w = Some (r, f', um', a', w')"
  shows "same_file a a'"
proof -
  obtain x a1 w1 where aw: "famez_await_incoming K (f_nonblock f) a w = (x, a1, w1)" by (metis prod_cases3)
  have "same_file a a1"
    using aw assms(1) by (cases "wait_event_incoming K a w")
      (auto simp: famez_await_incoming_def bridge_env_ok_def split: if_splits dest: spec2 [of _ a w])
  moreover have "same_file a1 a'"
    using assms(2) aw by (auto simp: famez_bridge_read_def Let_def bind_eq_Some_conv split_def simp del: replicate.simps
        split: sum.splits if_splits dest!: read_complete_file)
  ultimately show ?thesis by (rule same_file_trans)
qed

lemma parse_dest_length: "parse_dest U wb a w = Some (wb', r) \<Longrightarrow> length wb' = length wb"
  by (auto simp: parse_dest_def Let_def bind_eq_Some_conv split: if_splits option.splits sum.splits)

lemma unlock_return_holds:
  assumes "unlock_return r b a w = Some (r', a', w')" and "nr_users a = 1" and "length (wbuf b) = unat (max_buflen a)"
    and "buffers_addr b \<noteq> wbuf_addr b"
  shows "bridge_holds {buffers_addr b, wbuf_addr b} a'"
  using assms by (auto simp: unlock_return_def bind_eq_Some_conv bridge_holds_def spin_unlock_def split: if_splits)

lemma bridge_write_holds:
  assumes "bridge_holds A a" and "famez_bridge_write K U ubuf count a w = Some (r, a', w')"
  shows "bridge_holds A a'"
proof -
  obtain b where b: "nr_users a = 1" "outgoing a = Some b" "length (wbuf b) = unat (max_buflen a)"
    "buffers_addr b \<noteq> wbuf_addr b" "A = {buffers_addr b, wbuf_addr b}" using assms(1) by (auto simp: bridge_holds_def)
  obtain ret got where cp: "copy_from_user U ubuf (unat count) = (ret, got)" by (metis surj_pair)
  show ?thesis using assms b
    by (auto simp: famez_bridge_write_def cp Let_def bind_eq_Some_conv split_def split: if_splits option.splits
        dest!: memcpy_length put_byte_length parse_dest_length unlock_return_holds)
      (auto simp: bind_eq_Some_conv split: sum.splits dest!: unlock_return_holds)
qed

interpretation bridge: exclusive_file bridge_dev bridge_env_ok bridge_unused bridge_holds
proof unfold_locales
  show "cd_open bridge_dev a h = Some (- EBUSY, a, h)" if "bridge_holds A a" for A a h
    using that bridge_open_busy by (simp add: bridge_holds_def)
  show "bridge_holds A a'" if "bridge_holds A a" "1 < n" "cd_flush bridge_dev (file_of n) a = (r, a')" for A a n r a'
    using that by (simp add: famez_bridge_flush_def file_of_def split: if_splits)
qed (auto simp: bridge_open_result bridge_last_close
      dest!: bridge_read_file all_msix_file intro: same_file_holds same_file_unused bridge_write_holds)

section \<open>Properties\<close>

definition demo_user :: user_env where
  "demo_user = \<lparr>copy_to_user = (\<lambda>off src um. (0, stored off src um)),
     copy_from_user = (\<lambda>ub n. (int (n - length ub), take n ub)),
     kstrtoint = (\<lambda>t. case scan_d t of Some (i, []) \<Rightarrow> Inr i | _ \<Rightarrow> Inl (- EINVAL))\<rparr>"

definition demo_open :: famez_adapter where
  "demo_open = demo_adapter\<lparr>nr_users := 1, outgoing := Some \<lparr>buffers_addr = 1, wbuf_addr = 2, wbuf = replicate 384 NUL, wbuf_mutex = False\<rparr>\<rparr>"

lemma demo_user_ok [simp]: "user_env_ok demo_user"
proof -
  have "kstrtoint demo_user (dec_int i) = Inr i" for i
    using scan_d_dec_int [of "[]" i] by (simp add: demo_user_def)
  moreover have "kstrtoint demo_user t = Inl e \<Longrightarrow> e < 0" for t e
    by (auto simp: demo_user_def split: option.splits prod.splits list.splits)
  ultimately show ?thesis unfolding user_env_ok_def by (auto simp: demo_user_def)
qed

lemma demo_open_ok [simp]: "buffers_ok demo_open" "adapter_inv demo_open w = adapter_inv demo_adapter w" "my_id demo_open = 1"
  by (simp_all add: buffers_ok_def demo_open_def demo_adapter_def adapter_inv_def)

text \<open>
  C5. Whatever bytes user space writes, and whatever the other guests do meanwhile, a
  write to an open bridge returns with the mutex free and the adapter well-formed. Either
  it reports an error and no doorbell was rung, or it reports the full count and exactly
  one doorbell was rung: the retries after a timeout never send twice.
\<close>

theorem write_sends_at_most_once:
  assumes "adapter_inv a w" and "delay_keeps_layout K" and "clock_runs K" and "clock_room K 3 w"
    and "buffers_ok a" and "user_env_ok U"
  shows "\<exists>r a' w'. famez_bridge_write K U ubuf count a w = Some (r, a', w') \<and> buffers_ok a' \<and> adapter_inv a' w' \<and>
    (r < 0 \<and> bells w' = bells w \<or> r = int (unat count) \<and> (\<exists>d. bells w' = bells w @ [(d, unat (my_id a))]))"
  using write_once [OF assms, of ubuf count] by (auto simp: write_outcome_def)

theorem write_sends_at_most_once_witness:
  "\<exists>r a' w'. famez_bridge_write demo_kenv demo_user ''3,27:hello'' 10 demo_open demo_busy = Some (r, a', w') \<and> buffers_ok a' \<and> adapter_inv a' w' \<and>
    (r < 0 \<and> bells w' = bells demo_busy \<or> r = int (unat (10 :: u64)) \<and> (\<exists>d. bells w' = bells demo_busy @ [(d, unat (my_id demo_open))]))"
proof (rule write_sends_at_most_once)
  show "clock_room demo_kenv 3 demo_busy" using demo_room [of 3] by (simp add: clock_room_def demo_busy_def)
qed simp_all

text \<open>
  C6. Writing "\<open>d\<close>:\<open>msg\<close>" with the own mailbox empty: the call reports the whole length,
  the message is in the own mailbox for peer \<open>d\<close> followed by a NUL, no other mailbox has
  changed, and the bell of \<open>d\<close> was rung once with the own id.
\<close>

theorem write_delivers_text:
  assumes "adapter_inv a w" and "buffers_ok a" and "user_env_ok U" and "copy_from_user U ubuf (length ubuf) = (0, got)"
    and "ubuf = dec_int (int d) @ CHR '':'' # msg" and "length ubuf + 1 < unat (max_buflen a)" and "msg \<noteq> []"
    and "0 < d" and "d \<le> unat (server_id (bar2_globals w))" and "mail w (unat (my_id a)) = None"
  shows "\<exists>a' w'. famez_bridge_write K U ubuf (of_nat (length ubuf)) a w = Some (int (length ubuf), a', w') \<and>
    buffers_ok a' \<and> adapter_inv a' w' \<and>
    (\<exists>r. buf (bar2 w' (slot_off (bar2_globals w) (unat (my_id a)))) = msg @ NUL # r) \<and>
    (\<forall>j \<le> 2 ^ 16. mail w' j = (if j = unat (my_id a) then Some (d, msg) else mail w j)) \<and>
    bells w' = bells w @ [(d, unat (my_id a))]"
  using write_delivers [OF assms refl, of K] by fastforce

theorem write_delivers_text_witness:
  "\<exists>a' w'. famez_bridge_write demo_kenv demo_user (dec_int 3 @ '':hello'') 7 demo_open demo_world = Some (7, a', w') \<and>
    mail w' 1 = Some (3, ''hello'') \<and> mail w' 2 = None \<and> bells w' = [(3, 1)]"
proof -
  let ?u = "dec_int (int 3) @ '':hello''"
  have l: "length ?u = 7" by (simp add: dec_int_def dec_nat.simps)
  have c: "copy_from_user demo_user ?u (length ?u) = (0, ?u)" by (simp add: demo_user_def)
  have b: "bells demo_world = []" by (simp add: bells_def demo_world_def)
  have i: "max_buflen demo_open = 384" "server_id (bar2_globals demo_world) = 5"
    by (simp_all add: demo_open_def demo_adapter_def demo_globals_def)
  obtain a' w' where "famez_bridge_write demo_kenv demo_user ?u (of_nat (length ?u)) demo_open demo_world = Some (int (length ?u), a', w')"
    "\<forall>j \<le> 2 ^ 16. mail w' j = (if j = unat (my_id demo_open) then Some (3, ''hello'') else mail demo_world j)"
    "bells w' = bells demo_world @ [(3, unat (my_id demo_open))]"
    using write_delivers_text [OF _ _ _ c refl, of demo_open demo_world demo_kenv] l i by auto
  then show ?thesis using l b by (intro exI [of _ a'] exI [of _ w']) simp
qed

text \<open>
  C7. Reading a pending message into a buffer that is large enough returns the text
  "CID,SID:message" and its length, leaves every other byte of user memory alone, and
  gives the sender's slot back so that the sender can send again.
\<close>

theorem read_returns_text:
  assumes "incoming_slot a = Some p" and "\<not> incoming_slot_lock a" and "m = bar2 w p"
    and "length (sender_prefix m) \<le> 30" and "unat (buflen m) \<le> length (buf m)" and "unat (buflen m) < 2 ^ 30"
    and "length (sender_prefix m) + unat (buflen m) \<le> unat count" and "user_env_ok U"
    and "copy_to_user U 0 (sender_prefix m) um = (0, um1)"
    and "copy_to_user U (length (sender_prefix m)) (take (unat (buflen m)) (buf m)) um1 = (0, um2)"
  shows "famez_bridge_read K U count f um a w =
    Some (int (length (sender_prefix m @ take (unat (buflen m)) (buf m))), f\<lparr>f_pos := 0\<rparr>,
      stored 0 (sender_prefix m @ take (unat (buflen m)) (buf m)) um,
      a\<lparr>incoming_slot := None\<rparr>, put_slot p (m\<lparr>buflen := 0\<rparr>) w)"
  using read_message [OF assms(1-6) _ assms(8-10), of count K f] assms(5,7) by (simp add: min_absorb2)

lemma digit_chars: "char_of (48 :: nat) = CHR ''0''" "char_of (49 :: nat) = CHR ''1''" "char_of (50 :: nat) = CHR ''2''" "char_of (55 :: nat) = CHR ''7''"
  by code_simp+

definition demo_pending :: famez_adapter where
  "demo_pending = demo_open\<lparr>incoming_slot := Some 1024\<rparr>"

lemma demo_pending_slot:
  "sender_prefix (bar2 (tagged_world 1024 (demo_request 2 ''hello'')) 1024) = ''200,27:''"
  "take 5 (buf (bar2 (demo_request 2 ''hello'') 1024)) = ''hello''" "buflen (bar2 (demo_request 2 ''hello'') 1024) = 5"
  "length (buf (bar2 (demo_request 2 ''hello'') 1024)) = 384"
  by (simp_all add: tagged_world_def demo_slot_def sender_prefix_def dec_u64_def dec_nat.simps digit_char_def digit_chars)

theorem read_returns_text_witness:
  "\<exists>f w'. famez_bridge_read demo_kenv demo_user 64 \<lparr>f_nonblock = False, f_count = 1, f_pos = 0\<rparr> (\<lambda>_. NUL) demo_pending
      (tagged_world 1024 (demo_request 2 ''hello''))
    = Some (12, f, stored 0 ''200,27:hello'' (\<lambda>_. NUL), demo_pending\<lparr>incoming_slot := None\<rparr>, w')"
proof -
  let ?w = "tagged_world 1024 (demo_request 2 ''hello'')"
  have u: "copy_to_user demo_user off src um = (0, stored off src um)" for off src um by (simp add: demo_user_def)
  have "incoming_slot demo_pending = Some 1024" "\<not> incoming_slot_lock demo_pending"
    by (simp_all add: demo_pending_def demo_open_def demo_adapter_def)
  from read_returns_text [OF this refl _ _ _ _ demo_user_ok u u, of ?w 64 demo_kenv "\<lparr>f_nonblock = False, f_count = 1, f_pos = 0\<rparr>" "\<lambda>_. NUL"]
  show ?thesis using demo_pending_slot by simp
qed

text \<open>
  C19. Whatever sequence of opens, dups, closes, reads, writes and interrupts the device
  goes through, starting with no file open: while a file is open there is exactly one user,
  its write buffer is allocated and not locked, and any other open is refused with \<open>-EBUSY\<close> and
  changes nothing. Closing the last reference then runs to the end: the flush counts the
  user out, \<open>BUG_ON\<close> does not fire, both buffers are freed exactly once. Once it is closed
  nothing is held and the heap is as it was at the start.
\<close>

theorem bridge_open_is_exclusive:
  assumes "file_reach bridge_dev bridge_env_ok s t" and "fs_refs s = 0" and "nr_users (fs_dev s) = 0"
    and "outgoing (fs_dev s) = None" and "wf_heap (fs_heap s)"
  shows "if fs_refs t = 0
    then nr_users (fs_dev t) = 0 \<and> outgoing (fs_dev t) = None \<and> k_live (fs_heap t) = k_live (fs_heap s)
    else nr_users (fs_dev t) = 1 \<and> buffers_ok (fs_dev t) \<and>
      famez_bridge_open (fs_dev t) (fs_heap t) = Some (- EBUSY, fs_dev t, fs_heap t) \<and>
      (fs_refs t = 1 \<longrightarrow> (\<exists>a h. famez_bridge_release (snd (famez_bridge_flush (file_of 1) (fs_dev t))) (fs_heap t) = Some (0, a, h) \<and>
         nr_users a = 0 \<and> outgoing a = None \<and> k_live h = k_live (fs_heap s)))"
proof -
  have "bridge_unused (fs_dev s)" using assms(3,4) by (simp add: bridge_unused_def)
  from bridge.exclusive [OF assms(1,2) this assms(5)] show ?thesis
    by (auto simp: bridge_unused_def dest: bridge_holds_buffers split: if_splits)
qed

definition demo_closed :: "famez_adapter file_state" where
  "demo_closed = \<lparr>fs_dev = demo_adapter, fs_heap = \<lparr>k_ok = (\<lambda>_. True), k_next = 3, k_live = {}\<rparr>, fs_refs = 0\<rparr>"

definition demo_opened :: "famez_adapter file_state" where
  "demo_opened = \<lparr>fs_dev = demo_adapter\<lparr>nr_users := 1, outgoing := Some \<lparr>buffers_addr = 3, wbuf_addr = 4,
       wbuf = replicate 384 NUL, wbuf_mutex = False\<rparr>\<rparr>,
     fs_heap = \<lparr>k_ok = (\<lambda>_. True), k_next = 5, k_live = {3, 4}\<rparr>, fs_refs = 1\<rparr>"

lemma demo_open_run:
  "famez_bridge_open (fs_dev demo_closed) (fs_heap demo_closed) = Some (0, fs_dev demo_opened, fs_heap demo_opened)"
  by (simp add: famez_bridge_open_def demo_closed_def demo_opened_def demo_adapter_def kzalloc_def open_alldone_def insert_commute
      del: replicate.simps)

lemma demo_opened_reached: "file_reach bridge_dev bridge_env_ok demo_closed demo_opened"
proof -
  have "file_step bridge_dev bridge_env_ok demo_closed \<lparr>fs_dev = fs_dev demo_opened, fs_heap = fs_heap demo_opened, fs_refs = 1\<rparr>"
    by (rule file_step.open_ok) (simp add: demo_open_run)
  from file_reach.step [OF file_reach.start this] show ?thesis by (simp add: demo_opened_def)
qed

lemma demo_closed_ok: "fs_refs demo_closed = 0" "nr_users (fs_dev demo_closed) = 0"
  "outgoing (fs_dev demo_closed) = None" "wf_heap (fs_heap demo_closed)"
  by (simp_all add: demo_closed_def demo_adapter_def wf_heap_def)

theorem bridge_open_is_exclusive_witness:
  "file_reach bridge_dev bridge_env_ok demo_closed demo_opened \<and> nr_users (fs_dev demo_opened) = 1 \<and>
    famez_bridge_open (fs_dev demo_opened) (fs_heap demo_opened) = Some (- EBUSY, fs_dev demo_opened, fs_heap demo_opened) \<and>
    (\<exists>a h. famez_bridge_release (snd (famez_bridge_flush (file_of 1) (fs_dev demo_opened))) (fs_heap demo_opened) = Some (0, a, h) \<and>
       nr_users a = 0 \<and> outgoing a = None \<and> k_live h = {})"
proof -
  have r: "fs_refs demo_opened = 1" "k_live (fs_heap demo_closed) = {}" by (simp_all add: demo_opened_def demo_closed_def)
  show ?thesis using bridge_open_is_exclusive [OF demo_opened_reached demo_closed_ok] demo_opened_reached unfolding r by simp
qed

text \<open>
  C30. The size check of \<open>famez_bridge_read\<close> is one byte too generous: when the answer is
  one byte longer than the user's buffer it is delivered in full, and its last byte is
  stored at position \<open>count\<close>, just past the end.
\<close>

theorem read_overruns_user_buffer:
  assumes "incoming_slot a = Some p" and "\<not> incoming_slot_lock a" and "m = bar2 w p"
    and "length (sender_prefix m) \<le> 30" and "unat (buflen m) \<le> length (buf m)" and "unat (buflen m) < 2 ^ 30"
    and "length (sender_prefix m) + unat (buflen m) = unat count + 1" and "buflen m \<noteq> 0" and "user_env_ok U"
    and "copy_to_user U 0 (sender_prefix m) um = (0, um1)"
    and "copy_to_user U (length (sender_prefix m)) (take (unat (buflen m)) (buf m)) um1 = (0, um2)"
  shows "\<exists>f' um' a' w'. famez_bridge_read K U count f um a w = Some (int (unat count) + 1, f', um', a', w') \<and>
    um' (unat count) = buf m ! (unat (buflen m) - 1)"
proof -
  let ?n = "length (sender_prefix m)"
  have b: "0 < unat (buflen m)" using assms(8) by (simp add: unat_gt_0)
  have c: "unat count = ?n + (unat (buflen m) - 1)" using assms(7) b by simp
  have "stored 0 (sender_prefix m @ take (unat (buflen m)) (buf m)) um (unat count) = buf m ! (unat (buflen m) - 1)"
    using assms(5) b unfolding c by (auto simp: stored_def nth_append)
  moreover have "int (?n + unat (buflen m)) = int (unat count) + 1" unfolding assms(7) by simp
  ultimately show ?thesis
    using read_message [OF assms(1-6) _ assms(9-11), of count K f] assms(7) by simp
qed

theorem read_overruns_user_buffer_witness:
  "\<exists>f' um' a' w'. famez_bridge_read demo_kenv demo_user 11 (file_of 1) (\<lambda>_. NUL) demo_pending
      (tagged_world 1024 (demo_request 2 ''hello'')) = Some (12, f', um', a', w') \<and> um' 11 = CHR ''o''"
proof -
  let ?w = "tagged_world 1024 (demo_request 2 ''hello'')"
  have u: "copy_to_user demo_user off src um = (0, stored off src um)" for off src um by (simp add: demo_user_def)
  have "incoming_slot demo_pending = Some 1024" "\<not> incoming_slot_lock demo_pending"
    by (simp_all add: demo_pending_def demo_open_def demo_adapter_def)
  note read_overruns_user_buffer [OF this refl _ _ _ _ _ demo_user_ok u u, of ?w 11 demo_kenv "file_of 1" "\<lambda>_. NUL"]
  moreover have "buf (bar2 (demo_request 2 ''hello'') 1024) ! 4 = CHR ''o''"
    using nth_take [of 4 5 "buf (bar2 (demo_request 2 ''hello'') 1024)"] unfolding demo_pending_slot(2) by simp
  ultimately show ?thesis using demo_pending_slot by simp
qed

text \<open>
  C31. A file with a single descriptor is closed while a \<open>read\<close> or \<open>write\<close> of another thread is
  still in flight and holds the second reference. \<open>flush\<close> sees a count of 2 and does not
  count the user out. When the call returns, whatever its result, the last reference goes
  without another \<open>flush\<close>, and the \<open>BUG_ON\<close> of \<open>release\<close> stops the kernel. (Duplicated descriptors
  alone do no harm: each is flushed, the last one with a count of 1, as C19 shows.)
\<close>

theorem close_during_system_call_is_fatal:
  assumes "file_reach bridge_dev bridge_env_ok s t" and "fs_refs s = 0" and "nr_users (fs_dev s) = 0"
    and "outgoing (fs_dev s) = None" and "wf_heap (fs_heap s)" and "fs_refs t = 1" and "bridge_env_ok (K, U)"
    and "(\<exists>count f um w r f' um' w'. famez_bridge_read K U count f um (fs_dev t) w = Some (r, f', um', a', w')) \<or>
      (\<exists>ubuf count w r w'. famez_bridge_write K U ubuf count (fs_dev t) w = Some (r, a', w'))"
  shows "famez_bridge_flush (file_of 2) (fs_dev t) = (0, fs_dev t) \<and> famez_bridge_release a' h = None"
proof -
  have "bridge_unused (fs_dev s)" using assms(3,4) by (simp add: bridge_unused_def)
  from bridge.exclusive [OF assms(1,2) this assms(5)] assms(6) obtain A where "bridge_holds A (fs_dev t)" by auto
  then have "bridge_holds A a'"
    using assms(8) bridge.read_holds [OF _ assms(7), unfolded bridge_dev_simps]
      bridge.write_holds [OF _ assms(7), unfolded bridge_dev_simps] by blast
  then have "nr_users a' \<noteq> 0" by (simp add: bridge_holds_def)
  then show ?thesis by (simp add: famez_bridge_flush_def famez_bridge_release_def file_of_def)
qed

theorem close_during_system_call_is_fatal_witness:
  "(\<exists>f' um' w'. famez_bridge_read demo_kenv demo_user 64 \<lparr>f_nonblock = True, f_count = 2, f_pos = 0\<rparr> (\<lambda>_. NUL) (fs_dev demo_opened) demo_world
      = Some (- EAGAIN, f', um', fs_dev demo_opened, w')) \<and>
    famez_bridge_flush (file_of 2) (fs_dev demo_opened) = (0, fs_dev demo_opened) \<and>
    famez_bridge_release (fs_dev demo_opened) (fs_heap demo_opened) = None"
proof -
  have r: "famez_bridge_read demo_kenv demo_user 64 \<lparr>f_nonblock = True, f_count = 2, f_pos = 0\<rparr> (\<lambda>_. NUL) (fs_dev demo_opened) demo_world
      = Some (- EAGAIN, \<lparr>f_nonblock = True, f_count = 2, f_pos = 0\<rparr>, \<lambda>_. NUL, fs_dev demo_opened, demo_world)"
    by (intro read_would_block) (simp_all add: demo_opened_def demo_adapter_def)
  have e: "bridge_env_ok (demo_kenv, demo_user)" by (simp add: bridge_env_ok_def demo_kenv_def)
  have o: "fs_refs demo_opened = 1" by (simp add: demo_opened_def)
  have "\<exists>count f um w r f' um' w'. famez_bridge_read demo_kenv demo_user count f um (fs_dev demo_opened) w
      = Some (r, f', um', fs_dev demo_opened, w')" by (intro exI) (rule r)
  note c = close_during_system_call_is_fatal [OF demo_opened_reached demo_closed_ok o e disjI1 [OF this], of "fs_heap demo_opened"]
  show ?thesis by (intro conjI exI) (rule r, rule c [THEN conjunct1], rule c [THEN conjunct2])
qed

text \<open>
  \<open>poll\<close> reports the device readable whether or not a message is pending, and
  writable exactly when the own mailbox is empty, that is when a write would not wait.
\<close>

theorem poll_readiness:
  assumes "adapter_inv a w"
  shows "\<exists>r. famez_bridge_poll a w = Some r \<and> r AND POLLIN = POLLIN \<and>
    (r AND POLLOUT = POLLOUT \<longleftrightarrow> mail w (unat (my_id a)) = None)"
  using assms by (auto simp: famez_bridge_poll_def adapter_inv_def mail_def slot_mail_def
      POLLIN_def POLLOUT_def POLLRDNORM_def POLLWRNORM_def)

theorem poll_readiness_witness:
  "\<exists>r. famez_bridge_poll demo_pending demo_world = Some r \<and> r AND POLLIN = POLLIN \<and>
    (r AND POLLOUT = POLLOUT \<longleftrightarrow> mail demo_world 1 = None)"
  using poll_readiness [of demo_open demo_world] by (simp add: famez_bridge_poll_def demo_pending_def)

end
