(* ===== verification/Guest_Pair.thy ===== *)
theory Guest_Pair
  imports Fz_Bridge
begin

text \<open>
  Two guests that map the same memory and talk through their bridge devices. A message
  takes three steps: the \<open>write\<close> of one guest, the interrupt its doorbell raises in the other
  guest, and the \<open>read\<close> there. \<open>say\<close> is these three steps, \<open>dialogue\<close> a sequence of messages in
  either direction. Both compute, from the operations of \<open>Fz_Bridge\<close> and \<open>Famez_MSIX\<close> alone.

  The memory is shared: after every operation the other guest continues on the memory as
  that operation left it (\<open>on_memory_of\<close>); the rest of a guest's state is its own.
\<close>

section \<open>A message from one guest to another\<close>

text \<open>The private state of a guest \<open>v\<close> attached to the shared memory as \<open>w\<close> has left it.\<close>

definition on_memory_of :: "fz_world \<Rightarrow> fz_world \<Rightarrow> fz_world" where
  "on_memory_of w v = v\<lparr>bar2 := bar2 w, bar2_globals := bar2_globals w\<rparr>"

lemma on_memory_of_simps [simp]:
  "bar2 (on_memory_of w v) = bar2 w" "bar2_globals (on_memory_of w v) = bar2_globals w"
  "mail (on_memory_of w v) i = mail w i"
  by (simp_all add: on_memory_of_def mail_def)

text \<open>A text the link layer leaves alone.\<close>

definition plain_text :: "bytes \<Rightarrow> bool" where
  "plain_text msg \<longleftrightarrow> \<not> (length msg = 4 \<and> STREQ_N msg ''ping'' 4) \<and>
     \<not> STREQ_N msg LINK_CTL_PEER_ATTRIBUTE (strlen LINK_CTL_PEER_ATTRIBUTE) \<and>
     length (sscanf CTL_WRITE_0_SID_CID (cstr msg)) \<noteq> 5"

lemma plain_text_for_readers:
  assumes "plain_text msg" and "buf m = msg @ NUL # r" and "buflen m = of_nat (length msg)" and "length msg < 2 ^ 64"
  shows "for_readers m"
proof -
  have "length msg = 4" if "buflen m = 4"
    using arg_cong [OF that, of unat] assms(3,4) by (simp add: unat_of_nat_small)
  then show ?thesis using assms(1)
    by (auto simp: for_readers_def is_ping_def is_peer_attribute_def is_ctl_write_def plain_text_def STREQ_N_def assms(2) cstr_terminated)
qed

lemma shared_memory_inv:
  assumes "adapter_inv a w'" and "adapter_inv b (on_memory_of w v)" and "bar2_globals w' = bar2_globals w"
  shows "adapter_inv b (on_memory_of w' v)"
  using assms by (simp add: adapter_inv_def)

lemma tagged_prefix:
  assumes "unat (peer_id (bar2 w p)) < 2 ^ 16"
  shows "sender_prefix (bar2 (tagged_world p w) p) = dec_nat (100 * unat (peer_id (bar2 w p))) @ '',27:''" (is "?l = ?r")
    and "length (dec_nat (100 * unat (peer_id (bar2 w p))) @ '',27:'') \<le> 30"
proof -
  let ?i = "unat (peer_id (bar2 w p))"
  have "unat (peer_id (bar2 w p) * 100) = 100 * ?i" using assms by (simp add: unat_word_ariths)
  moreover have "dec_u64 27 = ''27''" by (simp add: dec_u64_def dec_nat.simps digit_char_def digit_chars)
  ultimately show "?l = ?r" by (simp add: sender_prefix_def tagged_world_def) (simp add: dec_u64_def)
  have "length (dec_nat (100 * ?i)) \<le> 7" using assms by (intro dec_nat_length) simp_all
  then show "length (dec_nat (100 * ?i) @ '',27:'') \<le> 30" by simp
qed

lemma read_tagged:
  assumes inc: "incoming_slot b = Some p" "\<not> incoming_slot_lock b"
    and pid: "unat (peer_id (bar2 w p)) < 2 ^ 16" and m: "buf (bar2 w p) = msg @ NUL # r" "buflen (bar2 w p) = of_nat (length msg)"
    and small: "length msg < 2 ^ 30" and reply: "reply = dec_nat (100 * unat (peer_id (bar2 w p))) @ '',27:'' @ msg"
    and count: "length reply \<le> unat count" and U: "user_env_ok U" "\<And>off src um. \<exists>um'. copy_to_user U off src um = (0, um')"
  shows "famez_bridge_read K U count f um b (tagged_world p w)
    = Some (int (length reply), f\<lparr>f_pos := 0\<rparr>, stored 0 reply um, b\<lparr>incoming_slot := None\<rparr>,
        put_slot p ((bar2 (tagged_world p w) p)\<lparr>buflen := 0\<rparr>) (tagged_world p w))"
proof -
  let ?m = "bar2 (tagged_world p w) p" and ?pre = "dec_nat (100 * unat (peer_id (bar2 w p))) @ '',27:''"
  note pre = tagged_prefix [OF pid]
  have len: "unat (buflen ?m) = length msg" using m(2) small by (simp add: unat_of_nat_small)
  have body: "take (unat (buflen ?m)) (buf ?m) = msg" using m(1) by (simp only: len) simp
  obtain um1 where um1: "copy_to_user U 0 (sender_prefix ?m) um = (0, um1)" using U(2) by blast
  obtain um2 where um2: "copy_to_user U (length (sender_prefix ?m)) (take (unat (buflen ?m)) (buf ?m)) um1 = (0, um2)"
    using U(2) by blast
  have "famez_bridge_read K U count f um b (tagged_world p w) =
    Some (int (length (sender_prefix ?m) + unat (buflen ?m)), f\<lparr>f_pos := 0\<rparr>,
      stored 0 (sender_prefix ?m @ take (unat (buflen ?m)) (buf ?m)) um,
      b\<lparr>incoming_slot := None\<rparr>, put_slot p (?m\<lparr>buflen := 0\<rparr>) (tagged_world p w))"
  proof (rule read_message [OF inc refl _ _ _ _ U(1) um1 um2])
    show "length (sender_prefix ?m) \<le> 30" using pre by simp
    show "unat (buflen ?m) \<le> length (buf ?m)" unfolding len by (simp add: m(1))
    show "unat (buflen ?m) < 2 ^ 30" unfolding len by (rule small)
    show "length (sender_prefix ?m) + unat (buflen ?m) \<le> unat count + 1" unfolding len pre(1) using count reply by simp
  qed
  then show ?thesis unfolding body unfolding len pre(1) reply by simp
qed

text \<open>The three steps of a message and the state they leave behind.\<close>

definition passed :: "nat \<Rightarrow> fz_world \<Rightarrow> fz_world \<Rightarrow> fz_world \<Rightarrow> bool" where
  "passed i w v v2 \<longleftrightarrow> bar2_globals v2 = bar2_globals w \<and> bells v2 = bells v \<and>
     (\<forall>j \<le> 2 ^ 16. mail v2 j = (if j = i then None else mail w j)) \<and>
     (\<forall>q. peer_id (bar2 v2 q) = peer_id (bar2 w q))"

lemma passed_intro:
  assumes g: "geometry (bar2_globals w)" and i: "i \<le> 2 ^ 16" and p: "p = slot_off (bar2_globals w) i"
    and w': "bar2_globals w' = bar2_globals w" "\<And>q. peer_id (bar2 w' q) = peer_id (bar2 w q)"
      "\<forall>j \<le> 2 ^ 16. mail w' j = (if j = i then x else mail w j)"
    and t: "t = tagged_world p (on_memory_of w' v)"
  shows "passed i w v (put_slot p ((bar2 t p)\<lparr>buflen := 0\<rparr>) t)"
proof -
  have "mail (put_slot p ((bar2 t p)\<lparr>buflen := 0\<rparr>) t) j = (if j = i then None else mail w j)" if "j \<le> 2 ^ 16" for j
    using mail_put_slot [of t i j "(bar2 t p)\<lparr>buflen := 0\<rparr>"] g i that w'(1,3) p by (simp add: t slot_mail_def)
  moreover have "bells (put_slot p m t) = bells v" for m
    by (simp add: t bells_def tagged_world_def put_slot_def on_memory_of_def)
  ultimately show ?thesis using w'(1,2) by (simp add: passed_def t)
qed

lemma message_passes:
  assumes "adapter_inv a w" and "buffers_ok a" and "user_env_ok U" and "copy_from_user U ubuf (length ubuf) = (0, got)"
    and "ubuf = dec_int (int d) @ CHR '':'' # msg" and "length ubuf + 1 < unat (max_buflen a)" and "msg \<noteq> []" and "plain_text msg"
    and "length msg < 2 ^ 30"
    and "0 < d" and "d \<le> unat (server_id (bar2_globals w))" and "mail w (unat (my_id a)) = None"
    and "unat (peer_id (bar2 w (slot_off (bar2_globals w) (unat (my_id a))))) = pid" and "pid < 2 ^ 16"
    and "adapter_inv b (on_memory_of w v)" and "unat (my_id b) = d" and "\<not> incoming_slot_lock b" and "core_str_ok b"
    and "irq_table_ok b (on_memory_of w v)" and "IRQ_private b = Some (tab, es)"
    and "unat (my_id a) < unat (nEvents (bar2_globals w))" and "word_of_int irq = vector (es ! unat (my_id a))"
    and "user_env_ok UB" and "\<And>off src um. \<exists>um'. copy_to_user UB off src um = (0, um')"
    and "reply = dec_nat (100 * pid) @ '',27:'' @ msg" and "length reply \<le> unat count"
  shows "\<exists>x w' b' v1 v2. famez_bridge_write K U ubuf (of_nat (length ubuf)) a w = Some (int (length ubuf), a\<lparr>outgoing := x\<rparr>, w') \<and>
    buffers_ok (a\<lparr>outgoing := x\<rparr>) \<and> adapter_inv a w' \<and> bells w' = bells w @ [(d, unat (my_id a))] \<and>
    all_msix KB irq b (on_memory_of w' v) = Some (IRQ_HANDLED, True, b', v1) \<and>
    famez_bridge_read KB UB count f um b' v1
      = Some (int (length reply), f\<lparr>f_pos := 0\<rparr>, stored 0 reply um, b\<lparr>incoming_slot := None\<rparr>, v2) \<and>
    adapter_inv b v2 \<and> passed (unat (my_id a)) w v v2"
proof -
  let ?i = "unat (my_id a)" let ?p = "slot_off (bar2_globals w) ?i"
  obtain x r w' where wr: "famez_bridge_write K U ubuf (of_nat (length ubuf)) a w = Some (int (length ubuf), a\<lparr>outgoing := x\<rparr>, w')"
    "buffers_ok (a\<lparr>outgoing := x\<rparr>)" and inv: "adapter_inv a w'" and g: "bar2_globals w' = bar2_globals w"
    and slot: "bar2 w' ?p = (bar2 w ?p)\<lparr>buflen := of_nat (length msg), last_responder := of_nat d, buf := msg @ NUL # r\<rparr>"
    and rest: "\<forall>q. q \<noteq> ?p \<longrightarrow> bar2 w' q = bar2 w q"
    and mail: "\<forall>j \<le> 2 ^ 16. mail w' j = (if j = ?i then Some (d, msg) else mail w j)"
    and bell: "bells w' = bells w @ [(d, ?i)]"
    using write_delivers [OF assms(1-7,10-12) refl, of K] by blast
  define t where "t = tagged_world ?p (on_memory_of w' v)"
  have invb: "adapter_inv b (on_memory_of w' v)" by (rule shared_memory_inv [OF inv assms(15) g])
  have "for_readers (bar2 (on_memory_of w' v) (slot_off (bar2_globals (on_memory_of w' v)) ?i))"
    using plain_text_for_readers [OF assms(8), of "bar2 w' ?p" r] slot assms(9) g by simp
  note irq = all_msix_message [OF invb assms(17,18) _ assms(20,22) _ _ this, of KB]
  have isr: "all_msix KB irq b (on_memory_of w' v) = Some (IRQ_HANDLED, True, b\<lparr>incoming_slot := Some ?p\<rparr>, t)"
    using irq assms(1,19,21) g by (simp add: adapter_inv_def irq_table_ok_def t_def)
  have rd: "famez_bridge_read KB UB count f um (b\<lparr>incoming_slot := Some ?p\<rparr>) t
    = Some (int (length reply), f\<lparr>f_pos := 0\<rparr>, stored 0 reply um, b\<lparr>incoming_slot := None\<rparr>, put_slot ?p ((bar2 t ?p)\<lparr>buflen := 0\<rparr>) t)"
    using read_tagged [of "b\<lparr>incoming_slot := Some ?p\<rparr>" ?p "on_memory_of w' v" msg r reply count UB KB f um]
      assms(9,13,14,17,23-26) slot by (auto simp: t_def)
  have "peer_id (bar2 w' q) = peer_id (bar2 w q)" for q using slot rest by (cases "q = ?p") simp_all
  from passed_intro [OF _ _ refl g this mail t_def] have "passed ?i w v (put_slot ?p ((bar2 t ?p)\<lparr>buflen := 0\<rparr>) t)"
    using assms(1) unsigned_less [of "my_id a", where ?'a = nat] by (simp add: adapter_inv_def)
  moreover have "adapter_inv b (put_slot ?p ((bar2 t ?p)\<lparr>buflen := 0\<rparr>) t)"
    using invb by (intro adapter_inv_put_slot) (simp_all add: t_def)
  ultimately show ?thesis using wr inv bell isr rd by blast
qed

section \<open>Talking back and forth\<close>

record guest =
  g_adapter :: famez_adapter
  g_world :: fz_world
  g_kenv :: kenv
  g_user :: user_env

definition guest_id :: "guest \<Rightarrow> nat" where
  "guest_id A = unat (my_id (g_adapter A))"

text \<open>
  The \<open>peer_id\<close> that stands in a guest's own mailbox slot. \<open>famez_adapter_create\<close> clears the
  slot, so for a guest as the driver leaves it this is 0, not the guest's id.
\<close>

definition own_peer_id :: "guest \<Rightarrow> nat" where
  "own_peer_id A = unat (peer_id (bar2 (g_world A) (slot_off (bar2_globals (g_world A)) (guest_id A))))"

text \<open>
  Guest \<open>A\<close> writes a text to guest \<open>B\<close>, \<open>B\<close> takes the interrupt of the vector that stands for \<open>A\<close>
  and reads into a buffer of \<open>count\<close> bytes. The first component of the result is what was read.
\<close>

definition say :: "u64 \<Rightarrow> guest \<Rightarrow> guest \<Rightarrow> string \<Rightarrow> (string \<times> guest \<times> guest) option" where
  "say count A B msg = do {
     let ubuf = dec_int (int (guest_id B)) @ CHR '':'' # msg;
     (_, a1, w1) \<leftarrow> famez_bridge_write (g_kenv A) (g_user A) ubuf (of_nat (length ubuf)) (g_adapter A) (g_world A);
     (_, es) \<leftarrow> IRQ_private (g_adapter B);
     (_, _, b1, v1) \<leftarrow> all_msix (g_kenv B) (uint (vector (es ! guest_id A))) (g_adapter B) (on_memory_of w1 (g_world B));
     (n, _, um, b2, v2) \<leftarrow> famez_bridge_read (g_kenv B) (g_user B) count (file_of 1) (\<lambda>_. NUL) b1 v1;
     Some (map um [0..<nat n], A\<lparr>g_adapter := a1, g_world := on_memory_of v2 w1\<rparr>, B\<lparr>g_adapter := b2, g_world := v2\<rparr>)
   }"

text \<open>\<open>True\<close> stands for a message of the first guest, \<open>False\<close> for one of the second.\<close>

fun dialogue :: "u64 \<Rightarrow> (bool \<times> string) list \<Rightarrow> guest \<Rightarrow> guest \<Rightarrow> (string list \<times> guest \<times> guest) option" where
  "dialogue count [] A B = Some ([], A, B)"
| "dialogue count ((True, m) # ms) A B = do {
     (t, A1, B1) \<leftarrow> say count A B m;
     (ts, A2, B2) \<leftarrow> dialogue count ms A1 B1;
     Some (t # ts, A2, B2)
   }"
| "dialogue count ((False, m) # ms) A B = do {
     (t, B1, A1) \<leftarrow> say count B A m;
     (ts, A2, B2) \<leftarrow> dialogue count ms A1 B1;
     Some (t # ts, A2, B2)
   }"

text \<open>A guest with its file open, its mailbox empty and no fault in the user's memory.\<close>

definition guest_ready :: "guest \<Rightarrow> bool" where
  "guest_ready A \<longleftrightarrow> adapter_inv (g_adapter A) (g_world A) \<and> buffers_ok (g_adapter A) \<and> \<not> incoming_slot_lock (g_adapter A) \<and>
     core_str_ok (g_adapter A) \<and> irq_table_ok (g_adapter A) (g_world A) \<and> mail (g_world A) (guest_id A) = None \<and>
     own_peer_id A < 2 ^ 16 \<and>
     user_env_ok (g_user A) \<and> (\<forall>off src um. \<exists>um'. copy_to_user (g_user A) off src um = (0, um')) \<and>
     (\<forall>ub. \<exists>got. copy_from_user (g_user A) ub (length ub) = (0, got))"

definition linked :: "guest \<Rightarrow> guest \<Rightarrow> bool" where
  "linked A B \<longleftrightarrow> guest_ready A \<and> guest_ready B \<and> guest_id A \<noteq> guest_id B \<and>
     bar2 (g_world A) = bar2 (g_world B) \<and> bar2_globals (g_world A) = bar2_globals (g_world B)"

lemma linked_sym: "linked A B \<longleftrightarrow> linked B A"
  by (auto simp: linked_def)

definition sendable :: "u64 \<Rightarrow> nat \<Rightarrow> string \<Rightarrow> bool" where
  "sendable count room m \<longleftrightarrow> m \<noteq> [] \<and> plain_text m \<and> length m + 7 < room \<and> length m + 11 \<le> unat count \<and> length m < 2 ^ 30"

definition heard :: "guest \<Rightarrow> string \<Rightarrow> string" where
  "heard A m = dec_nat (100 * own_peer_id A) @ '',27:'' @ m"

text \<open>Only the bookkeeping of the files, the mailbox contents and the sender's bells change.\<close>

definition said :: "guest \<Rightarrow> guest \<Rightarrow> guest \<Rightarrow> guest \<Rightarrow> bool" where
  "said A B A' B' \<longleftrightarrow> linked A' B' \<and> guest_id A' = guest_id A \<and> guest_id B' = guest_id B \<and>
     own_peer_id A' = own_peer_id A \<and> own_peer_id B' = own_peer_id B \<and>
     max_buflen (g_adapter A') = max_buflen (g_adapter A) \<and>
     bells (g_world A') = bells (g_world A) @ [(guest_id B, guest_id A)] \<and> bells (g_world B') = bells (g_world B)"

lemma guest_id_digits: "length (dec_int (int (guest_id B))) \<le> 5"
  "guest_ready B \<Longrightarrow> length (dec_nat (100 * own_peer_id B)) \<le> 7"
proof -
  have "guest_id B < 2 ^ 16" using unsigned_less [of "my_id (g_adapter B)", where ?'a = nat] by (simp add: guest_id_def)
  then show "length (dec_int (int (guest_id B))) \<le> 5" using dec_nat_length [of "guest_id B" 5] by (simp add: dec_int_def)
  show "length (dec_nat (100 * own_peer_id B)) \<le> 7" if "guest_ready B"
    using that dec_nat_length [of "100 * own_peer_id B" 7] by (simp add: guest_ready_def)
qed

lemma stored_text: "map (stored 0 t um) [0..<length t] = t"
  by (rule nth_equalityI) (simp_all add: stored_def)

lemma passed_mail: "passed i w v v2 \<Longrightarrow> mail v2 (guest_id A) = (if guest_id A = i then None else mail w (guest_id A))"
  using unsigned_less [of "my_id (g_adapter A)", where ?'a = nat] by (simp add: passed_def guest_id_def)

lemma guest_ready_moves:
  assumes A: "guest_ready A" and a: "adapter_inv a w" "buffers_ok a" "\<not> incoming_slot_lock a" "my_id a = my_id (g_adapter A)"
    "core a = core (g_adapter A)" "IRQ_private a = IRQ_private (g_adapter A)"
    and w: "bar2_globals w = bar2_globals (g_world A)" "mail w (guest_id A) = None"
    "\<And>q. peer_id (bar2 w q) = peer_id (bar2 (g_world A) q)"
  shows "guest_ready (A\<lparr>g_adapter := a, g_world := w\<rparr>)"
proof -
  have "guest_id (A\<lparr>g_adapter := a, g_world := w\<rparr>) = guest_id A" using a(4) by (simp add: guest_id_def)
  moreover have "irq_table_ok a w = irq_table_ok (g_adapter A) (g_world A)" using a(6) w(1) by (simp add: irq_table_ok_def)
  moreover have "core_str_ok a = core_str_ok (g_adapter A)" using a(5) by (simp add: core_str_ok_def)
  moreover have "own_peer_id (A\<lparr>g_adapter := a, g_world := w\<rparr>) = own_peer_id A"
    using a(4) w(1,3) by (simp add: own_peer_id_def guest_id_def)
  ultimately show ?thesis using A a(1-3) w unfolding guest_ready_def by simp
qed

lemma linked_after:
  assumes link: "linked A B" and a: "buffers_ok ((g_adapter A)\<lparr>outgoing := x\<rparr>)" "adapter_inv (g_adapter A) w'"
    and v2: "adapter_inv (g_adapter B) v2" "passed (guest_id A) (g_world A) v v2"
  shows "linked (A\<lparr>g_adapter := (g_adapter A)\<lparr>outgoing := x\<rparr>, g_world := on_memory_of v2 w'\<rparr>)
    (B\<lparr>g_adapter := (g_adapter B)\<lparr>incoming_slot := None\<rparr>, g_world := v2\<rparr>)" (is "linked ?A ?B")
proof -
  have A: "guest_ready A" and B: "guest_ready B" and ids: "guest_id B \<noteq> guest_id A"
    and mem: "bar2 (g_world A) = bar2 (g_world B)" "bar2_globals (g_world A) = bar2_globals (g_world B)"
    using link by (auto simp: linked_def)
  have g: "bar2_globals v2 = bar2_globals (g_world A)" "\<And>q. peer_id (bar2 v2 q) = peer_id (bar2 (g_world A) q)"
    using v2(2) by (simp_all add: passed_def)
  have "guest_ready ?A"
  proof (rule guest_ready_moves [OF A _ a(1)])
    show "adapter_inv ((g_adapter A)\<lparr>outgoing := x\<rparr>) (on_memory_of v2 w')" using a(2) v2(1) A g(1) unfolding guest_ready_def adapter_inv_def by simp
  qed (use A g passed_mail [OF v2(2), of A] in \<open>simp_all add: guest_ready_def\<close>)
  moreover have "mail (g_world A) (guest_id B) = None" using B mem by (simp add: guest_ready_def mail_def)
  then have "guest_ready ?B"
    using v2(1) B g mem ids passed_mail [OF v2(2), of B]
    by (intro guest_ready_moves [OF B]) (simp_all add: guest_ready_def buffers_ok_def adapter_inv_def)
  ultimately show ?thesis using ids by (simp add: linked_def guest_id_def)
qed

lemma say_delivers:
  assumes link: "linked A B" and m: "sendable count (unat (max_buflen (g_adapter A))) m"
  shows "\<exists>A' B'. say count A B m = Some (heard A m, A', B') \<and> said A B A' B'"
proof -
  let ?a = "g_adapter A" and ?b = "g_adapter B" and ?w = "g_world A" and ?v = "g_world B"
  let ?u = "dec_int (int (guest_id B)) @ CHR '':'' # m"
  have A: "guest_ready A" and B: "guest_ready B" and mem: "on_memory_of ?w ?v = ?v"
    using link by (simp_all add: linked_def on_memory_of_def)
  have ids: "guest_id A \<noteq> guest_id B" using link by (simp add: linked_def)
  have g: "geometry (bar2_globals ?w)" "bar2_globals ?v = bar2_globals ?w"
    using A link by (simp_all add: guest_ready_def adapter_inv_def linked_def)
  obtain tab es where es: "IRQ_private ?b = Some (tab, es)" using B by (auto simp: guest_ready_def irq_table_ok_def)
  obtain got where cp: "copy_from_user (g_user A) ?u (length ?u) = (0, got)" using A unfolding guest_ready_def by blast
  have id16: "guest_id X \<le> 2 ^ 16" "guest_id X < 2 ^ 16" for X
    using unsigned_less [of "my_id (g_adapter X)", where ?'a = nat] by (simp_all add: guest_id_def)
  have idA: "0 < guest_id A" "guest_id A \<le> unat (nClients (bar2_globals ?w))"
    and idB: "0 < guest_id B" "guest_id B \<le> unat (nClients (bar2_globals ?w))"
    using A B g(2) by (simp_all add: guest_ready_def adapter_inv_def guest_id_def)
  have "\<exists>x w' b' v1 v2. famez_bridge_write (g_kenv A) (g_user A) ?u (of_nat (length ?u)) ?a ?w = Some (int (length ?u), ?a\<lparr>outgoing := x\<rparr>, w') \<and>
    buffers_ok (?a\<lparr>outgoing := x\<rparr>) \<and> adapter_inv ?a w' \<and> bells w' = bells ?w @ [(guest_id B, unat (my_id ?a))] \<and>
    all_msix (g_kenv B) (uint (vector (es ! guest_id A))) ?b (on_memory_of w' ?v) = Some (IRQ_HANDLED, True, b', v1) \<and>
    famez_bridge_read (g_kenv B) (g_user B) count (file_of 1) (\<lambda>_. NUL) b' v1
      = Some (int (length (heard A m)), (file_of 1)\<lparr>f_pos := 0\<rparr>, stored 0 (heard A m) (\<lambda>_. NUL), ?b\<lparr>incoming_slot := None\<rparr>, v2) \<and>
    adapter_inv ?b v2 \<and> passed (unat (my_id ?a)) ?w ?v v2"
  proof (rule message_passes [where got = got and msg = m and pid = "own_peer_id A" and tab = tab and es = es])
    show "length ?u + 1 < unat (max_buflen ?a)" "length (heard A m) \<le> unat count"
      using m guest_id_digits(2) [OF A] guest_id_digits(1) [of B] by (auto simp: sendable_def heard_def)
    show "guest_id B \<le> unat (server_id (bar2_globals ?w))" "unat (my_id ?a) < unat (nEvents (bar2_globals ?w))"
      using idA idB geometry_unat [OF g(1)] by (simp_all add: guest_id_def)
  qed (use A B m cp es idA idB id16 mem in \<open>simp_all add: guest_ready_def sendable_def heard_def guest_id_def own_peer_id_def\<close>)
  then obtain x w' b' v1 v2 where
    wr: "famez_bridge_write (g_kenv A) (g_user A) ?u (of_nat (length ?u)) ?a ?w = Some (int (length ?u), ?a\<lparr>outgoing := x\<rparr>, w')"
    and ok: "buffers_ok (?a\<lparr>outgoing := x\<rparr>)" "adapter_inv ?a w'" "bells w' = bells ?w @ [(guest_id B, guest_id A)]"
    and isr: "all_msix (g_kenv B) (uint (vector (es ! guest_id A))) ?b (on_memory_of w' ?v) = Some (IRQ_HANDLED, True, b', v1)"
    and rd: "famez_bridge_read (g_kenv B) (g_user B) count (file_of 1) (\<lambda>_. NUL) b' v1
      = Some (int (length (heard A m)), (file_of 1)\<lparr>f_pos := 0\<rparr>, stored 0 (heard A m) (\<lambda>_. NUL), ?b\<lparr>incoming_slot := None\<rparr>, v2)"
    and v2: "adapter_inv ?b v2" "passed (guest_id A) ?w ?v v2"
    unfolding guest_id_def [symmetric] by blast
  let ?A = "A\<lparr>g_adapter := ?a\<lparr>outgoing := x\<rparr>, g_world := on_memory_of v2 w'\<rparr>"
    and ?B = "B\<lparr>g_adapter := ?b\<lparr>incoming_slot := None\<rparr>, g_world := v2\<rparr>"
  have "say count A B m = Some (heard A m, ?A, ?B)"
    unfolding say_def Let_def wr using es isr rd by (simp add: stored_text)
  moreover have "said A B ?A ?B" using linked_after [OF link ok(1,2) v2] ok(3) v2(2) link
    by (simp add: said_def guest_id_def own_peer_id_def linked_def passed_def bells_def on_memory_of_def)
  ultimately show ?thesis by blast
qed

lemma linked_room: "linked A B \<Longrightarrow> max_buflen (g_adapter A) = max_buflen (g_adapter B)"
  by (simp add: linked_def guest_ready_def adapter_inv_def)

lemma heard_cong: "own_peer_id A' = own_peer_id A \<Longrightarrow> heard A' m = heard A m"
  by (simp add: heard_def)

lemma dialogue_runs:
  assumes "linked A B" and "\<And>sm. sm \<in> set ms \<Longrightarrow> sendable count (unat (max_buflen (g_adapter A))) (snd sm)"
  shows "\<exists>A' B'. dialogue count ms A B = Some (map (\<lambda>(s, m). heard (if s then A else B) m) ms, A', B') \<and> linked A' B' \<and>
    bells (g_world A') = bells (g_world A) @ replicate (length (filter fst ms)) (guest_id B, guest_id A) \<and>
    bells (g_world B') = bells (g_world B) @ replicate (length (filter (\<lambda>x. \<not> fst x) ms)) (guest_id A, guest_id B)"
  using assms
proof (induction ms arbitrary: A B)
  case (Cons sm ms)
  obtain s m where sm: "sm = (s, m)" by (metis surj_pair)
  have send: "sendable count (unat (max_buflen (g_adapter A))) m" using Cons.prems(2) [of sm] by (simp add: sm)
  obtain A1 B1 where said: "if s then said A B A1 B1 \<and> say count A B m = Some (heard A m, A1, B1)
      else said B A B1 A1 \<and> say count B A m = Some (heard B m, B1, A1)"
    using say_delivers [OF Cons.prems(1) send] say_delivers [of B A count m] send Cons.prems(1) linked_sym [of A B]
      linked_room [OF Cons.prems(1)] by (cases s) auto
  have link: "linked A1 B1" and ids: "guest_id A1 = guest_id A" "guest_id B1 = guest_id B"
    and pids: "own_peer_id A1 = own_peer_id A" "own_peer_id B1 = own_peer_id B"
    and room: "max_buflen (g_adapter A1) = max_buflen (g_adapter A)"
    and bells: "bells (g_world A1) = bells (g_world A) @ (if s then [(guest_id B, guest_id A)] else [])"
      "bells (g_world B1) = bells (g_world B) @ (if s then [] else [(guest_id A, guest_id B)])"
    using said linked_sym [of A1 B1] linked_room [OF Cons.prems(1)] linked_room [of A1 B1] by (auto simp: said_def split: if_splits)
  have "sendable count (unat (max_buflen (g_adapter A1))) (snd x)" if "x \<in> set ms" for x
    using Cons.prems(2) [of x] that room by simp
  from Cons.IH [OF link this] obtain A2 B2 where "dialogue count ms A1 B1 = Some (map (\<lambda>(s, m). heard (if s then A1 else B1) m) ms, A2, B2)" "linked A2 B2"
    "bells (g_world A2) = bells (g_world A1) @ replicate (length (filter fst ms)) (guest_id B, guest_id A)"
    "bells (g_world B2) = bells (g_world B1) @ replicate (length (filter (\<lambda>x. \<not> fst x) ms)) (guest_id A, guest_id B)"
    unfolding ids by blast
  moreover have "map (\<lambda>(s, m). heard (if s then A1 else B1) m) ms = map (\<lambda>(s, m). heard (if s then A else B) m) ms"
    using pids by (auto intro: heard_cong)
  ultimately show ?case using said bells by (cases s) (auto simp: sm)
qed simp

end
