(* ===== verification/Famez_Hotplug.thy ===== *)
theory Famez_Hotplug
  imports Famez_Pci
begin

text \<open>
  The life of the driver as the PCI core sees it: between loading and unloading the module,
  devices are probed and removed in any order, and meanwhile the other guests change the
  contents of the shared memory. \<open>driver_step\<close> is one such event; \<open>famez_init\<close> and \<open>famez_exit\<close> of
  \<open>kernel/famez/famez_pci.c\<close> only open and close this period.

  The invariant says which device owns which memory: the blocks of different devices are
  disjoint, the list holds the adapters of exactly the bound devices, and nothing else is
  allocated. From it every removal succeeds, also while other devices stay bound.
\<close>

section \<open>Events\<close>

text \<open>
  The set \<open>Env\<close> holds what the rest of the kernel may answer: each probe and each removal has
  an answer of its own, so that every call can fail at one event and succeed at another, and
  waiting for the semaphore can be interrupted at any of them. The one outcome left out is
  the failed greeting of \<open>failed_greeting_leaves_freed_adapter_listed\<close>, a probe that fails and
  has changed the list.
\<close>

inductive driver_step :: "probe_env set \<Rightarrow> famez_sys \<Rightarrow> famez_sys \<Rightarrow> bool" for Env where
  probed: "E \<in> Env \<Longrightarrow> mailbox_ready (worlds y pd) \<Longrightarrow> famez_init_one E pd y = Some (ret, y') \<Longrightarrow>
    ret = 0 \<or> famez_adapter_list y' = famez_adapter_list y \<Longrightarrow> driver_step Env y y'"
| removed: "E \<in> Env \<Longrightarrow> famez_remove_one E pd y = Some y' \<Longrightarrow> driver_step Env y y'"
| outside: "drvdata (pci_devs y pd) = None \<or> same_layout (worlds y pd) w' \<Longrightarrow> driver_step Env y (put_world pd w' y)"

inductive driver_reach :: "probe_env set \<Rightarrow> famez_sys \<Rightarrow> famez_sys \<Rightarrow> bool" for Env where
  start: "driver_reach Env y y"
| step: "driver_reach Env y z \<Longrightarrow> driver_step Env z u \<Longrightarrow> driver_reach Env y u"

section \<open>The invariant\<close>

definition dev_blocks :: "famez_sys \<Rightarrow> nat \<Rightarrow> nat set" where
  "dev_blocks y addr = adapter_owns (addr, adapter_at y addr) \<union>
     (case IRQ_private (adapter_at y addr) of None \<Rightarrow> {} | Some t \<Rightarrow> {fst t})"

definition dev_free :: "famez_sys \<Rightarrow> nat \<Rightarrow> bool" where
  "dev_free y pd \<longleftrightarrow> drvdata (pci_devs y pd) = None \<and> \<not> enabled (pci_devs y pd) \<and> \<not> regions (pci_devs y pd) \<and>
     irq_states y pd = \<lparr>attached = {}, vectors_on = False\<rparr>"

definition dev_bound :: "famez_sys \<Rightarrow> nat \<Rightarrow> nat \<Rightarrow> bool" where
  "dev_bound y pd addr \<longleftrightarrow> drvdata (pci_devs y pd) = Some addr \<and> pdev (adapter_at y addr) = Some pd \<and>
     (\<exists>tab es. IRQ_private (adapter_at y addr) = Some (tab, es) \<and> tab \<notin> adapter_owns (addr, adapter_at y addr)) \<and>
     adapter_idle (addr, (adapter_at y addr)\<lparr>IRQ_private := None\<rparr>) \<and>
     adapter_inv (adapter_at y addr) (worlds y pd) \<and>
     irqs_on (adapter_at y addr) (worlds y pd) (sys_heap y) (irq_states y pd)"

definition driver_inv :: "probe_env \<Rightarrow> nat set \<Rightarrow> famez_sys \<Rightarrow> bool" where
  "driver_inv E L y \<longleftrightarrow> wf_heap (sys_heap y) \<and> 0 < famez_adapter_sema y \<and> distinct (famez_adapter_list y) \<and>
     (\<forall>pd. dev_free y pd \<or> (\<exists>addr \<in> set (famez_adapter_list y). dev_bound y pd addr)) \<and>
     (\<forall>addr \<in> set (famez_adapter_list y). (\<exists>pd. dev_bound y pd addr) \<and> dev_blocks y addr \<inter> L = {}) \<and>
     (\<forall>a \<in> set (famez_adapter_list y). \<forall>b \<in> set (famez_adapter_list y). a \<noteq> b \<longrightarrow> dev_blocks y a \<inter> dev_blocks y b = {}) \<and>
     (\<forall>p q a b. dev_bound y p a \<longrightarrow> dev_bound y q b \<longrightarrow> CARDLOC E p = CARDLOC E q \<longrightarrow> p = q) \<and>
     k_live (sys_heap y) = L \<union> (\<Union>addr \<in> set (famez_adapter_list y). dev_blocks y addr)"

definition probes_ok :: "probe_env \<Rightarrow> bool" where
  "probes_ok E \<longleftrightarrow> (\<forall>pd. pci_request_regions (pci_of E pd) \<le> 0 \<and> irq_env_ok (irq_of E pd))"

text \<open>Documented behaviour of the PCI core at every event; the devices keep their locations.\<close>

definition envs_ok :: "probe_env \<Rightarrow> probe_env set \<Rightarrow> bool" where
  "envs_ok E Env \<longleftrightarrow> (\<forall>F \<in> Env. probes_ok F \<and> CARDLOC F = CARDLOC E)"

lemma driver_inv_loc: "CARDLOC F = CARDLOC E \<Longrightarrow> driver_inv F L y = driver_inv E L y"
  by (simp only: driver_inv_def)

lemma dev_bound_drvdata: "dev_bound y pd addr \<Longrightarrow> drvdata (pci_devs y pd) = Some addr"
  by (simp add: dev_bound_def)

lemma dev_bound_unique: "dev_bound y pd a \<Longrightarrow> dev_bound y pd b \<Longrightarrow> a = b"
  by (simp add: dev_bound_def)

lemma dev_bound_owner: "dev_bound y p a \<Longrightarrow> dev_bound y q a \<Longrightarrow> p = q"
  by (simp add: dev_bound_def)

lemma addr_in_blocks: "addr \<in> dev_blocks y addr"
  by (simp add: dev_blocks_def adapter_owns_def)

lemma driver_list_ok: "driver_inv E L y \<Longrightarrow> list_ok y"
  using addr_in_blocks by (fastforce simp: driver_inv_def list_ok_def dev_bound_def)

lemma driver_bound:
  assumes "driver_inv E L y" and "drvdata (pci_devs y pd) = Some addr"
  shows "dev_bound y pd addr" and "addr \<in> set (famez_adapter_list y)"
proof -
  have "dev_free y pd \<or> (\<exists>a \<in> set (famez_adapter_list y). dev_bound y pd a)" using assms(1) by (simp add: driver_inv_def)
  then obtain a where a: "dev_bound y pd a" "a \<in> set (famez_adapter_list y)" using assms(2) by (auto simp: dev_free_def)
  moreover have "a = addr" using dev_bound_drvdata [OF a(1)] assms(2) by simp
  ultimately show "dev_bound y pd addr" "addr \<in> set (famez_adapter_list y)" by simp_all
qed

lemma dev_bound_listed: "driver_inv E L y \<Longrightarrow> dev_bound y pd addr \<Longrightarrow> addr \<in> set (famez_adapter_list y)"
  using driver_bound(2) dev_bound_drvdata by blast

text \<open>A device another event does not touch stays as it is.\<close>

definition untouched :: "famez_sys \<Rightarrow> famez_sys \<Rightarrow> nat \<Rightarrow> bool" where
  "untouched y y' pd \<longleftrightarrow> pci_devs y' pd = pci_devs y pd \<and> irq_states y' pd = irq_states y pd \<and> worlds y' pd = worlds y pd"

lemma dev_free_untouched: "untouched y y' pd \<Longrightarrow> dev_free y' pd = dev_free y pd"
  by (simp add: untouched_def dev_free_def)

lemma dev_blocks_cong: "adapter_at y' addr = adapter_at y addr \<Longrightarrow> dev_blocks y' addr = dev_blocks y addr"
  by (simp add: dev_blocks_def)

lemma dev_bound_untouched:
  assumes "untouched y y' pd" and "adapter_at y' addr = adapter_at y addr"
    and "dev_blocks y addr \<subseteq> k_live (sys_heap y)" and "dev_blocks y addr \<subseteq> k_live (sys_heap y')"
  shows "dev_bound y' pd addr = dev_bound y pd addr"
  using assms by (auto simp: dev_bound_def untouched_def irqs_on_def dev_blocks_def)

section \<open>Which memory an event may change\<close>

lemma teardown_worlds: "isr_teardown_at addr pd y = Some y' \<Longrightarrow> worlds y' = worlds y"
  by (auto simp: isr_teardown_at_def put_defs bind_eq_Some_conv)

lemma disable_worlds: "err_pci_disable_device ret a pd y = Some (r, y') \<Longrightarrow> worlds y' = worlds y"
  by (auto simp: err_pci_disable_device_def put_defs bind_eq_Some_conv split: option.splits)

lemma err_teardown_worlds: "err_MSIX_teardown ret addr pd y = Some (r, y') \<Longrightarrow> worlds y' = worlds y"
  by (auto simp: err_MSIX_teardown_def bind_eq_Some_conv dest!: teardown_worlds disable_worlds)

lemma list_adapter_worlds: "list_adapter E addr pd y = Some (r, y') \<Longrightarrow> worlds y' = worlds y"
  by (auto simp: list_adapter_def sema_down_def sema_up_def bind_eq_Some_conv split: if_splits)

lemma greet_worlds: "greet_server E addr pd y = Some (r, y') \<Longrightarrow> \<exists>w. worlds y' = (worlds y)(pd := w)"
  by (auto simp: greet_server_def put_defs bind_eq_Some_conv)

lemma init_one_worlds:
  "famez_init_one E pd y = Some (ret, y') \<Longrightarrow> q \<noteq> pd \<Longrightarrow> worlds y' q = worlds y q"
  by (auto simp: famez_init_one_def Let_def put_defs split: bind_splits if_splits sum.splits
      dest!: disable_worlds err_teardown_worlds list_adapter_worlds greet_worlds)

section \<open>Every event keeps the invariant\<close>

lemma probe_ok_inv:
  assumes "driver_inv E L y" and "probes_ok E" and "drvdata (pci_devs y pd) = None" and "mailbox_ready (worlds y pd)"
  shows "probe_ok E pd y"
proof -
  have "dev_free y pd" using assms(1,3) unfolding driver_inv_def by (metis dev_bound_drvdata option.simps(3))
  then show ?thesis using assms driver_list_ok [OF assms(1)] by (simp add: probe_ok_def dev_free_def probes_ok_def driver_inv_def)
qed

lemma blocks_live: "driver_inv E L y \<Longrightarrow> addr \<in> set (famez_adapter_list y) \<Longrightarrow> dev_blocks y addr \<subseteq> k_live (sys_heap y)"
  by (auto simp: driver_inv_def)

lemma driver_owner: "driver_inv E L y \<Longrightarrow> addr \<in> set (famez_adapter_list y) \<Longrightarrow> \<exists>pd. dev_bound y pd addr"
  by (simp add: driver_inv_def)

lemma driver_loc:
  assumes "driver_inv E L y" and "dev_bound y p a" and "dev_bound y q b" and "CARDLOC E p = CARDLOC E q"
  shows "p = q"
proof -
  have "\<forall>p q a b. dev_bound y p a \<longrightarrow> dev_bound y q b \<longrightarrow> CARDLOC E p = CARDLOC E q \<longrightarrow> p = q"
    using assms(1) unfolding driver_inv_def by (elim conjE)
  then show ?thesis using assms(2-4) by blast
qed

text \<open>The adapters of the other devices.\<close>

definition others :: "famez_sys \<Rightarrow> nat \<Rightarrow> nat set" where
  "others y pd = {a \<in> set (famez_adapter_list y). \<not> dev_bound y pd a}"

text \<open>What becomes of the device an event is about.\<close>

definition fate :: "probe_env \<Rightarrow> nat set \<Rightarrow> nat \<Rightarrow> famez_sys \<Rightarrow> famez_sys \<Rightarrow> nat set \<Rightarrow> bool" where
  "fate E L pd y y' N \<longleftrightarrow> N = {} \<and> dev_free y' pd \<or>
     (\<exists>addr. N = {addr} \<and> dev_bound y' pd addr \<and> dev_blocks y' addr \<inter> (L \<union> (\<Union>a \<in> others y pd. dev_blocks y a)) = {} \<and>
        (\<forall>q a. dev_bound y q a \<longrightarrow> CARDLOC E q = CARDLOC E pd \<longrightarrow> q = pd))"

lemma bound_in_others:
  assumes inv: "driver_inv E L y" and q: "q \<noteq> pd" "drvdata (pci_devs y q) = Some a"
  shows "a \<in> others y pd"
  using driver_bound [OF inv q(2)] dev_bound_owner [of y q a pd] q(1) by (auto simp: others_def)

lemma bound_elsewhere:
  assumes inv: "driver_inv E L y" and u: "untouched y y' q" and q: "q \<noteq> pd"
    and at: "\<And>a. a \<in> others y pd \<Longrightarrow> adapter_at y' a = adapter_at y a"
    and h: "(\<Union>a \<in> others y pd. dev_blocks y a) \<subseteq> k_live (sys_heap y')"
  shows "dev_bound y' q a = dev_bound y q a"
proof (cases "a \<in> others y pd")
  case True
  then have "dev_blocks y a \<subseteq> k_live (sys_heap y)" by (intro blocks_live [OF inv]) (simp add: others_def)
  then show ?thesis using dev_bound_untouched [OF u at [OF True]] True h by blast
next
  case False
  then have "drvdata (pci_devs y q) \<noteq> Some a" using bound_in_others [OF inv q] by blast
  then show ?thesis using u by (simp add: dev_bound_def untouched_def)
qed

lemma fate_disjoint:
  assumes inv: "driver_inv E L y" and f: "fate E L pd y y' N" and blk: "\<And>a. a \<in> others y pd \<Longrightarrow> dev_blocks y' a = dev_blocks y a"
    and ab: "a \<in> others y pd \<union> N" "b \<in> others y pd \<union> N" "a \<noteq> b"
  shows "dev_blocks y' a \<inter> dev_blocks y' b = {}"
proof -
  have "dev_blocks y' a \<inter> dev_blocks y' b = {}" if "a \<in> others y pd" "b \<in> others y pd"
    using that ab(3) blk inv unfolding driver_inv_def others_def by simp
  moreover have "dev_blocks y' c \<inter> dev_blocks y' e = {}" if "c \<in> others y pd" "e \<in> N" for c e
    using that f blk [OF that(1)] by (auto simp: fate_def)
  moreover have "\<not> (a \<in> N \<and> b \<in> N)" using f ab(3) by (auto simp: fate_def)
  ultimately show ?thesis using ab(1,2) by (metis Int_commute UnE)
qed

lemma fate_loc:
  assumes inv: "driver_inv E L y" and f: "fate E L pd y y' N"
    and bnd: "\<And>q a. q \<noteq> pd \<Longrightarrow> dev_bound y' q a = dev_bound y q a"
    and pq: "dev_bound y' p a" "dev_bound y' q b" "CARDLOC E p = CARDLOC E q"
  shows "p = q"
proof -
  have "p = q" if "p \<noteq> pd" "q \<noteq> pd" using driver_loc [OF inv] pq bnd that by simp
  moreover have "r = pd" if "dev_bound y' r c" "CARDLOC E r = CARDLOC E pd" "dev_bound y' pd e" for r c e
    using that f bnd [of r c] by (auto simp: fate_def dev_bound_def dev_free_def)
  ultimately show ?thesis using pq by metis
qed

text \<open>It is enough to look at the device an event is about, when the others are untouched.\<close>

lemma event_inv:
  assumes inv: "driver_inv E L y" and u: "\<And>q. q \<noteq> pd \<Longrightarrow> untouched y y' q"
    and at: "\<And>a. a \<in> others y pd \<Longrightarrow> adapter_at y' a = adapter_at y a"
    and l: "set (famez_adapter_list y') = others y pd \<union> N" "distinct (famez_adapter_list y')"
    and h: "wf_heap (sys_heap y')" "0 < famez_adapter_sema y'"
      "k_live (sys_heap y') = L \<union> (\<Union>a \<in> others y pd. dev_blocks y a) \<union> (\<Union>a \<in> N. dev_blocks y' a)"
    and f: "fate E L pd y y' N"
  shows "driver_inv E L y'"
proof -
  have blk: "dev_blocks y' a = dev_blocks y a" if "a \<in> others y pd" for a by (rule dev_blocks_cong [OF at [OF that]])
  have bnd: "dev_bound y' q a = dev_bound y q a" if "q \<noteq> pd" for q a
    by (rule bound_elsewhere [OF inv u [OF that] that at]) (use h(3) in auto)
  have dev: "dev_free y' q \<or> (\<exists>a \<in> set (famez_adapter_list y'). dev_bound y' q a)" for q
  proof (cases "q = pd")
    case True
    then show ?thesis using f l(1) by (auto simp: fate_def)
  next
    case False
    then show ?thesis using inv dev_free_untouched [OF u [OF False]] bnd [OF False] bound_in_others [OF inv False] l(1)
      unfolding driver_inv_def by (metis UnI1 dev_bound_drvdata)
  qed
  have adapters: "(\<exists>q. dev_bound y' q a) \<and> dev_blocks y' a \<inter> L = {}" if "a \<in> set (famez_adapter_list y')" for a
  proof (cases "a \<in> others y pd")
    case True
    then obtain q where "dev_bound y q a" using driver_owner [OF inv, of a] by (auto simp: others_def)
    moreover from this True have "q \<noteq> pd" by (auto simp: others_def)
    ultimately show ?thesis using True bnd blk [OF True] inv unfolding driver_inv_def others_def by auto
  next
    case False
    then show ?thesis using that l(1) f by (auto simp: fate_def)
  qed
  have disj: "dev_blocks y' a \<inter> dev_blocks y' b = {}"
    if "a \<in> set (famez_adapter_list y')" "b \<in> set (famez_adapter_list y')" "a \<noteq> b" for a b
    by (rule fate_disjoint [OF inv f blk]) (use that l(1) in auto)
  have "k_live (sys_heap y') = L \<union> (\<Union>a \<in> set (famez_adapter_list y'). dev_blocks y' a)"
    using h(3) l(1) blk by auto
  then show ?thesis unfolding driver_inv_def
    by (intro conjI allI ballI impI h(1,2) l(2) dev disj) (use adapters fate_loc [OF inv f bnd] in \<open>simp_all\<close>)
qed

lemma others_free: "dev_free y pd \<Longrightarrow> others y pd = set (famez_adapter_list y)"
  by (auto simp: others_def dev_free_def dev_bound_def)

lemma others_at:
  assumes "driver_inv E L y" and "\<forall>c \<in> k_live (sys_heap y). adapter_at y' c = adapter_at y c" and "a \<in> others y pd"
  shows "adapter_at y' a = adapter_at y a"
  using blocks_live [OF assms(1), of a] addr_in_blocks [of a y] assms(2,3) by (auto simp: others_def)

lemma undone_inv:
  assumes inv: "driver_inv E L y" and free: "dev_free y pd" and un: "probe_undone pd y y'" and sema: "0 < famez_adapter_sema y'"
    and w: "\<And>q. q \<noteq> pd \<Longrightarrow> worlds y' q = worlds y q"
  shows "driver_inv E L y'"
proof (rule event_inv [OF inv, where N = "{}"])
  show "untouched y y' q" if "q \<noteq> pd" for q using un w that by (simp add: untouched_def probe_undone_def)
  show "adapter_at y' a = adapter_at y a" if "a \<in> others y pd" for a
    using un by (intro others_at [OF inv _ that]) (simp add: probe_undone_def)
  show "fate E L pd y y' {}" using un free by (simp add: fate_def probe_undone_def dev_free_def)
qed (use inv un sema others_free [OF free] in \<open>auto simp: driver_inv_def probe_undone_def\<close>)

lemma done_bound:
  assumes "adapter_holds K addr y'" and "drvdata (pci_devs y' pd) = Some addr" and "pdev (adapter_at y' addr) = Some pd"
    and "adapter_inv (adapter_at y' addr) (worlds y' pd)"
    and "irqs_on (adapter_at y' addr) (worlds y' pd) (sys_heap y') (irq_states y' pd)"
  shows "dev_bound y' pd addr" and "dev_blocks y' addr \<inter> K = {}" and "k_live (sys_heap y') = K \<union> dev_blocks y' addr"
proof -
  obtain a tab es where a: "adapter_at y' addr = a\<lparr>IRQ_private := Some (tab, es)\<rparr>" "adapter_idle (addr, a)"
    "adapter_owns (addr, a) \<inter> K = {}" "tab \<notin> K \<union> adapter_owns (addr, a)"
    "k_live (sys_heap y') = insert tab (K \<union> adapter_owns (addr, a))" using assms(1) by (auto simp: adapter_holds_def)
  have o: "adapter_owns (addr, adapter_at y' addr) = adapter_owns (addr, a)" by (simp add: a(1) adapter_owns_def)
  have b: "dev_blocks y' addr = insert tab (adapter_owns (addr, a))" unfolding dev_blocks_def o by (simp add: a(1))
  have "a\<lparr>IRQ_private := None\<rparr> = a" using a(2) by (simp add: adapter_idle_def)
  then have "(adapter_at y' addr)\<lparr>IRQ_private := None\<rparr> = a" by (simp add: a(1))
  then show "dev_bound y' pd addr" unfolding dev_bound_def o using assms(2-5) a(2,4) by (simp add: a(1))
  show "dev_blocks y' addr \<inter> K = {}" "k_live (sys_heap y') = K \<union> dev_blocks y' addr" using a(3-5) by (auto simp: b)
qed

lemma done_inv:
  assumes inv: "driver_inv E L y" and free: "dev_free y pd" and dn: "probe_done E pd y y'" and sema: "0 < famez_adapter_sema y'"
    and w: "\<And>q. q \<noteq> pd \<Longrightarrow> worlds y' q = worlds y q"
  shows "driver_inv E L y'"
proof -
  obtain addr where a: "addr \<notin> k_live (sys_heap y)" "famez_adapter_list y' = famez_adapter_list y @ [addr]"
    and b: "dev_bound y' pd addr" "dev_blocks y' addr \<inter> k_live (sys_heap y) = {}" "k_live (sys_heap y') = k_live (sys_heap y) \<union> dev_blocks y' addr"
    using dn done_bound [of "k_live (sys_heap y)" _ y' pd] unfolding probe_done_def by blast
  have k: "k_live (sys_heap y) = L \<union> (\<Union>c \<in> others y pd. dev_blocks y c)"
    using inv others_free [OF free] by (simp add: driver_inv_def)
  show ?thesis
  proof (rule event_inv [OF inv, where N = "{addr}"])
    show "untouched y y' q" if "q \<noteq> pd" for q using dn w that by (simp add: untouched_def probe_done_def)
    show "adapter_at y' c = adapter_at y c" if "c \<in> others y pd" for c
      using dn by (intro others_at [OF inv _ that]) (simp add: probe_done_def)
    have "q = pd" if "dev_bound y q c" "CARDLOC E q = CARDLOC E pd" for q c
      using that dn dev_bound_listed [OF inv that(1)] by (auto simp: probe_done_def loc_listed_def dev_bound_def)
    then show "fate E L pd y y' {addr}" using b(1,2) unfolding fate_def k by blast
    show "distinct (famez_adapter_list y')"
      using a inv blocks_live [OF inv, of addr] addr_in_blocks [of addr y] by (auto simp: driver_inv_def)
    show "set (famez_adapter_list y') = others y pd \<union> {addr}" using a(2) others_free [OF free] by simp
    show "k_live (sys_heap y') = L \<union> (\<Union>c \<in> others y pd. dev_blocks y c) \<union> (\<Union>c \<in> {addr}. dev_blocks y' c)" using b(3) k by simp
  qed (use inv dn sema in \<open>simp_all add: driver_inv_def probe_done_def\<close>)
qed

lemma bound_split:
  assumes inv: "driver_inv E L y" and b: "dev_bound y pd addr"
  shows "others y pd = set (famez_adapter_list y) - {addr}"
    and "k_live (sys_heap y) - dev_blocks y addr = L \<union> (\<Union>a \<in> others y pd. dev_blocks y a)"
    and "\<And>a. a \<in> others y pd \<Longrightarrow> dev_blocks y a \<inter> dev_blocks y addr = {}"
proof -
  have l: "addr \<in> set (famez_adapter_list y)" by (rule dev_bound_listed [OF inv b])
  show o: "others y pd = set (famez_adapter_list y) - {addr}" using b by (auto simp: others_def dest: dev_bound_unique)
  show d: "dev_blocks y a \<inter> dev_blocks y addr = {}" if "a \<in> others y pd" for a
    using inv l that unfolding o driver_inv_def by simp
  have "k_live (sys_heap y) = L \<union> (\<Union>a \<in> set (famez_adapter_list y). dev_blocks y a)" using inv by (simp add: driver_inv_def)
  also have "\<dots> = L \<union> (\<Union>a \<in> others y pd. dev_blocks y a) \<union> dev_blocks y addr" using l unfolding o by blast
  finally have "k_live (sys_heap y) = L \<union> (\<Union>a \<in> others y pd. dev_blocks y a) \<union> dev_blocks y addr" .
  moreover have "dev_blocks y addr \<inter> L = {}" using inv l by (simp add: driver_inv_def)
  ultimately show "k_live (sys_heap y) - dev_blocks y addr = L \<union> (\<Union>a \<in> others y pd. dev_blocks y a)" using d by blast
qed

lemma bound_filter:
  assumes inv: "driver_inv E L y" and b: "dev_bound y pd addr" and at: "\<And>c. pdev (at c) = pdev (adapter_at y c)"
  shows "set (filter (\<lambda>c. CARDLOC E (the (pdev (at c))) \<noteq> CARDLOC E pd) (famez_adapter_list y)) = others y pd"
proof -
  have "CARDLOC E (the (pdev (adapter_at y c))) \<noteq> CARDLOC E pd \<longleftrightarrow> \<not> dev_bound y pd c" if c: "c \<in> set (famez_adapter_list y)" for c
  proof -
    obtain q where q: "dev_bound y q c" using driver_owner [OF inv c] by blast
    have "pdev (adapter_at y c) = Some q" using q by (simp add: dev_bound_def)
    moreover have "CARDLOC E q = CARDLOC E pd \<longleftrightarrow> q = pd" using driver_loc [OF inv q b] by auto
    moreover have "dev_bound y pd c \<longleftrightarrow> q = pd" using q dev_bound_owner [OF q, of pd] by auto
    ultimately show ?thesis by simp
  qed
  then show ?thesis by (auto simp: others_def at)
qed

text \<open>The state in which only the interrupts of a bound device are torn down.\<close>

definition quiet :: "nat \<Rightarrow> nat \<Rightarrow> kheap \<Rightarrow> famez_sys \<Rightarrow> famez_sys" where
  "quiet addr pd h y = put_adapter addr ((adapter_at y addr)\<lparr>IRQ_private := None\<rparr>)
     (put_irqs pd \<lparr>attached = {}, vectors_on = False\<rparr> (y\<lparr>sys_heap := h\<rparr>))"

lemma quiet_simps [simp]:
  "adapter_at (quiet addr pd h y) c = (if c = addr then (adapter_at y addr)\<lparr>IRQ_private := None\<rparr> else adapter_at y c)"
  "sys_heap (quiet addr pd h y) = h" "famez_adapter_list (quiet addr pd h y) = famez_adapter_list y"
  "pci_devs (quiet addr pd h y) = pci_devs y" "famez_adapter_sema (quiet addr pd h y) = famez_adapter_sema y"
  "worlds (quiet addr pd h y) = worlds y"
  "irq_states (quiet addr pd h y) = (irq_states y)(pd := \<lparr>attached = {}, vectors_on = False\<rparr>)"
  by (simp_all add: quiet_def put_defs)

lemma quiet_pdev: "pdev (adapter_at (quiet addr pd h y) c) = pdev (adapter_at y c)"
  by simp

lemma teardown_bound:
  assumes inv: "driver_inv E L y" and b: "dev_bound y pd addr"
  obtains h where "isr_teardown_at addr pd y = Some (quiet addr pd h y)" and "list_ok (quiet addr pd h y)"
    and "adapter_owns (addr, adapter_at y addr) \<subseteq> k_live h"
    and "k_live h - adapter_owns (addr, adapter_at y addr) = k_live (sys_heap y) - dev_blocks y addr"
    and "k_next h = k_next (sys_heap y)"
proof -
  obtain tab es where t: "IRQ_private (adapter_at y addr) = Some (tab, es)" "tab \<notin> adapter_owns (addr, adapter_at y addr)"
    and b': "adapter_inv (adapter_at y addr) (worlds y pd)"
      "irqs_on (adapter_at y addr) (worlds y pd) (sys_heap y) (irq_states y pd)"
    using b by (auto simp: dev_bound_def)
  have blk: "dev_blocks y addr = insert tab (adapter_owns (addr, adapter_at y addr))" by (simp add: dev_blocks_def t(1))
  note live = blocks_live [OF inv dev_bound_listed [OF inv b]]
  obtain h where td: "isr_teardown_at addr pd y = Some (quiet addr pd h y)"
    and h: "k_live h = k_live (sys_heap y) - {tab}" "k_next h = k_next (sys_heap y)"
    using isr_teardown_at_run [OF b'(2) _ _ _ t(1)] b'(1) live addr_in_blocks [of addr y] by (auto simp: adapter_inv_def quiet_def)
  have "c \<noteq> tab" if "c \<in> set (famez_adapter_list y)" for c
    using that bound_split(1) [OF inv b] bound_split(3) [OF inv b, of c] addr_in_blocks [of c y] blk t(2)
    by (cases "c = addr") (auto simp: adapter_owns_def)
  then have "list_ok (quiet addr pd h y)" using driver_list_ok [OF inv] by (auto simp: list_ok_def h)
  then show thesis using that [OF td] h live blk t(2) by auto
qed

lemma remove_bound:
  assumes inv: "driver_inv E L y" and b: "dev_bound y pd addr"
  shows "\<exists>y'. famez_remove_one E pd y = Some y' \<and> driver_inv E L y' \<and> dev_free y' pd"
proof -
  obtain h where td: "isr_teardown_at addr pd y = Some (quiet addr pd h y)" and lz: "list_ok (quiet addr pd h y)"
    and o: "adapter_owns (addr, adapter_at y addr) \<subseteq> k_live h"
    and k: "k_live h - adapter_owns (addr, adapter_at y addr) = k_live (sys_heap y) - dev_blocks y addr" "k_next h = k_next (sys_heap y)"
    using teardown_bound [OF inv b] by blast
  let ?a = "(adapter_at y addr)\<lparr>IRQ_private := None\<rparr>" and ?z = "quiet addr pd h y"
  have b': "drvdata (pci_devs y pd) = Some addr" "adapter_idle (addr, ?a)" using b by (auto simp: dev_bound_def)
  have oa: "adapter_owns (addr, ?a) = adapter_owns (addr, adapter_at y addr)" by (simp add: adapter_owns_def)
  have al: "addr \<in> k_live (sys_heap y)"
    using blocks_live [OF inv dev_bound_listed [OF inv b]] addr_in_blocks by blast
  have s1: "0 < famez_adapter_sema y" "wf_heap (sys_heap y)" "distinct (famez_adapter_list y)" using inv by (simp_all add: driver_inv_def)
  define y' where "y' = put_dev pd ((pci_release_regions ((pci_devs y pd)\<lparr>enabled := False\<rparr>))\<lparr>drvdata := None\<rparr>)
      ((sema_slip E ?z)\<lparr>famez_adapter_list := filter (\<lambda>c. CARDLOC E (the (pdev (adapter_at ?z c))) \<noteq> CARDLOC E pd) (famez_adapter_list ?z),
         sys_heap := (sys_heap ?z)\<lparr>k_live := k_live (sys_heap ?z) - adapter_owns (addr, adapter_at ?z addr)\<rparr>\<rparr>)"
  have rm: "famez_remove_one E pd y = Some y'" unfolding y'_def
    by (rule remove_one_steps [OF b'(1) al td lz]) (use s1 b'(2) o oa in simp_all)
  have sema: "0 < famez_adapter_sema y'" using remove_one_sema [OF rm] s1(1) by (simp add: sema_kept_def)
  have free: "dev_free y' pd" by (simp add: y'_def dev_free_def pci_release_regions_def put_dev_def)
  have fl: "famez_adapter_list y' = filter (\<lambda>c. CARDLOC E (the (pdev (adapter_at ?z c))) \<noteq> CARDLOC E pd) (famez_adapter_list y)"
    by (simp add: y'_def put_dev_def)
  have "driver_inv E L y'"
  proof (rule event_inv [OF inv, where N = "{}"])
    show "adapter_at y' c = adapter_at y c" if "c \<in> others y pd" for c
      using that bound_split(1) [OF inv b] by (simp add: y'_def put_dev_def)
    show "set (famez_adapter_list y') = others y pd \<union> {}"
      using bound_filter [OF inv b quiet_pdev] unfolding fl by (simp only: Un_empty_right)
    show "k_live (sys_heap y') = L \<union> (\<Union>c \<in> others y pd. dev_blocks y c) \<union> (\<Union>c \<in> {}. dev_blocks y' c)"
      using bound_split(2) [OF inv b] k by (simp add: y'_def put_dev_def oa)
    show "wf_heap (sys_heap y')" using s1(2) k by (auto simp: y'_def put_dev_def wf_heap_def oa)
  qed (use s1 sema free in \<open>simp_all add: fate_def untouched_def y'_def put_dev_def\<close>)
  then show ?thesis using rm free by blast
qed

lemma outside_inv:
  assumes inv: "driver_inv E L y" and w: "drvdata (pci_devs y pd) = None \<or> same_layout (worlds y pd) w'"
  shows "driver_inv E L (put_world pd w' y)" (is "driver_inv E L ?y")
proof -
  have s: "adapter_at ?y = adapter_at y" "sys_heap ?y = sys_heap y" "famez_adapter_list ?y = famez_adapter_list y"
    "famez_adapter_sema ?y = famez_adapter_sema y" "pci_devs ?y = pci_devs y" "irq_states ?y = irq_states y"
    "worlds ?y q = (if q = pd then w' else worlds y q)" for q by (simp_all add: put_world_def)
  have "dev_free ?y q = dev_free y q" and "dev_blocks ?y a = dev_blocks y a" for q a
    by (simp_all add: dev_free_def dev_blocks_def s)
  moreover have "dev_bound ?y q a = dev_bound y q a" for q a
    using w adapter_inv_layout [of "adapter_at y a" "worlds y pd" w'] adapter_inv_layout [of "adapter_at y a" w' "worlds y pd"]
    by (auto simp: dev_bound_def s irqs_on_def irq_table_ok_def same_layout_def)
  ultimately show ?thesis using inv by (simp add: driver_inv_def s)
qed

lemma probed_inv:
  assumes inv: "driver_inv E L y" and E: "probes_ok E" and w: "mailbox_ready (worlds y pd)"
    and run: "famez_init_one E pd y = Some (ret, y')" and l: "ret = 0 \<or> famez_adapter_list y' = famez_adapter_list y"
  shows "driver_inv E L y'"
proof (cases "drvdata (pci_devs y pd) = None")
  case True
  note ok = probe_ok_inv [OF inv E True w]
  have free: "dev_free y pd" using ok by (simp add: probe_ok_def dev_free_def)
  have sema: "0 < famez_adapter_sema y'" using init_one_sema [OF run] ok by (simp add: sema_kept_def probe_ok_def)
  have "probe_outcome E pd y ret y'" using init_one_result [OF ok] run by auto
  then have "if ret = 0 then probe_done E pd y y' else probe_undone pd y y'"
    using l by (auto simp: probe_outcome_def probe_stranded_def probe_undone_def split: if_splits)
  then show ?thesis using done_inv [OF inv free _ sema] undone_inv [OF inv free _ sema] init_one_worlds [OF run]
    by (simp split: if_splits)
next
  case False
  then show ?thesis using inv run by (simp add: famez_init_one_def)
qed

lemma removed_inv:
  assumes inv: "driver_inv E L y" and run: "famez_remove_one E pd y = Some y'"
  shows "driver_inv E L y'"
proof (cases "drvdata (pci_devs y pd)")
  case None
  then show ?thesis using inv run by (simp add: famez_remove_one_def)
next
  case (Some addr)
  then show ?thesis using remove_bound [OF inv driver_bound(1) [OF inv Some]] run by auto
qed

lemma driver_reach_inv: "driver_reach Env y z \<Longrightarrow> envs_ok E Env \<Longrightarrow> driver_inv E L y \<Longrightarrow> driver_inv E L z"
proof (induction rule: driver_reach.induct)
  case (step y z u)
  have inv: "driver_inv E L z" using step by blast
  have env: "probes_ok F" "driver_inv F L x = driver_inv E L x" if "F \<in> Env" for F x
    using that step(4) driver_inv_loc [of F E] by (simp_all add: envs_ok_def)
  from step(2) show ?case
  proof cases
    case (probed F pd ret)
    then show ?thesis using probed_inv [of F L z pd ret u] inv env by blast
  next
    case (removed F pd)
    then show ?thesis using removed_inv [of F L z pd u] inv env by blast
  next
    case (outside pd w')
    then show ?thesis using outside_inv [OF inv] by simp
  qed
qed

lemma driver_reach_sema:
  "driver_reach Env y z \<Longrightarrow> \<forall>F \<in> Env. down_ret F = 0 \<Longrightarrow> famez_adapter_sema z = famez_adapter_sema y"
proof (induction rule: driver_reach.induct)
  case (step y z u)
  from step(2) have "famez_adapter_sema u = famez_adapter_sema z"
    by cases (use step(4) in \<open>auto simp: sema_kept_def dest!: init_one_sema remove_one_sema\<close>)
  then show ?case using step by simp
qed simp

section \<open>Properties\<close>

definition just_loaded :: "famez_sys \<Rightarrow> bool" where
  "just_loaded y \<longleftrightarrow> wf_heap (sys_heap y) \<and> famez_adapter_list y = [] \<and> famez_adapter_sema y = 1 \<and> (\<forall>pd. dev_free y pd)"

lemma just_loaded_inv:
  assumes "just_loaded y"
  shows "driver_inv E (k_live (sys_heap y)) y"
proof -
  have "\<not> dev_bound y pd a" for pd a using assms by (simp add: just_loaded_def dev_free_def dev_bound_def)
  then show ?thesis using assms by (simp add: driver_inv_def just_loaded_def)
qed

text \<open>
  C16. From loading the module on, whatever devices are probed and removed, in any order,
  whatever calls fail at each event and whatever the other guests do to the shared memory,
  as long as no probe fails in its greeting (which breaks this, as C33 shows): the list holds
  the adapters of exactly the bound devices, each once; a bound device has a live, well-formed
  adapter with its interrupts attached, and removing it succeeds and leaves it unbound, also
  while others stay bound; two bound devices never have the same location; and whenever no
  device is bound, the heap is what it was when the module was loaded. The semaphore is free,
  with a count of 1 if no wait for it was interrupted.
\<close>

theorem hotplug_keeps_driver_consistent:
  assumes "driver_reach Env y z" and "just_loaded y" and "envs_ok E Env"
  shows "distinct (famez_adapter_list z) \<and> 0 < famez_adapter_sema z \<and>
    ((\<forall>F \<in> Env. down_ret F = 0) \<longrightarrow> famez_adapter_sema z = 1) \<and>
    set (famez_adapter_list z) = {addr. \<exists>pd. drvdata (pci_devs z pd) = Some addr} \<and>
    (\<forall>pd addr. drvdata (pci_devs z pd) = Some addr \<longrightarrow>
       addr \<in> k_live (sys_heap z) \<and> pdev (adapter_at z addr) = Some pd \<and> adapter_inv (adapter_at z addr) (worlds z pd) \<and>
       irqs_on (adapter_at z addr) (worlds z pd) (sys_heap z) (irq_states z pd) \<and>
       (\<forall>F \<in> Env. \<exists>u. famez_remove_one F pd z = Some u \<and> drvdata (pci_devs u pd) = None)) \<and>
    (\<forall>p q a b. drvdata (pci_devs z p) = Some a \<longrightarrow> drvdata (pci_devs z q) = Some b \<longrightarrow> p \<noteq> q \<longrightarrow> CARDLOC E p \<noteq> CARDLOC E q) \<and>
    ((\<forall>pd. drvdata (pci_devs z pd) = None) \<longrightarrow> k_live (sys_heap z) = k_live (sys_heap y))"
proof -
  have inv: "driver_inv E (k_live (sys_heap y)) z" by (rule driver_reach_inv [OF assms(1,3) just_loaded_inv [OF assms(2)]])
  note bound = driver_bound [OF inv]
  have list: "set (famez_adapter_list z) = {addr. \<exists>pd. drvdata (pci_devs z pd) = Some addr}" (is "?l = ?r")
  proof
    show "?l \<subseteq> ?r" using driver_owner [OF inv] dev_bound_drvdata by blast
    show "?r \<subseteq> ?l" using bound(2) by blast
  qed
  have rem: "\<exists>u. famez_remove_one F pd z = Some u \<and> drvdata (pci_devs u pd) = None"
    if "drvdata (pci_devs z pd) = Some addr" "F \<in> Env" for pd addr F
  proof -
    have "driver_inv F (k_live (sys_heap y)) z" using inv that(2) assms(3) driver_inv_loc [of F E] by (simp add: envs_ok_def)
    from remove_bound [OF this bound(1) [OF that(1)]] show ?thesis by (auto simp: dev_free_def)
  qed
  have live: "addr \<in> k_live (sys_heap z)" if "drvdata (pci_devs z pd) = Some addr" for pd addr
    using blocks_live [OF inv bound(2) [OF that]] addr_in_blocks by blast
  have loc: "p = q" if "drvdata (pci_devs z p) = Some a" "drvdata (pci_devs z q) = Some b" "CARDLOC E p = CARDLOC E q" for p q a b
    using driver_loc [OF inv bound(1) [OF that(1)] bound(1) [OF that(2)] that(3)] .
  have none: "k_live (sys_heap z) = k_live (sys_heap y)" if "\<forall>pd. drvdata (pci_devs z pd) = None"
    using that inv list by (simp add: driver_inv_def)
  have calm: "famez_adapter_sema z = 1" if "\<forall>F \<in> Env. down_ret F = 0"
    using driver_reach_sema [OF assms(1) that] assms(2) by (simp add: just_loaded_def)
  show ?thesis
  proof (intro conjI allI impI)
    fix pd addr assume d: "drvdata (pci_devs z pd) = Some addr"
    show "addr \<in> k_live (sys_heap z)" by (rule live [OF d])
    show "pdev (adapter_at z addr) = Some pd" "adapter_inv (adapter_at z addr) (worlds z pd)"
      "irqs_on (adapter_at z addr) (worlds z pd) (sys_heap z) (irq_states z pd)" using bound(1) [OF d] by (simp_all add: dev_bound_def)
    show "\<forall>F \<in> Env. \<exists>u. famez_remove_one F pd z = Some u \<and> drvdata (pci_devs u pd) = None" using rem [OF d] by blast
  qed (use inv list loc none calm in \<open>auto simp: driver_inv_def\<close>)
qed

text \<open>A successful probe, then one that cannot enable its device, with the wait interrupted.\<close>

definition demo_envs :: "probe_env set" where
  "demo_envs = {demo_probe, demo_probe\<lparr>down_ret := - 4, pci_of := (\<lambda>_. demo_pci\<lparr>pci_enable_device := - 5\<rparr>)\<rparr>}"

theorem hotplug_keeps_driver_consistent_witness:
  "\<exists>z addr u. driver_reach demo_envs demo_sys z \<and> drvdata (pci_devs z 0) = Some addr \<and> famez_adapter_list z = [addr] \<and>
    famez_remove_one demo_probe 0 z = Some u \<and> drvdata (pci_devs u 0) = None"
proof -
  let ?F = "demo_probe\<lparr>down_ret := - 4, pci_of := (\<lambda>_. demo_pci\<lparr>pci_enable_device := - 5\<rparr>)\<rparr>"
  obtain z where run: "famez_init_one demo_probe 0 demo_sys = Some (0, z)" using demo_probe_succeeds by blast
  have ok: "probe_ok demo_probe 0 demo_sys" by (rule demo_probe_ok)
  have pdn: "probe_done demo_probe 0 demo_sys z" using init_one_result [OF ok] run by (auto simp: probe_outcome_def)
  then obtain addr where a: "drvdata (pci_devs z 0) = Some addr" "famez_adapter_list z = [addr]"
    by (auto simp: probe_done_def demo_sys_def)
  have "driver_step demo_envs demo_sys z"
    using ok by (intro driver_step.probed [OF _ _ run]) (simp_all add: probe_ok_def demo_envs_def)
  note r1 = driver_reach.step [OF driver_reach.start this]
  have w1: "worlds z 1 = demo_world" and d1: "drvdata (pci_devs z 1) = None"
    using init_one_worlds [OF run, of 1] pdn by (simp_all add: demo_sys_def probe_done_def untaken_def)
  have "famez_init_one ?F 1 z = Some (- 5, z)" using d1 by (simp add: famez_init_one_def)
  then have "driver_step demo_envs z z" using w1 by (intro driver_step.probed [of ?F]) (simp_all add: demo_envs_def)
  note reach = driver_reach.step [OF r1 this]
  have load: "just_loaded demo_sys" using ok by (simp add: just_loaded_def probe_ok_def demo_sys_def dev_free_def)
  have "CARDLOC ?F = CARDLOC demo_probe" by (rule ext) (simp add: CARDLOC_def demo_probe_def)
  then have env: "envs_ok demo_probe demo_envs" using ok
    by (auto simp: probe_ok_def envs_ok_def probes_ok_def demo_envs_def demo_probe_def demo_pci_def)
  have "demo_probe \<in> demo_envs" by (simp add: demo_envs_def)
  with hotplug_keeps_driver_consistent [OF reach load env] reach a show ?thesis by blast
qed

end
