(* ===== verification/Genz_Bus.thy ===== *)
theory Genz_Bus
  imports Genz_Device Famez_Cstring
begin

text \<open>
  \<open>kernel/genz/genz_bus.c\<close>: the one Gen-Z device, and loading and unloading the bus
  module. What the driver core answers is \<open>bus_env\<close>; what it has registered for the
  module (the classes, the bus, the root device) and the static variable \<open>the_one\<close> are
  \<open>bus_state\<close>. Unregistering a bus that is not registered has no result.
\<close>

section \<open>Data\<close>

record genz_device =
  namefmt :: bytes
  gz_flags :: u64
  private_data :: "nat option"

definition GZNAMFMTSIZ :: nat where "GZNAMFMTSIZ = 64"

definition zero_genz_device :: genz_device where
  "zero_genz_device = \<lparr>namefmt = replicate GZNAMFMTSIZ NUL, gz_flags = 0, private_data = None\<rparr>"

record bus_env =
  class_reg :: "nat \<Rightarrow> int"
  bus_register :: int
  device_add :: int

record bus_state =
  bus_classes :: class_state
  bus_on :: bool
  root_on :: bool
  the_one :: "nat option"

section \<open>Operations\<close>

definition genz_match :: int where "genz_match = 1"

definition genz_num_vf :: int where "genz_num_vf = 1"

definition genz_dev_init :: int where "genz_dev_init = 0"

definition alloc_genzdev ::
  "string \<Rightarrow> (genz_device \<Rightarrow> genz_device) \<Rightarrow> kheap \<Rightarrow> ((nat \<times> genz_device) option \<times> kheap) option" where
  "alloc_genzdev fmt customize_cb h =
     (case kzalloc h of
        (None, h1) \<Rightarrow> Some (None, h1)
      | (Some p, h1) \<Rightarrow> do {
          nm \<leftarrow> sprintf (namefmt zero_genz_device) fmt;
          Some (Some (p, customize_cb (zero_genz_device\<lparr>namefmt := nm\<rparr>)), h1)
        })"

definition register_genzdev :: "nat \<Rightarrow> bus_state \<Rightarrow> int \<times> bus_state" where
  "register_genzdev p s = (if the_one s \<noteq> None then (- EALREADY, s) else (0, s\<lparr>the_one := Some p\<rparr>))"

definition unregister_genzdev :: "nat \<Rightarrow> bus_state \<Rightarrow> bus_state" where
  "unregister_genzdev p s = (if the_one s = Some p then s\<lparr>the_one := None\<rparr> else s)"

definition genz_device_customize :: "genz_device \<Rightarrow> genz_device" where
  "genz_device_customize g = g"

definition genz_init_one :: "kheap \<Rightarrow> bus_state \<Rightarrow> (int \<times> kheap \<times> bus_state) option" where
  "genz_init_one h s = do {
     (r, h1) \<leftarrow> alloc_genzdev ''genz%02d'' genz_device_customize h;
     (case r of
        None \<Rightarrow> Some (- ENOMEM, h1, s)
      | Some (p, _) \<Rightarrow> (case register_genzdev p s of (ret, s1) \<Rightarrow> Some (ret, h1, s1)))
   }"

definition genz_bus_exit :: "bus_state \<Rightarrow> bus_state option" where
  "genz_bus_exit s = do {
     s1 \<leftarrow> (if bus_on s then Some (s\<lparr>bus_on := False\<rparr>) else None);
     c \<leftarrow> genz_classes_destroy (bus_classes s1);
     Some (s1\<lparr>bus_classes := c\<rparr>)
   }"

definition genz_bus_init :: "bus_env \<Rightarrow> bool \<Rightarrow> bus_state \<Rightarrow> (int \<times> bus_state) option" where
  "genz_bus_init E auto0 s = do {
     (ret, c) \<leftarrow> genz_classes_init (class_reg E) (bus_classes s);
     let s1 = s\<lparr>bus_classes := c\<rparr>;
     if ret \<noteq> 0 then Some (ret, s1)
     else if bus_register E \<noteq> 0 then do {
       c2 \<leftarrow> genz_classes_destroy (bus_classes s1);
       Some (bus_register E, s1\<lparr>bus_classes := c2\<rparr>)
     }
     else do {
       let s2 = s1\<lparr>bus_on := True\<rparr>;
       if \<not> auto0 then Some (0, s2)
       else if device_add E \<noteq> 0 then do {
         s3 \<leftarrow> genz_bus_exit s2;
         Some (device_add E, s3)
       }
       else Some (0, s2\<lparr>root_on := True\<rparr>)
     }
   }"

section \<open>Lemmas\<close>

definition bus_off :: "bus_state \<Rightarrow> bool" where
  "bus_off s \<longleftrightarrow> class_names (bus_classes s) = {} \<and> \<not> bus_on s \<and> \<not> root_on s"

lemma bus_init_result:
  assumes off: "bus_off s"
  shows "\<exists>ret s'. genz_bus_init E auto0 s = Some (ret, s') \<and>
    (if ret = 0 then s' = s\<lparr>bus_classes := (bus_classes s)\<lparr>class_names := {1..<22}\<rparr>, bus_on := True, root_on := auto0\<rparr>
     else s' = s)"
proof -
  have c: "class_names (bus_classes s) = {}" and o: "\<not> bus_on s" "\<not> root_on s" using off by (simp_all add: bus_off_def)
  obtain ret cs where ci: "genz_classes_init (class_reg E) (bus_classes s) = Some (ret, cs)"
    and cs: "if ret = 0 then cs = (bus_classes s)\<lparr>class_names := {1..<22}\<rparr> else cs = bus_classes s"
    using classes_init_result [OF c, of "class_reg E"] by (auto split: if_splits)
  have same: "s\<lparr>bus_classes := bus_classes s\<rparr> = s" "s\<lparr>bus_classes := (bus_classes s)\<lparr>class_names := {}\<rparr>\<rparr> = s"
    "s\<lparr>bus_on := False, bus_classes := (bus_classes s)\<lparr>class_names := {}\<rparr>\<rparr> = s"
    using c o by simp_all
  show ?thesis
  proof (cases "ret = 0")
    case True
    with cs have d: "genz_classes_destroy cs = Some (cs\<lparr>class_names := {}\<rparr>)" "cs = (bus_classes s)\<lparr>class_names := {1..<22}\<rparr>"
      using classes_destroy_result [of cs] by auto
    show ?thesis using True ci d o same unfolding genz_bus_init_def Let_def
      by (cases "bus_register E = 0"; cases auto0; cases "device_add E = 0") (simp_all add: genz_bus_exit_def)
  qed (use ci cs in \<open>simp add: genz_bus_init_def\<close>)
qed

lemma bus_exit_result:
  assumes "bus_on s" and "class_names (bus_classes s) = {1..<22}"
  shows "genz_bus_exit s = Some (s\<lparr>bus_on := False, bus_classes := (bus_classes s)\<lparr>class_names := {}\<rparr>\<rparr>)"
  using classes_destroy_result [OF assms(2)] assms(1) by (simp add: genz_bus_exit_def)

lemma genz_init_one_result:
  assumes "wf_heap h"
  shows "\<exists>ret h' s'. genz_init_one h s = Some (ret, h', s') \<and> wf_heap h' \<and>
    (if ret = 0 then the_one s = None \<and> (\<exists>p. p \<notin> k_live h \<and> k_live h' = insert p (k_live h) \<and> s' = s\<lparr>the_one := Some p\<rparr>)
     else s' = s \<and> (ret = - ENOMEM \<and> k_live h' = k_live h \<or>
       ret = - EALREADY \<and> (\<exists>p. p \<notin> k_live h \<and> k_live h' = insert p (k_live h))))"
proof (cases "kzalloc h")
  case (Pair p h1)
  have nm: "sprintf (namefmt zero_genz_device) ''genz%02d'' \<noteq> None"
    by (simp add: sprintf_def zero_genz_device_def GZNAMFMTSIZ_def)
  show ?thesis
  proof (cases p)
    case None
    then show ?thesis using Pair kzalloc_None [of h h1] kzalloc_wf [OF Pair assms]
      by (simp add: genz_init_one_def alloc_genzdev_def)
  next
    case (Some a)
    have a: "a \<notin> k_live h" "k_live h1 = insert a (k_live h)" "wf_heap h1"
      using kzalloc_Some [of h a h1] Pair Some assms by simp_all
    obtain d where "alloc_genzdev ''genz%02d'' genz_device_customize h = Some (Some (a, d), h1)"
      using Pair Some nm by (auto simp: alloc_genzdev_def)
    then show ?thesis using a
      by (cases "the_one s") (auto simp: genz_init_one_def register_genzdev_def)
  qed
qed

section \<open>Properties\<close>

text \<open>
  C27. Loading the bus module always returns and is all or nothing: after an error of the
  classes, the bus or the root device nothing is registered. Unloading after a success
  unregisters the bus and all classes; the root device, if it was created, stays.
\<close>

theorem bus_load_all_or_nothing:
  assumes "bus_off s"
  shows "\<exists>ret s'. genz_bus_init E auto0 s = Some (ret, s') \<and>
    (if ret = 0 then bus_on s' \<and> class_names (bus_classes s') = {1..<22} \<and> root_on s' = auto0 \<and>
       genz_bus_exit s' = Some (s\<lparr>root_on := auto0\<rparr>)
     else s' = s)"
proof -
  obtain ret s' where r: "genz_bus_init E auto0 s = Some (ret, s')"
    "if ret = 0 then s' = s\<lparr>bus_classes := (bus_classes s)\<lparr>class_names := {1..<22}\<rparr>, bus_on := True, root_on := auto0\<rparr>
     else s' = s" using bus_init_result [OF assms] by blast
  have c: "(bus_classes s)\<lparr>class_names := {}\<rparr> = bus_classes s" "\<not> bus_on s" using assms by (simp_all add: bus_off_def)
  then have "s\<lparr>bus_classes := (bus_classes s)\<lparr>class_names := {}\<rparr>, bus_on := False, root_on := auto0\<rparr> = s\<lparr>root_on := auto0\<rparr>"
    by (cases s) simp
  then show ?thesis using r bus_exit_result [of s'] c by (cases "ret = 0"; cases s) auto
qed

theorem bus_load_all_or_nothing_witness:
  "\<exists>ret s'. genz_bus_init \<lparr>class_reg = (\<lambda>_. 0), bus_register = 0, device_add = 0\<rparr> True
      \<lparr>bus_classes = \<lparr>class_names = {}\<rparr>, bus_on = False, root_on = False, the_one = None\<rparr> = Some (ret, s') \<and>
    (if ret = 0 then bus_on s' \<and> class_names (bus_classes s') = {1..<22} \<and> root_on s' = True \<and>
       genz_bus_exit s' = Some (\<lparr>bus_classes = \<lparr>class_names = {}\<rparr>, bus_on = False, root_on = False, the_one = None\<rparr>\<lparr>root_on := True\<rparr>)
     else s' = \<lparr>bus_classes = \<lparr>class_names = {}\<rparr>, bus_on = False, root_on = False, the_one = None\<rparr>)"
  by (rule bus_load_all_or_nothing) (simp add: bus_off_def)

text \<open>
  The one Gen-Z device: a second probe is refused with \<open>-EALREADY\<close> and leaves the
  first device in place, but the block it allocated for the second is never freed. After
  unregistering the first, a probe succeeds again.
\<close>

theorem second_genz_device_refused_and_leaked:
  assumes "wf_heap h" and "the_one s = Some q" and "k_ok h (k_next h)"
  shows "\<exists>p h'. genz_init_one h s = Some (- EALREADY, h', s) \<and> p \<notin> k_live h \<and> k_live h' = insert p (k_live h) \<and>
    (\<exists>p2 h2. genz_init_one h (unregister_genzdev q s) = Some (0, h2, s\<lparr>the_one := Some p2\<rparr>))"
proof -
  have a: "\<exists>d. alloc_genzdev ''genz%02d'' genz_device_customize h = Some (Some (k_next h, d),
      h\<lparr>k_next := Suc (k_next h), k_live := insert (k_next h) (k_live h)\<rparr>)"
    using assms(3) by (simp add: alloc_genzdev_def kzalloc_def sprintf_def zero_genz_device_def GZNAMFMTSIZ_def)
  let ?h = "h\<lparr>k_next := Suc (k_next h), k_live := insert (k_next h) (k_live h)\<rparr>"
  have "genz_init_one h s = Some (- EALREADY, ?h, s)"
    using a assms(2) by (auto simp: genz_init_one_def register_genzdev_def)
  moreover have "genz_init_one h (unregister_genzdev q s) = Some (0, ?h, s\<lparr>the_one := Some (k_next h)\<rparr>)"
    using a assms(2) by (auto simp: genz_init_one_def register_genzdev_def unregister_genzdev_def)
  moreover have "k_next h \<notin> k_live h" "k_live ?h = insert (k_next h) (k_live h)"
    using wf_heap_fresh [OF assms(1)] by simp_all
  ultimately show ?thesis by blast
qed

theorem second_genz_device_refused_and_leaked_witness:
  "\<exists>p h'. genz_init_one (demo_heap 9) \<lparr>bus_classes = \<lparr>class_names = {}\<rparr>, bus_on = True, root_on = True, the_one = Some 77\<rparr>
      = Some (- EALREADY, h', \<lparr>bus_classes = \<lparr>class_names = {}\<rparr>, bus_on = True, root_on = True, the_one = Some 77\<rparr>) \<and>
    k_live h' = insert p {}"
  using second_genz_device_refused_and_leaked [of "demo_heap 9"
    "\<lparr>bus_classes = \<lparr>class_names = {}\<rparr>, bus_on = True, root_on = True, the_one = Some 77\<rparr>" 77]
  by (auto simp: demo_heap_def wf_heap_def)

end
