(* ===== verification/Mono_MSIX.thy ===== *)
theory Mono_MSIX
  imports Famez_MSIX
begin

text \<open>
  The monolithic driver \<open>kernel/famez/monolithic\<close>, the predecessor of the stacked modules:
  the data of its \<open>famez.h\<close> and \<open>famez_bridge.h\<close>, and its \<open>famez_MSI-X.c\<close> (sending, the
  interrupt handler, setting up and tearing down the vectors). Names that clash with the
  stacked driver carry the prefix \<open>m_\<close> or \<open>mono_\<close>.

  \<open>FAMEZ_LOCK\<close> is \<open>down_interruptible\<close> on a semaphore, which is kept as its count: a positive
  count is taken at once; otherwise the caller sleeps, and \<open>mono_env\<close> says how the sleep
  ends (0 and the state in which the semaphore was obtained, or an error and a state in
  which it was not). Slots are byte offsets from \<open>config->globals\<close>, as in
  \<open>Famez_Mailbox\<close>; the slots are those numbered 1 to \<open>nSlots - 1\<close>.
\<close>

section \<open>Data\<close>

record mono_globals =
  m_slotsize :: u64
  msg_offset :: u64
  nSlots :: u64

record mono_mailslot =
  m_nodename :: bytes
  m_msglen :: u64
  m_peer_id :: u64
  m_last_responder :: u64
  m_msg :: bytes

text \<open>\<open>offsetof(famez_mailslot_t, msg)\<close>: the name, three counters, one word of padding.\<close>

definition offsetof_msg :: u64 where
  "offsetof_msg = 32 + 3 * 8 + 8"

record mono_buffers =
  m_buffers_addr :: nat
  m_wbuf_addr :: nat
  m_wbuf :: bytes
  wbuf_lock :: nat

text \<open>\<open>miscdev2config_t\<close>: its address and that of the device name.\<close>

record miscdev2config =
  lookup_addr :: nat
  miscdev_name_addr :: nat
  miscdev_name :: bytes

record mono_config =
  m_nr_users :: int
  m_pdev :: "nat option"
  teardown_lookup :: "miscdev2config option"
  max_msglen :: u64
  m_my_id :: u16
  m_server_id :: u16
  m_regs :: bool
  m_globals :: bool
  m_my_slot :: "u64 option"
  msix_entries :: "(nat \<times> msix_entry list) option"
  legible_slot :: "u64 option"
  legible_slot_lock :: nat
  writer_support :: "mono_buffers option"

record mono_world =
  m_bar0 :: ivshmem_registers
  m_bar2_globals :: mono_globals
  m_bar2 :: "u64 \<Rightarrow> mono_mailslot"
  m_doorbells :: "u32 list"
  m_jiffies :: u64

record mono_env =
  m_HZ :: u64
  usleep_range :: "mono_world \<Rightarrow> mono_world"
  legible_sleep :: "mono_config \<Rightarrow> mono_world \<Rightarrow> int \<times> mono_config \<times> mono_world"
  wbuf_sleep :: "mono_config \<Rightarrow> mono_world \<Rightarrow> int \<times> mono_config \<times> mono_world"
  wait_legible :: "mono_config \<Rightarrow> mono_world \<Rightarrow> int \<times> mono_config \<times> mono_world"

definition m_deref_globals :: "mono_config \<Rightarrow> mono_world \<Rightarrow> mono_globals option" where
  "m_deref_globals c w = (if m_globals c then Some (m_bar2_globals w) else None)"

definition m_put_slot :: "u64 \<Rightarrow> mono_mailslot \<Rightarrow> mono_world \<Rightarrow> mono_world" where
  "m_put_slot p m w = w\<lparr>m_bar2 := (m_bar2 w)(p := m)\<rparr>"

definition m_ring :: "u32 \<Rightarrow> mono_world \<Rightarrow> mono_world" where
  "m_ring d w = w\<lparr>m_bar0 := (m_bar0 w)\<lparr>Doorbell := d\<rparr>, m_doorbells := m_doorbells w @ [d]\<rparr>"

section \<open>Sending\<close>

partial_function (option) m_ready_wait ::
  "mono_env \<Rightarrow> u64 \<Rightarrow> u64 \<Rightarrow> mono_world \<Rightarrow> mono_world option" where
  "m_ready_wait E p hw_timeout w =
     (if m_msglen (m_bar2 w p) \<noteq> 0 \<and> m_jiffies w < hw_timeout
      then m_ready_wait E p hw_timeout (usleep_range E w) else Some w)"

definition famez_sendmail ::
  "mono_env \<Rightarrow> u32 \<Rightarrow> bytes \<Rightarrow> u64 \<Rightarrow> mono_config \<Rightarrow> mono_world \<Rightarrow> (int \<times> mono_world) option" where
  "famez_sendmail E peer msg len c w = do {
     let hw_timeout = m_jiffies w + m_HZ E div 2;
     if peer < 1 \<or> peer > ucast (m_server_id c) then Some (- EBADSLT, w)
     else if len \<ge> max_msglen c then Some (- E2BIG, w)
     else if len = 0 then Some (- ENODATA, w)
     else do {
       p \<leftarrow> m_my_slot c;
       w1 \<leftarrow> m_ready_wait E p hw_timeout w;
       let m = m_bar2 w1 p;
       b1 \<leftarrow> put_byte (m_msg m) (unat len) NUL;
       b2 \<leftarrow> memcpy b1 msg (unat len);
       let w2 = m_put_slot p (m\<lparr>m_msglen := len, m_last_responder := ucast peer, m_msg := b2\<rparr>) w1;
       _ \<leftarrow> (if m_regs c then Some () else None);
       Some (to_int len, m_ring (ringer (ucast peer) (m_my_id c)) w2)
     }
   }"

section \<open>The interrupt handler\<close>

definition mono_calculate_mailslot :: "mono_config \<Rightarrow> u32 \<Rightarrow> mono_world \<Rightarrow> u64 option option" where
  "mono_calculate_mailslot c slotnum w = do {
     g \<leftarrow> m_deref_globals c w;
     if slotnum < 1 \<or> (ucast slotnum :: u64) \<ge> nSlots g then Some None
     else Some (Some (ucast slotnum * m_slotsize g))
   }"

text \<open>\<open>FAMEZ_LOCK\<close> and \<open>FAMEZ_UNLOCK\<close> on the lock of the legible slot.\<close>

definition legible_down :: "mono_env \<Rightarrow> mono_config \<Rightarrow> mono_world \<Rightarrow> int \<times> mono_config \<times> mono_world" where
  "legible_down E c w =
     (if 0 < legible_slot_lock c then (0, c\<lparr>legible_slot_lock := legible_slot_lock c - 1\<rparr>, w)
      else legible_sleep E c w)"

definition legible_up :: "mono_config \<Rightarrow> mono_config" where
  "legible_up c = c\<lparr>legible_slot_lock := Suc (legible_slot_lock c)\<rparr>"

definition mono_all_msix ::
  "mono_env \<Rightarrow> int \<Rightarrow> mono_config \<Rightarrow> mono_world \<Rightarrow> (irqreturn \<times> bool \<times> mono_config \<times> mono_world) option" where
  "mono_all_msix E irq c w = do {
     g \<leftarrow> m_deref_globals c w;
     (_, es) \<leftarrow> msix_entries c;
     slotnum \<leftarrow> match_vector irq es (unat (nSlots g)) 1;
     if slotnum \<ge> unat (nSlots g) then Some (IRQ_NONE, False, c, w)
     else do {
       let sender_id = entry (es ! slotnum);
       s \<leftarrow> mono_calculate_mailslot c (ucast sender_id) w;
       (case s of
          None \<Rightarrow> Some (IRQ_HANDLED, False, c, w)
        | Some p \<Rightarrow> do {
            let m = (m_bar2 w p)\<lparr>m_peer_id := ucast sender_id\<rparr>;
            let w1 = m_put_slot p m w;
            if m_msglen m = 4 \<and> STREQ_N (m_msg m) ''ping'' 4 then do {
              (_, w2) \<leftarrow> famez_sendmail E (ucast sender_id) ''pong'' 4 c w1;
              Some (IRQ_HANDLED, False, c, w2)
            }
            else case legible_down E c w1 of
              (bad_lock, c1, w2) \<Rightarrow>
                let c2 = c1\<lparr>legible_slot := Some p\<rparr> in
                Some (IRQ_HANDLED, True, if bad_lock = 0 then legible_up c2 else c2, w2)
          })
     }
   }"

section \<open>Setting up the vectors\<close>

text \<open>The label \<open>err_kfree_msix_entries\<close>.\<close>

definition mono_kfree_msix_entries ::
  "int \<Rightarrow> mono_config \<Rightarrow> kheap \<Rightarrow> irq_state \<Rightarrow> (int \<times> mono_config \<times> kheap \<times> irq_state) option" where
  "mono_kfree_msix_entries ret c h s = do {
     h1 \<leftarrow> kfree (map_option fst (msix_entries c)) h;
     Some (ret, c\<lparr>msix_entries := None\<rparr>, h1, s)
   }"

definition famez_MSIX_setup ::
  "irq_env \<Rightarrow> mono_config \<Rightarrow> mono_world \<Rightarrow> kheap \<Rightarrow> irq_state \<Rightarrow>
     (int \<times> mono_config \<times> kheap \<times> irq_state) option" where
  "famez_MSIX_setup E c w h s =
     (if pci_msix_vec_count E < 0 then Some (pci_msix_vec_count E, c, h, s)
      else if pci_msix_vec_count E \<noteq> 64 then Some (- EINVAL, c, h, s)
      else do {
        g \<leftarrow> m_deref_globals c w;
        if nSlots g > to_u64 (pci_msix_vec_count E) then Some (- ENOSPC, c, h, s)
        else do {
          let nvectors = unat (nSlots g);
          (tab, es0) \<leftarrow> msix_entries c;
          _ \<leftarrow> (if nvectors \<le> length es0 then Some () else None);
          (ret, es, s1) \<leftarrow> attach_vectors E nvectors s;
          let c1 = c\<lparr>msix_entries := Some (tab, es @ drop nvectors es0)\<rparr>;
          if ret \<noteq> 0 then mono_kfree_msix_entries ret c1 h s1
          else Some (0, c1, h, s1)
        }
      })"

definition famez_MSIX_teardown ::
  "mono_config \<Rightarrow> mono_world \<Rightarrow> kheap \<Rightarrow> irq_state \<Rightarrow> (mono_config \<times> kheap \<times> irq_state) option" where
  "famez_MSIX_teardown c w h s =
     (case msix_entries c of
        None \<Rightarrow> Some (c, h, s)
      | Some (tab, es) \<Rightarrow> do {
          g \<leftarrow> m_deref_globals c w;
          let n = unat (nSlots g);
          s1 \<leftarrow> (if n \<le> length es then release_all free_irq (map vector (take n es)) s else None);
          s2 \<leftarrow> pci_free_irq_vectors s1;
          h1 \<leftarrow> kfree (Some tab) h;
          Some (c\<lparr>msix_entries := None\<rparr>, h1, s2)
        })"

section \<open>Well-formed configurations\<close>

text \<open>
  The mailbox as the server of that driver laid it out: at least one client slot, and as
  many slots as there can be vectors.
\<close>

definition mono_geometry :: "mono_globals \<Rightarrow> bool" where
  "mono_geometry g \<longleftrightarrow> msg_offset g = offsetof_msg \<and> offsetof_msg < m_slotsize g \<and> unat (m_slotsize g) < 2 ^ 31 \<and>
     2 < unat (nSlots g) \<and> unat (nSlots g) < 2 ^ 16"

definition m_slot_off :: "mono_globals \<Rightarrow> nat \<Rightarrow> u64" where
  "m_slot_off g n = of_nat n * m_slotsize g"

definition mono_inv :: "mono_config \<Rightarrow> mono_world \<Rightarrow> bool" where
  "mono_inv c w \<longleftrightarrow>
     m_regs c \<and> m_globals c \<and> mono_geometry (m_bar2_globals w) \<and>
     0 < unat (m_my_id c) \<and> unat (m_my_id c) < unat (nSlots (m_bar2_globals w)) \<and>
     unat (m_server_id c) = unat (nSlots (m_bar2_globals w)) - 1 \<and>
     m_my_slot c = Some (m_slot_off (m_bar2_globals w) (unat (m_my_id c))) \<and>
     max_msglen c = m_slotsize (m_bar2_globals w) - offsetof_msg \<and>
     (\<forall>p. length (m_msg (m_bar2 w p)) = unat (max_msglen c))"

text \<open>Documented behaviour of a sleep, as for the stacked driver.\<close>

definition m_same_layout :: "mono_world \<Rightarrow> mono_world \<Rightarrow> bool" where
  "m_same_layout w w' \<longleftrightarrow> m_bar2_globals w' = m_bar2_globals w \<and> m_doorbells w' = m_doorbells w \<and>
     (\<forall>p. length (m_msg (m_bar2 w' p)) = length (m_msg (m_bar2 w p)))"

definition sleep_keeps_layout :: "mono_env \<Rightarrow> bool" where
  "sleep_keeps_layout E \<longleftrightarrow> (\<forall>w. m_same_layout w (usleep_range E w))"

definition m_clock_runs :: "mono_env \<Rightarrow> bool" where
  "m_clock_runs E \<longleftrightarrow> (\<forall>w. unat (m_jiffies w) < 2 ^ 62 \<longrightarrow>
     unat (m_jiffies w) < unat (m_jiffies (usleep_range E w)) \<and>
     unat (m_jiffies (usleep_range E w)) \<le> unat (m_jiffies w) + 2 ^ 32)"

definition m_clock_room :: "mono_env \<Rightarrow> nat \<Rightarrow> mono_world \<Rightarrow> bool" where
  "m_clock_room E n w \<longleftrightarrow> unat (m_jiffies w) + n * (unat (m_HZ E) + 2 ^ 32) < 2 ^ 62"

lemma m_world_simps [simp]:
  "m_bar2 (m_put_slot p m w) q = (if q = p then m else m_bar2 w q)"
  "m_bar2_globals (m_put_slot p m w) = m_bar2_globals w" "m_doorbells (m_put_slot p m w) = m_doorbells w"
  "m_jiffies (m_put_slot p m w) = m_jiffies w" "m_bar2 (m_ring d w) = m_bar2 w"
  "m_bar2_globals (m_ring d w) = m_bar2_globals w" "m_doorbells (m_ring d w) = m_doorbells w @ [d]"
  "m_jiffies (m_ring d w) = m_jiffies w"
  by (simp_all add: m_put_slot_def m_ring_def)

lemma m_deref_globals_mapped [simp]: "m_globals c \<Longrightarrow> m_deref_globals c w = Some (m_bar2_globals w)"
  by (simp add: m_deref_globals_def)

lemma m_same_layout_refl [simp]: "m_same_layout w w"
  by (simp add: m_same_layout_def)

lemma m_same_layout_trans: "m_same_layout u v \<Longrightarrow> m_same_layout v w \<Longrightarrow> m_same_layout u w"
  by (simp add: m_same_layout_def)

lemma mono_inv_layout: "mono_inv c w \<Longrightarrow> m_same_layout w w' \<Longrightarrow> mono_inv c w'"
  by (simp add: mono_inv_def m_same_layout_def)

lemma mono_inv_put_slot:
  "mono_inv c w \<Longrightarrow> length (m_msg m) = length (m_msg (m_bar2 w p)) \<Longrightarrow> mono_inv c (m_put_slot p m w)"
  by (simp add: mono_inv_def)

lemma mono_inv_fields [simp]:
  "mono_inv (c\<lparr>legible_slot := x\<rparr>) w = mono_inv c w"
  "mono_inv (c\<lparr>legible_slot_lock := n\<rparr>) w = mono_inv c w"
  "mono_inv (c\<lparr>writer_support := b\<rparr>) w = mono_inv c w"
  "mono_inv (c\<lparr>m_nr_users := u\<rparr>) w = mono_inv c w"
  "mono_inv (c\<lparr>msix_entries := t\<rparr>) w = mono_inv c w"
  by (simp_all add: mono_inv_def)

lemma max_msglen_bound:
  assumes "mono_inv c w"
  shows "unat (max_msglen c) < 2 ^ 31"
proof -
  have "offsetof_msg \<le> m_slotsize (m_bar2_globals w)" using assms
    by (simp add: mono_inv_def mono_geometry_def order.strict_implies_order)
  then show ?thesis using assms by (simp add: mono_inv_def mono_geometry_def unat_sub less_imp_diff_less)
qed

section \<open>What famez_sendmail does\<close>

text \<open>With a running clock the loop ends, with an empty slot or after the timeout.\<close>

lemma m_ready_wait_returns:
  assumes clock: "m_clock_runs E" "sleep_keeps_layout E" and to: "unat to < 2 ^ 62"
  shows "unat (m_jiffies w) \<le> unat to + 2 ^ 32 \<Longrightarrow> \<exists>w'. m_ready_wait E p to w = Some w' \<and>
    unat (m_jiffies w') \<le> unat to + 2 ^ 32 \<and> m_same_layout w w' \<and>
    (m_msglen (m_bar2 w' p) = 0 \<or> to \<le> m_jiffies w')"
proof (induction "unat to - unat (m_jiffies w)" arbitrary: w rule: less_induct)
  case less
  show ?case
  proof (cases "m_msglen (m_bar2 w p) \<noteq> 0 \<and> m_jiffies w < to")
    case True
    let ?w1 = "usleep_range E w"
    have lt: "unat (m_jiffies w) < unat to" using True by (simp add: word_less_nat_alt)
    with to have "unat (m_jiffies w) < 2 ^ 62" by simp
    with clock(1) have adv: "unat (m_jiffies w) < unat (m_jiffies ?w1)" "unat (m_jiffies ?w1) \<le> unat (m_jiffies w) + 2 ^ 32"
      by (auto simp: m_clock_runs_def)
    with lt have "unat to - unat (m_jiffies ?w1) < unat to - unat (m_jiffies w)"
      and "unat (m_jiffies ?w1) \<le> unat to + 2 ^ 32" by simp_all
    from less.hyps [OF this] obtain w' where "m_ready_wait E p to ?w1 = Some w'" "m_same_layout ?w1 w'"
      "unat (m_jiffies w') \<le> unat to + 2 ^ 32" "m_msglen (m_bar2 w' p) = 0 \<or> to \<le> m_jiffies w'" by blast
    moreover have "m_same_layout w ?w1" using clock(2) by (simp add: sleep_keeps_layout_def)
    ultimately show ?thesis using True m_same_layout_trans by (subst m_ready_wait.simps) auto
  next
    case False
    with less.prems show ?thesis by (subst m_ready_wait.simps) auto
  qed
qed

text \<open>The arguments every check lets through, and the mailslot with the message.\<close>

definition mail_ok :: "u32 \<Rightarrow> u64 \<Rightarrow> mono_config \<Rightarrow> bool" where
  "mail_ok peer len c \<longleftrightarrow> 0 < unat peer \<and> unat peer \<le> unat (m_server_id c) \<and>
     0 < unat len \<and> unat len < unat (max_msglen c)"

definition m_posted_slot :: "u32 \<Rightarrow> bytes \<Rightarrow> u64 \<Rightarrow> mono_mailslot \<Rightarrow> mono_mailslot" where
  "m_posted_slot peer tx len m =
     m\<lparr>m_msglen := len, m_last_responder := ucast peer, m_msg := take (unat len) tx @ NUL # drop (Suc (unat len)) (m_msg m)\<rparr>"

definition m_slot_mail :: "mono_mailslot \<Rightarrow> (nat \<times> bytes) option" where
  "m_slot_mail m = (if m_msglen m = 0 then None else Some (unat (m_last_responder m), take (unat (m_msglen m)) (m_msg m)))"

definition m_mail :: "mono_world \<Rightarrow> nat \<Rightarrow> (nat \<times> bytes) option" where
  "m_mail w i = m_slot_mail (m_bar2 w (m_slot_off (m_bar2_globals w) i))"

definition m_bells :: "mono_world \<Rightarrow> (nat \<times> nat) list" where
  "m_bells w = map (\<lambda>d. (unat (ringer_peer d), unat (ringer_vector d))) (m_doorbells w)"

lemma unat_ucast_u16_u32: "unat (ucast (x :: u16) :: u32) = unat x"
  using unsigned_less [of x, where ?'a = nat] by (simp add: unsigned_ucast_eq take_bit_nat_eq_self)

lemma unat_ucast_u32_u16: "unat (x :: u32) \<le> unat (y :: u16) \<Longrightarrow> unat (ucast x :: u16) = unat x"
  using unsigned_less [of y, where ?'a = nat] by (simp add: unsigned_ucast_eq take_bit_nat_eq_self)

lemma sendmail_rejects:
  assumes "\<not> mail_ok peer len c"
  shows "\<exists>e \<in> {EBADSLT, E2BIG, ENODATA}. famez_sendmail E peer tx len c w = Some (- e, w)"
  using assms
  by (auto simp: famez_sendmail_def mail_ok_def word_less_nat_alt word_le_nat_alt unat_ucast_u16_u32 unat_eq_0 Let_def)

lemma m_ready_wait_layout:
  assumes E: "sleep_keeps_layout E" and run: "m_ready_wait E p to w = Some w'"
  shows "m_same_layout w w'"
proof (rule m_ready_wait.raw_induct [where P = "\<lambda>E' p to w w'. E' = E \<longrightarrow> m_same_layout w w'",
      OF _ run, rule_format], goal_cases)
  case (1 f E' p to w w')
  then have "f E' p to (usleep_range E w) = Some w' \<Longrightarrow> m_same_layout (usleep_range E w) w'" by simp
  moreover have "m_same_layout w (usleep_range E w)" using E by (simp add: sleep_keeps_layout_def)
  ultimately show ?case using 1 by (auto split: if_splits intro: m_same_layout_trans)
qed simp

text \<open>
  When the loop ends: at once if the slot is empty; otherwise when the slot has become empty
  or the time is over; and not later than the timeout and one sleep.
\<close>

definition sleeps_within :: "mono_env \<Rightarrow> nat \<Rightarrow> bool" where
  "sleeps_within E D \<longleftrightarrow> (\<forall>w. unat (m_jiffies (usleep_range E w)) \<le> unat (m_jiffies w) + D)"

lemma m_ready_wait_ends:
  assumes run: "m_ready_wait E p to w = Some w'"
  shows "m_msglen (m_bar2 w' p) = 0 \<or> to \<le> m_jiffies w'"
  by (rule m_ready_wait.raw_induct [where P = "\<lambda>E p to w w'. m_msglen (m_bar2 w' p) = 0 \<or> to \<le> m_jiffies w'", OF _ run])
    (auto simp: not_less split: if_splits)

lemma m_ready_wait_at_once: "m_msglen (m_bar2 w p) = 0 \<Longrightarrow> m_ready_wait E p to w = Some w"
  by (subst m_ready_wait.simps) simp

lemma m_ready_wait_time:
  assumes run: "m_ready_wait E p to w = Some w'" and D: "sleeps_within E D" and w: "unat (m_jiffies w) \<le> unat to + D"
  shows "unat (m_jiffies w') \<le> unat to + D"
proof (rule m_ready_wait.raw_induct [where P = "\<lambda>E' p to w w'. E' = E \<longrightarrow> unat (m_jiffies w) \<le> unat to + D \<longrightarrow>
      unat (m_jiffies w') \<le> unat to + D", OF _ run, rule_format], goal_cases)
  case (1 f E' p to w w')
  have "unat (m_jiffies (usleep_range E w)) \<le> unat to + D" if "m_jiffies w < to"
    using D that by (auto simp: sleeps_within_def word_less_nat_alt intro: order_trans)
  then show ?case using 1 by (auto split: if_splits)
qed (use w in simp_all)

text \<open>What posting a message does.\<close>

definition m_sent :: "mono_config \<Rightarrow> u32 \<Rightarrow> bytes \<Rightarrow> u64 \<Rightarrow> mono_world \<Rightarrow> mono_world \<Rightarrow> bool" where
  "m_sent c peer tx len w w' \<longleftrightarrow> mono_inv c w' \<and> m_bar2_globals w' = m_bar2_globals w \<and>
     m_mail w' (unat (m_my_id c)) = Some (unat peer, take (unat len) tx) \<and>
     (\<exists>r. m_msg (m_bar2 w' (m_slot_off (m_bar2_globals w) (unat (m_my_id c)))) = take (unat len) tx @ NUL # r) \<and>
     m_msglen (m_bar2 w' (m_slot_off (m_bar2_globals w) (unat (m_my_id c)))) = len \<and>
     m_bells w' = m_bells w @ [(unat peer, unat (m_my_id c))]"

text \<open>A message that passes the checks is always posted, over an older one if need be.\<close>

lemma sendmail_run:
  assumes inv: "mono_inv c w" and lay: "m_same_layout w w1" and len: "unat len \<le> length tx" and ok: "mail_ok peer len c"
    and p: "p = m_slot_off (m_bar2_globals w) (unat (m_my_id c))"
    and wait: "m_ready_wait E p (m_jiffies w + m_HZ E div 2) w = Some w1"
    and w2: "w2 = m_ring (ringer (ucast peer) (m_my_id c)) (m_put_slot p (m_posted_slot peer tx len (m_bar2 w1 p)) w1)"
  shows "famez_sendmail E peer tx len c w = Some (int (unat len), w2)" and "m_sent c peer tx len w w2"
proof -
  have inv1: "mono_inv c w1" using inv lay by (rule mono_inv_layout)
  then have sz: "length (m_msg (m_bar2 w1 p)) = unat (max_msglen c)" by (simp add: mono_inv_def)
  have "to_int len = int (unat len)"
    using ok max_msglen_bound [OF inv] by (intro to_int_small) (simp add: mail_ok_def)
  moreover have "\<not> (peer < 1 \<or> peer > ucast (m_server_id c))" "\<not> len \<ge> max_msglen c" "len \<noteq> 0" "unat len < unat (max_msglen c)"
    using ok by (auto simp: mail_ok_def word_less_nat_alt word_le_nat_alt unat_ucast_u16_u32)
  moreover have "m_my_slot c = Some p" "m_regs c" using inv p by (simp_all add: mono_inv_def)
  ultimately show "famez_sendmail E peer tx len c w = Some (int (unat len), w2)" using wait len sz
    unfolding famez_sendmail_def Let_def w2 by (simp add: drop_list_update_self m_posted_slot_def del: not_le not_less)
  let ?m = "m_posted_slot peer tx len (m_bar2 w1 p)"
  have "length (m_msg ?m) = unat (max_msglen c)" using ok len sz by (simp add: m_posted_slot_def mail_ok_def)
  then have "mono_inv c w2" using inv1 by (simp add: w2 mono_inv_def)
  moreover have g: "m_bar2_globals w1 = m_bar2_globals w" "m_doorbells w1 = m_doorbells w" using lay by (simp_all add: m_same_layout_def)
  moreover have "m_slot_mail ?m = Some (unat peer, take (unat len) tx)"
    using ok len by (auto simp: m_slot_mail_def m_posted_slot_def mail_ok_def)
  moreover have "unat (ucast peer :: u16) = unat peer"
    using ok by (intro unat_ucast_u32_u16 [of _ "m_server_id c"]) (simp add: mail_ok_def)
  ultimately show "m_sent c peer tx len w w2"
    unfolding m_sent_def p [symmetric] by (simp add: w2 m_mail_def m_bells_def ringer_roundtrip p) (simp add: m_posted_slot_def)
qed

lemma sendmail_waited:
  assumes "mono_inv c w" and "mail_ok peer len c" and run: "famez_sendmail E peer tx len c w = Some (r, w')"
  obtains w1 where "m_ready_wait E (m_slot_off (m_bar2_globals w) (unat (m_my_id c))) (m_jiffies w + m_HZ E div 2) w = Some w1"
proof -
  have "m_my_slot c = Some (m_slot_off (m_bar2_globals w) (unat (m_my_id c)))" using assms(1) by (simp add: mono_inv_def)
  then show thesis using that run assms(2)
    by (auto simp: famez_sendmail_def Let_def mail_ok_def word_less_nat_alt word_le_nat_alt unat_ucast_u16_u32
        split: if_splits bind_splits)
qed

lemma sendmail_sent:
  assumes "mono_inv c w" and E: "sleep_keeps_layout E" and "unat len \<le> length tx" and "mail_ok peer len c"
    and run: "famez_sendmail E peer tx len c w = Some (r, w')"
  shows "r = int (unat len) \<and> m_sent c peer tx len w w'"
proof -
  let ?p = "m_slot_off (m_bar2_globals w) (unat (m_my_id c))"
  obtain w1 where w1: "m_ready_wait E ?p (m_jiffies w + m_HZ E div 2) w = Some w1"
    using sendmail_waited [OF assms(1,4) run] .
  from sendmail_run [OF assms(1) m_ready_wait_layout [OF E w1] assms(3,4) refl w1 refl] run show ?thesis by simp
qed

lemma sendmail_returns:
  assumes inv: "mono_inv c w" and E: "sleep_keeps_layout E" "m_clock_runs E" and room: "m_clock_room E (Suc n) w"
    and len: "unat len \<le> length tx"
  shows "\<exists>r w'. famez_sendmail E peer tx len c w = Some (r, w') \<and> m_clock_room E n w'"
proof (cases "mail_ok peer len c")
  case True
  let ?to = "m_jiffies w + m_HZ E div 2" and ?p = "m_slot_off (m_bar2_globals w) (unat (m_my_id c))"
  have "unat (m_HZ E) + 2 ^ 32 \<le> Suc n * (unat (m_HZ E) + 2 ^ 32)" by simp
  with room have r: "unat (m_jiffies w) + unat (m_HZ E) + 2 ^ 32 < 2 ^ 62" unfolding m_clock_room_def by linarith
  have to: "unat ?to = unat (m_jiffies w) + unat (m_HZ E) div 2"
    using r by (simp add: unat_word_ariths unat_div)
  then have "unat ?to < 2 ^ 62" "unat (m_jiffies w) \<le> unat ?to + 2 ^ 32" using r by simp_all
  from m_ready_wait_returns [OF E(2,1) this, of ?p] obtain w1 where w1: "m_ready_wait E ?p ?to w = Some w1"
    "unat (m_jiffies w1) \<le> unat ?to + 2 ^ 32" "m_same_layout w w1" by blast
  have "m_clock_room E n w1"
    using room w1(2) unfolding to m_clock_room_def by (simp add: algebra_simps)
  then show ?thesis using sendmail_run(1) [OF inv w1(3) len True refl w1(1) refl] by (simp add: m_clock_room_def)
next
  case False
  from sendmail_rejects [OF this] obtain e where "famez_sendmail E peer tx len c w = Some (- e, w)" by blast
  then show ?thesis using room by (simp add: m_clock_room_def)
qed

text \<open>How long a posted message has waited for the slot.\<close>

definition waited_for_slot :: "mono_env \<Rightarrow> mono_config \<Rightarrow> mono_world \<Rightarrow> mono_world \<Rightarrow> bool" where
  "waited_for_slot E c w w' \<longleftrightarrow>
     (let p = m_slot_off (m_bar2_globals w) (unat (m_my_id c)) in
      (m_msglen (m_bar2 w p) = 0 \<longrightarrow> m_jiffies w' = m_jiffies w) \<and>
      (\<exists>w1. m_same_layout w w1 \<and> m_jiffies w' = m_jiffies w1 \<and> (\<forall>q. q \<noteq> p \<longrightarrow> m_bar2 w' q = m_bar2 w1 q) \<and>
        (m_msglen (m_bar2 w1 p) = 0 \<or> unat (m_jiffies w) + unat (m_HZ E) div 2 \<le> unat (m_jiffies w1))) \<and>
      (\<forall>D. sleeps_within E D \<longrightarrow> unat (m_jiffies w') \<le> unat (m_jiffies w) + unat (m_HZ E) div 2 + D))"

lemma sendmail_timing:
  assumes inv: "mono_inv c w" and E: "sleep_keeps_layout E" and len: "unat len \<le> length tx" and ok: "mail_ok peer len c"
    and run: "famez_sendmail E peer tx len c w = Some (r, w')" and room: "m_clock_room E 1 w"
  shows "waited_for_slot E c w w'"
proof -
  let ?to = "m_jiffies w + m_HZ E div 2"
  define p where "p = m_slot_off (m_bar2_globals w) (unat (m_my_id c))"
  have to: "unat ?to = unat (m_jiffies w) + unat (m_HZ E) div 2"
    using room by (simp add: m_clock_room_def unat_word_ariths unat_div)
  obtain w1 where w1: "m_ready_wait E p ?to w = Some w1" using sendmail_waited [OF inv ok run] unfolding p_def .
  from sendmail_run(1) [OF inv m_ready_wait_layout [OF E w1] len ok p_def w1 refl] run
  have j: "m_jiffies w' = m_jiffies w1" "\<forall>q. q \<noteq> p \<longrightarrow> m_bar2 w' q = m_bar2 w1 q" by auto
  have "m_msglen (m_bar2 w p) = 0 \<longrightarrow> w1 = w" using m_ready_wait_at_once [of w p E ?to] w1 by auto
  moreover have "m_msglen (m_bar2 w1 p) = 0 \<or> unat (m_jiffies w) + unat (m_HZ E) div 2 \<le> unat (m_jiffies w1)"
    using m_ready_wait_ends [OF w1] to by (simp add: word_le_nat_alt)
  moreover have "unat (m_jiffies w1) \<le> unat (m_jiffies w) + unat (m_HZ E) div 2 + D" if "sleeps_within E D" for D
    using m_ready_wait_time [OF w1 that] to by simp
  ultimately show ?thesis
    unfolding waited_for_slot_def Let_def p_def [symmetric] using j m_ready_wait_layout [OF E w1] by auto
qed

lemma sendmail_outcome:
  assumes "mono_inv c w" and "sleep_keeps_layout E" and "unat len \<le> length tx"
    and "famez_sendmail E peer tx len c w = Some (r, w')"
  shows "if mail_ok peer len c then 0 < r \<and> r = int (unat len) \<and> m_sent c peer tx len w w'
    else - 4095 \<le> r \<and> r < 0 \<and> w' = w"
proof (cases "mail_ok peer len c")
  case True
  then have "0 < int (unat len)" unfolding of_nat_0_less_iff by (simp add: mail_ok_def)
  then show ?thesis using sendmail_sent [OF assms(1-3) True assms(4)] True by simp
next
  case False
  then show ?thesis using sendmail_rejects [OF False, of E tx w] assms(4) by auto
qed

text \<open>The contract of the send operation of the stacked driver holds here too.\<close>

interpretation sendmail: mail_sender "\<lambda>d tx len. famez_sendmail E d tx len c"
  "\<lambda>w. mono_inv c w \<and> sleep_keeps_layout E \<and> m_clock_runs E" "m_clock_room E" unat "unat (m_my_id c)"
  "\<lambda>w. m_mail w (unat (m_my_id c))" m_bells
proof (unfold_locales, goal_cases)
  case (1 w n m k d)
  then show ?case using sendmail_returns by blast
next
  case (2 w n m d r w')
  then show ?case using sendmail_outcome [of c w E n m d r w'] by (auto simp: m_sent_def split: if_splits)
next
  case (3 w n m d r w')
  then show ?case using sendmail_outcome [of c w E n m d r w'] by (auto simp: m_sent_def split: if_splits)
next
  case (4 w n m d r w')
  then show ?case using sendmail_outcome [of c w E n m d r w'] by (auto split: if_splits)
qed


section \<open>What the handler does\<close>

definition mono_table_ok :: "mono_config \<Rightarrow> mono_world \<Rightarrow> bool" where
  "mono_table_ok c w \<longleftrightarrow>
     (\<exists>tab es. msix_entries c = Some (tab, es) \<and> length es = unat (nSlots (m_bar2_globals w)) \<and>
        map entry es = map of_nat [0..<length es] \<and> distinct (map vector es))"

definition m_tagged :: "u64 \<Rightarrow> nat \<Rightarrow> mono_world \<Rightarrow> mono_world" where
  "m_tagged p s w = m_put_slot p ((m_bar2 w p)\<lparr>m_peer_id := of_nat s\<rparr>) w"

lemma m_tagged_simps [simp]:
  "m_bar2_globals (m_tagged p s w) = m_bar2_globals w" "m_doorbells (m_tagged p s w) = m_doorbells w"
  "m_jiffies (m_tagged p s w) = m_jiffies w" "m_msg (m_bar2 (m_tagged p s w) q) = m_msg (m_bar2 w q)"
  "m_msglen (m_bar2 (m_tagged p s w) q) = m_msglen (m_bar2 w q)"
  "m_peer_id (m_bar2 (m_tagged p s w) p) = of_nat s" "m_mail (m_tagged p s w) i = m_mail w i"
  by (simp_all add: m_tagged_def m_mail_def m_slot_mail_def)

lemma m_tagged_inv [simp]: "mono_inv c (m_tagged p s w) = mono_inv c w"
  by (auto simp: mono_inv_def m_tagged_def)

lemma mono_calculate_mailslot_entry:
  assumes "mono_geometry (m_bar2_globals w)" and "m_globals c" and "0 < s" and "s < unat (nSlots (m_bar2_globals w))"
  shows "mono_calculate_mailslot c (ucast (of_nat s :: u16)) w = Some (Some (m_slot_off (m_bar2_globals w) s))"
proof -
  have s: "s < 2 ^ 16" using assms(1,4) by (simp add: mono_geometry_def)
  let ?n = "ucast (of_nat s :: u16) :: u32"
  note u = unat_entry_u32 [OF s]
  have "\<not> ?n < 1" using u assms(3) by (simp add: word_less_nat_alt del: unsigned_of_nat)
  moreover have "\<not> (ucast ?n :: u64) \<ge> nSlots (m_bar2_globals w)"
    using u assms(4) by (simp add: word_le_nat_alt del: unsigned_of_nat)
  moreover have "(ucast ?n :: u64) = of_nat s" using u by (simp add: word_unat_eq_iff unat_of_nat_small s del: unsigned_of_nat)
    (use s in \<open>simp add: unat_of_nat_small\<close>)
  ultimately show ?thesis using assms(2) unfolding mono_calculate_mailslot_def m_slot_off_def
    by (simp del: unsigned_of_nat)
qed

text \<open>The handler for the interrupt of sender \<open>s\<close>, up to the kind of message.\<close>

lemma mono_all_msix_from:
  assumes inv: "mono_inv c w" and tab: "mono_table_ok c w"
    and irq: "msix_entries c = Some (tab, es)" "word_of_int irq = vector (es ! s)"
    and s: "0 < s" "s < unat (nSlots (m_bar2_globals w))"
    and p: "p = m_slot_off (m_bar2_globals w) s"
  shows "mono_all_msix E irq c w =
    (if m_msglen (m_bar2 w p) = 4 \<and> STREQ_N (m_msg (m_bar2 w p)) ''ping'' 4 then do {
       (_, w2) \<leftarrow> famez_sendmail E (of_nat s) ''pong'' 4 c (m_tagged p s w);
       Some (IRQ_HANDLED, False, c, w2) }
     else case legible_down E c (m_tagged p s w) of
       (bad_lock, c1, w2) \<Rightarrow>
         Some (IRQ_HANDLED, True, if bad_lock = 0 then legible_up (c1\<lparr>legible_slot := Some p\<rparr>) else c1\<lparr>legible_slot := Some p\<rparr>, w2))"
proof -
  have t: "length es = unat (nSlots (m_bar2_globals w))" "map entry es = map of_nat [0..<length es]"
    "distinct (map vector es)" using tab irq(1) by (auto simp: mono_table_ok_def)
  have g: "mono_geometry (m_bar2_globals w)" "m_globals c" using inv by (auto simp: mono_inv_def)
  have s16: "s < 2 ^ 16" using g(1) s(2) by (simp add: mono_geometry_def)
  have m: "match_vector irq es (unat (nSlots (m_bar2_globals w))) (Suc 0) = Some s"
    using s by (intro match_vector_finds [OF t(3) s(2) _ _ irq(2)]) (simp_all add: t)
  have e: "entry (es ! s) = of_nat s" using table_entry [OF t(2)] s(2) t(1) by simp
  have u: "(ucast (of_nat s :: u16) :: u32) = of_nat s"
    using unat_entry_u32 [OF s16] s16 by (simp add: word_unat_eq_iff unat_of_nat del: unsigned_of_nat)
  have u64: "(ucast (of_nat s :: u16) :: u64) = of_nat s"
    using s16 by (simp add: word_unat_eq_iff unat_of_nat unsigned_ucast_eq take_bit_nat_eq_self)
  note c = mono_calculate_mailslot_entry [OF g s]
  show ?thesis unfolding mono_all_msix_def Let_def m_tagged_def using irq(1) g(2) s
    by (simp add: m e c u64 p [symmetric] del: unsigned_of_nat) (simp add: u cong: if_cong)
qed

lemma mono_all_msix_message:
  assumes "mono_inv c w" and "mono_table_ok c w" and "msix_entries c = Some (tab, es)" and "word_of_int irq = vector (es ! s)"
    and "0 < s" and "s < unat (nSlots (m_bar2_globals w))" and p: "p = m_slot_off (m_bar2_globals w) s"
    and "\<not> (m_msglen (m_bar2 w p) = 4 \<and> STREQ_N (m_msg (m_bar2 w p)) ''ping'' 4)" and "0 < legible_slot_lock c"
  shows "mono_all_msix E irq c w = Some (IRQ_HANDLED, True, c\<lparr>legible_slot := Some p\<rparr>, m_tagged p s w)"
proof -
  have "c\<lparr>legible_slot_lock := legible_slot_lock c\<rparr> = c" by simp
  then show ?thesis unfolding mono_all_msix_from [OF assms(1-7)] using assms(8,9)
    by (auto simp: legible_down_def legible_up_def)
qed

section \<open>Setting up and tearing down\<close>

text \<open>The table \<open>create_config\<close> leaves behind, before the vectors are set up.\<close>

definition mono_irqs_off :: "mono_config \<Rightarrow> mono_world \<Rightarrow> kheap \<Rightarrow> irq_state \<Rightarrow> bool" where
  "mono_irqs_off c w h s \<longleftrightarrow> attached s = {} \<and> \<not> vectors_on s \<and>
     (\<exists>tab es. msix_entries c = Some (tab, es) \<and> length es = unat (nSlots (m_bar2_globals w)) \<and> tab \<in> k_live h)"

definition mono_irqs_on :: "mono_config \<Rightarrow> mono_world \<Rightarrow> kheap \<Rightarrow> irq_state \<Rightarrow> bool" where
  "mono_irqs_on c w h s \<longleftrightarrow> mono_table_ok c w \<and> vectors_on s \<and>
     (\<exists>tab es. msix_entries c = Some (tab, es) \<and> attached s = set (map vector es) \<and> tab \<in> k_live h)"

text \<open>
  All interrupts are attached or none; every failure after the checks also frees the
  table, while the failures of the checks leave it to the caller.
\<close>

lemma MSIX_setup_result:
  assumes E: "irq_env_ok E" and off: "mono_irqs_off c w h s" and gl: "m_globals c"
    and tab: "msix_entries c = Some (tab, es0)"
  shows "\<exists>ret c' h' s'. famez_MSIX_setup E c w h s = Some (ret, c', h', s') \<and>
    (if ret = 0 then mono_irqs_on c' w h' s' \<and> h' = h \<and> (\<exists>es. c' = c\<lparr>msix_entries := Some (tab, es)\<rparr>)
     else ret < 0 \<and> s' = s \<and> (c' = c \<and> h' = h \<or>
       c' = c\<lparr>msix_entries := None\<rparr> \<and> h' = h\<lparr>k_live := k_live h - {tab}\<rparr>))"
proof (cases "pci_msix_vec_count E \<noteq> 64 \<or> to_u64 (pci_msix_vec_count E) < nSlots (m_bar2_globals w)")
  case True
  then show ?thesis using gl by (auto simp: famez_MSIX_setup_def)
next
  case False
  have t: "length es0 = unat (nSlots (m_bar2_globals w))" "tab \<in> k_live h" "attached s = {}" "\<not> vectors_on s"
    using off tab by (auto simp: mono_irqs_off_def)
  obtain ret es s1 where at: "attach_vectors E (unat (nSlots (m_bar2_globals w))) s = Some (ret, es, s1)"
    and res: "if ret = 0 then length es = unat (nSlots (m_bar2_globals w)) \<and> map entry es = map of_nat [0..<length es] \<and>
      distinct (map vector es) \<and> attached s1 = set (map vector es) \<and> vectors_on s1 else ret < 0 \<and> s1 = s"
    using attach_vectors_result [OF E t(3,4)] by meson
  show ?thesis using False gl tab t at res
    by (cases "ret = 0") (auto simp: famez_MSIX_setup_def mono_kfree_msix_entries_def mono_irqs_on_def mono_table_ok_def)
qed

lemma MSIX_teardown_result:
  assumes on: "mono_irqs_on c w h s" and gl: "m_globals c" and tab: "msix_entries c = Some (tab, es)"
  shows "famez_MSIX_teardown c w h s =
    Some (c\<lparr>msix_entries := None\<rparr>, h\<lparr>k_live := k_live h - {tab}\<rparr>, \<lparr>attached = {}, vectors_on = False\<rparr>)"
proof -
  have t: "attached s = set (map vector es)" "tab \<in> k_live h" "distinct (map vector es)"
    "length es = unat (nSlots (m_bar2_globals w))" using on tab by (auto simp: mono_irqs_on_def mono_table_ok_def)
  have "release_all free_irq (map vector es) s = Some (s\<lparr>attached := {}\<rparr>)"
    using irqs.release_all_state [OF t(3), of s] t(1) by simp
  then show ?thesis using t gl tab by (simp add: famez_MSIX_teardown_def pci_free_irq_vectors_def)
qed

section \<open>The send operation for its callers\<close>

definition demo_mglobals :: mono_globals where
  "demo_mglobals = \<lparr>m_slotsize = 512, msg_offset = 64, nSlots = 6\<rparr>"

definition demo_mslot :: mono_mailslot where
  "demo_mslot = \<lparr>m_nodename = replicate 32 NUL, m_msglen = 0, m_peer_id = 0, m_last_responder = 0, m_msg = replicate 448 NUL\<rparr>"

definition demo_mworld :: mono_world where
  "demo_mworld = \<lparr>m_bar0 = \<lparr>Rev1Reserved1 = 0, Rev1Reserved2 = 0, IVPosition = 1, Doorbell = 0\<rparr>, m_bar2_globals = demo_mglobals,
     m_bar2 = \<lambda>_. demo_mslot, m_doorbells = [], m_jiffies = 1000\<rparr>"

definition demo_menv :: mono_env where
  "demo_menv = \<lparr>m_HZ = 250, usleep_range = \<lambda>w. w\<lparr>m_jiffies := m_jiffies w + 1\<rparr>, legible_sleep = \<lambda>c w. (- EINTR, c, w),
     wbuf_sleep = \<lambda>c w. (- EINTR, c, w), wait_legible = \<lambda>c w. (- ERESTARTSYS, c, w)\<rparr>"

definition demo_mconfig :: mono_config where
  "demo_mconfig = \<lparr>m_nr_users = 0, m_pdev = Some 3, teardown_lookup = None, max_msglen = 448, m_my_id = 1, m_server_id = 5,
     m_regs = True, m_globals = True, m_my_slot = Some 512, msix_entries = Some (9, demo_table), legible_slot = None,
     legible_slot_lock = 1, writer_support = None\<rparr>"

lemma demo_menv_ok [simp]: "sleep_keeps_layout demo_menv" "m_clock_runs demo_menv"
proof -
  show "sleep_keeps_layout demo_menv" by (simp add: sleep_keeps_layout_def m_same_layout_def demo_menv_def)
  have "unat (j + 1) = unat j + 1" if "unat j < 2 ^ 62" for j :: u64
    using that by (simp add: unat_word_ariths)
  then show "m_clock_runs demo_menv" by (simp add: m_clock_runs_def demo_menv_def)
qed

lemma demo_mworld_ok [simp]:
  "mono_inv demo_mconfig demo_mworld" "m_clock_room demo_menv 1 demo_mworld" "mono_table_ok demo_mconfig demo_mworld"
  by (simp_all add: mono_inv_def mono_geometry_def offsetof_msg_def m_slot_off_def demo_mconfig_def demo_mworld_def demo_mglobals_def
      demo_mslot_def m_clock_room_def demo_menv_def mono_table_ok_def demo_table_def upt_rec)



end
