(* ===== verification/Mono_Bridge.thy ===== *)
theory Mono_Bridge
  imports Mono_MSIX Fz_Bridge
begin

text \<open>
  \<open>kernel/famez/monolithic/famez_bridge.c\<close>: the character device of the monolithic driver.
  \<open>user_env\<close> is that of \<open>Fz_Bridge\<close> and \<open>bridge_file\<close> that of \<open>File_Life\<close>; \<open>kstrtou16\<close> is a parameter of the
  write operation. The operations take the configuration that \<open>extract_config\<close> finds
  behind the open file. \<open>misc_state\<close> is the set of registered misc devices, by the address
  of the structure that contains them.
\<close>

section \<open>Open, flush and release\<close>

definition m_open_alldone :: "int \<Rightarrow> mono_config \<Rightarrow> kheap \<Rightarrow> int \<times> mono_config \<times> kheap" where
  "m_open_alldone ret c h = (ret, if ret \<noteq> 0 then c\<lparr>m_nr_users := m_nr_users c - 1\<rparr> else c, h)"

definition bridge_open :: "mono_config \<Rightarrow> kheap \<Rightarrow> (int \<times> mono_config \<times> kheap) option" where
  "bridge_open c h =
     (let c1 = c\<lparr>m_nr_users := m_nr_users c + 1\<rparr> in
      if m_nr_users c1 = 1 then
        (case kzalloc h of
           (None, h1) \<Rightarrow> Some (m_open_alldone (- ENOMEM) c1 h1)
         | (Some bp, h1) \<Rightarrow>
             (case kzalloc h1 of
                (None, h2) \<Rightarrow> do {
                  h3 \<leftarrow> kfree (Some bp) h2;
                  Some (m_open_alldone (- ENOMEM) c1 h3)
                }
              | (Some wp, h2) \<Rightarrow>
                  let buffers = \<lparr>m_buffers_addr = bp, m_wbuf_addr = wp,
                        m_wbuf = replicate (unat (max_msglen c1)) NUL, wbuf_lock = 1\<rparr> in
                  Some (m_open_alldone 0 (c1\<lparr>writer_support := Some buffers\<rparr>) h2)))
      else Some (m_open_alldone (- EBUSY) c1 h))"

definition bridge_flush :: "bridge_file \<Rightarrow> mono_config \<Rightarrow> int \<times> mono_config" where
  "bridge_flush f c = (0, if f_count f = 1 then c\<lparr>m_nr_users := m_nr_users c - 1\<rparr> else c)"

definition bridge_release :: "mono_config \<Rightarrow> kheap \<Rightarrow> (int \<times> mono_config \<times> kheap) option" where
  "bridge_release c h =
     (if m_nr_users c \<noteq> 0 then None
      else do {
        b \<leftarrow> writer_support c;
        h1 \<leftarrow> kfree (Some (m_wbuf_addr b)) h;
        h2 \<leftarrow> kfree (Some (m_buffers_addr b)) h1;
        Some (0, c\<lparr>writer_support := None\<rparr>, h2)
      })"

section \<open>Waiting for a message and releasing it\<close>

text \<open>The loop of \<open>famez_await_legible_slot\<close>; it returns a slot with the lock held.\<close>

partial_function (option) legible_loop ::
  "mono_env \<Rightarrow> bool \<Rightarrow> mono_config \<Rightarrow> mono_world \<Rightarrow> ((int + u64) \<times> mono_config \<times> mono_world) option" where
  "legible_loop E nonblock c w =
     (case legible_slot c of
        Some p \<Rightarrow> Some (Inr p, c, w)
      | None \<Rightarrow>
          let c1 = legible_up c in
          if nonblock then Some (Inl (- EAGAIN), c1, w)
          else case wait_legible E c1 w of
            (ret, c2, w2) \<Rightarrow>
              if ret \<noteq> 0 then Some (Inl (- ERESTARTSYS), c2, w2)
              else case legible_down E c2 w2 of
                (ret3, c3, w3) \<Rightarrow>
                  if ret3 \<noteq> 0 then Some (Inl ret3, c3, w3) else legible_loop E nonblock c3 w3)"

definition famez_await_legible_slot ::
  "mono_env \<Rightarrow> bool \<Rightarrow> mono_config \<Rightarrow> mono_world \<Rightarrow> ((int + u64) \<times> mono_config \<times> mono_world) option" where
  "famez_await_legible_slot E nonblock c w =
     (case legible_down E c w of
        (ret, c1, w1) \<Rightarrow> if ret \<noteq> 0 then Some (Inl ret, c1, w1) else legible_loop E nonblock c1 w1)"

definition famez_release_legible_slot :: "mono_config \<Rightarrow> mono_world \<Rightarrow> (mono_config \<times> mono_world) option" where
  "famez_release_legible_slot c w = do {
     p \<leftarrow> legible_slot c;
     let w1 = m_put_slot p ((m_bar2 w p)\<lparr>m_msglen := 0\<rparr>) w;
     Some (legible_up (c\<lparr>legible_slot := None\<rparr>), w1)
   }"

section \<open>Read\<close>

text \<open>\<open>SENDER_ID_FMT\<close> and \<open>SENDER_ID_LEN\<close>.\<close>

definition SENDER_ID_FMT :: "u64 \<Rightarrow> string" where
  "SENDER_ID_FMT x = pad0 3 (dec_u64 x) @ [CHR '':'']"

definition SENDER_ID_LEN :: nat where
  "SENDER_ID_LEN = 4"

text \<open>The label \<open>read_complete\<close>.\<close>

definition m_read_complete ::
  "int \<Rightarrow> user_mem \<Rightarrow> mono_config \<Rightarrow> mono_world \<Rightarrow> (int \<times> user_mem \<times> mono_config \<times> mono_world) option" where
  "m_read_complete ret um c w = do {
     (c1, w1) \<leftarrow> famez_release_legible_slot c w;
     Some (ret, um, c1, w1)
   }"

definition bridge_read ::
  "mono_env \<Rightarrow> user_env \<Rightarrow> u64 \<Rightarrow> bridge_file \<Rightarrow> user_mem \<Rightarrow> mono_config \<Rightarrow> mono_world \<Rightarrow>
     (int \<times> user_mem \<times> mono_config \<times> mono_world) option" where
  "bridge_read E U count f um c w = do {
     (r, c1, w1) \<leftarrow> famez_await_legible_slot E (f_nonblock f) c w;
     (case r of
        Inl e \<Rightarrow> Some (e, um, c1, w1)
      | Inr p \<Rightarrow>
          let m = m_bar2 w1 p in
          if count < m_msglen m + of_nat SENDER_ID_LEN then m_read_complete (- E2BIG) um c1 w1
          else do {
            sender_id_str \<leftarrow> sprintf (replicate 8 NUL) (SENDER_ID_FMT (m_peer_id m));
            (case copy_to_user U 0 (take SENDER_ID_LEN sender_id_str) um of
               (ret, um1) \<Rightarrow>
                 if ret \<noteq> 0 then m_read_complete (if ret > 0 then - EFAULT else ret) um1 c1 w1
                 else do {
                   body \<leftarrow> (if unat (m_msglen m) \<le> length (m_msg m) then Some (take (unat (m_msglen m)) (m_msg m)) else None);
                   (case copy_to_user U SENDER_ID_LEN body um1 of
                      (ret2, um2) \<Rightarrow>
                        m_read_complete (if ret2 \<noteq> 0 then - EFAULT else to_int (m_msglen m + of_nat SENDER_ID_LEN)) um2 c1 w1)
                 })
          })
   }"

section \<open>Write\<close>

text \<open>\<open>FAMEZ_LOCK\<close> and \<open>FAMEZ_UNLOCK\<close> on the lock of the write buffer.\<close>

definition wbuf_down :: "mono_env \<Rightarrow> mono_config \<Rightarrow> mono_world \<Rightarrow> (int \<times> mono_config \<times> mono_world) option" where
  "wbuf_down E c w = do {
     b \<leftarrow> writer_support c;
     if 0 < wbuf_lock b then Some (0, c\<lparr>writer_support := Some (b\<lparr>wbuf_lock := wbuf_lock b - 1\<rparr>)\<rparr>, w)
     else Some (wbuf_sleep E c w)
   }"

text \<open>The label \<open>unlock_return\<close>.\<close>

definition m_unlock_return :: "int \<Rightarrow> mono_config \<Rightarrow> mono_world \<Rightarrow> (int \<times> mono_config \<times> mono_world) option" where
  "m_unlock_return ret c w = do {
     b \<leftarrow> writer_support c;
     Some (ret, c\<lparr>writer_support := Some (b\<lparr>wbuf_lock := Suc (wbuf_lock b)\<rparr>)\<rparr>, w)
   }"

definition m_write_result :: "int \<Rightarrow> u64 \<Rightarrow> u64 \<Rightarrow> int" where
  "m_write_result ret len count = (if to_u64 ret = len then to_int count else if ret \<ge> 0 then - EIO else ret)"

text \<open>The destination in front of the colon.\<close>

definition m_parse_dest :: "(string \<Rightarrow> int + u16) \<Rightarrow> bytes \<Rightarrow> mono_config \<Rightarrow> int + u16" where
  "m_parse_dest kstrtou16 wb c = (if STREQ wb ''server'' then Inr (m_server_id c) else kstrtou16 (cstr wb))"

definition bridge_write ::
  "mono_env \<Rightarrow> user_env \<Rightarrow> (string \<Rightarrow> int + u16) \<Rightarrow> bytes \<Rightarrow> u64 \<Rightarrow> mono_config \<Rightarrow> mono_world \<Rightarrow>
     (int \<times> mono_config \<times> mono_world) option" where
  "bridge_write E U kstrtou16 ubuf count c w =
     (if count \<ge> max_msglen c - 1 then Some (- E2BIG, c, w)
      else do {
        (ret, c1, w1) \<leftarrow> wbuf_down E c w;
        if ret \<noteq> 0 then m_unlock_return ret c1 w1
        else do {
          b \<leftarrow> writer_support c1;
          (case copy_from_user U ubuf (unat count) of
             (ret2, got) \<Rightarrow> do {
               wb1 \<leftarrow> memcpy (m_wbuf b) got (length got);
               if ret2 \<noteq> 0 then m_unlock_return (- EIO) (c1\<lparr>writer_support := Some (b\<lparr>m_wbuf := wb1\<rparr>)\<rparr>) w1
               else do {
                 wb2 \<leftarrow> put_byte wb1 (unat count) NUL;
                 (case strchr wb2 (CHR '':'') of
                    None \<Rightarrow> m_unlock_return (- EBADMSG) (c1\<lparr>writer_support := Some (b\<lparr>m_wbuf := wb2\<rparr>)\<rparr>) w1
                  | Some colon \<Rightarrow> do {
                      let wb3 = wb2[colon := NUL];
                      let c3 = c1\<lparr>writer_support := Some (b\<lparr>m_wbuf := wb3\<rparr>)\<rparr>;
                      let len = count - of_nat (colon + 1);
                      (case m_parse_dest kstrtou16 wb3 c1 of
                         Inl e \<Rightarrow> m_unlock_return e c3 w1
                       | Inr peer \<Rightarrow> do {
                           (ret4, w4) \<leftarrow> famez_sendmail E (ucast peer) (drop (colon + 1) wb3) len c3 w1;
                           m_unlock_return (m_write_result ret4 len count) c3 w4
                         })
                    })
               }
             })
        }
      })"

definition bridge_poll :: "mono_config \<Rightarrow> mono_world \<Rightarrow> u32 option" where
  "bridge_poll c w = do {
     p \<leftarrow> m_my_slot c;
     let ret = POLLIN OR POLLRDNORM;
     Some (if m_msglen (m_bar2 w p) = 0 then ret OR POLLOUT OR POLLWRNORM else ret)
   }"

section \<open>Setting up the device file\<close>

record misc_state =
  misc_devs :: "nat set"

text \<open>The name of the device file, reminiscent of lspci output.\<close>

definition miscdev_devname :: "nat \<Rightarrow> string" where
  "miscdev_devname fn = ''famez'' @ hex02 (fn div 8) @ ''_bridge''"

definition famez_bridge_setup ::
  "int \<Rightarrow> nat \<Rightarrow> mono_config \<Rightarrow> kheap \<Rightarrow> misc_state \<Rightarrow> (int \<times> mono_config \<times> kheap \<times> misc_state) option" where
  "famez_bridge_setup misc_register fn c h ms =
     (case kzalloc h of
        (None, h1) \<Rightarrow> Some (- ENOMEM, c, h1, ms)
      | (Some lk, h1) \<Rightarrow>
          (case kzalloc h1 of
             (None, h2) \<Rightarrow> do {
               h3 \<leftarrow> kfree (Some lk) h2;
               Some (- ENOMEM, c, h3, ms)
             }
           | (Some nm, h2) \<Rightarrow> do {
               name \<leftarrow> sprintf (replicate 32 NUL) (miscdev_devname fn);
               let c1 = c\<lparr>teardown_lookup := Some \<lparr>lookup_addr = lk, miscdev_name_addr = nm, miscdev_name = name\<rparr>\<rparr>;
               Some (misc_register, c1, h2,
                 if misc_register = 0 then ms\<lparr>misc_devs := insert lk (misc_devs ms)\<rparr> else ms)
             }))"

definition famez_bridge_teardown ::
  "mono_config \<Rightarrow> kheap \<Rightarrow> misc_state \<Rightarrow> (mono_config \<times> kheap \<times> misc_state) option" where
  "famez_bridge_teardown c h ms = do {
     lk \<leftarrow> teardown_lookup c;
     ms1 \<leftarrow> (if lookup_addr lk \<in> misc_devs ms then Some (ms\<lparr>misc_devs := misc_devs ms - {lookup_addr lk}\<rparr>) else None);
     h1 \<leftarrow> kfree (Some (miscdev_name_addr lk)) h;
     h2 \<leftarrow> kfree (Some (lookup_addr lk)) h1;
     Some (c\<lparr>teardown_lookup := None\<rparr>, h2, ms1)
   }"

section \<open>Reading\<close>

text \<open>
  The prefix of a sender below 1000 is three digits and a colon, four characters as
  \<open>SENDER_ID_LEN\<close> says; a larger number would lose its colon.
\<close>

lemma dec_nat_length_ge1: "1 \<le> length (dec_nat n)"
  using dec_nat_not_Nil [of n] by (cases "dec_nat n") auto

lemma sender_id_len:
  assumes "s < 1000"
  shows "length (SENDER_ID_FMT (of_nat s)) = SENDER_ID_LEN"
proof -
  have "length (dec_nat s) \<le> 3" using assms by (intro dec_nat_length) simp_all
  moreover have "unat (of_nat s :: u64) = s" using assms by (simp add: unat_of_nat)
  ultimately show ?thesis by (simp add: SENDER_ID_FMT_def SENDER_ID_LEN_def pad0_def dec_u64_def)
qed

lemma await_legible_ready:
  assumes "0 < legible_slot_lock c" and "legible_slot c = Some p"
  shows "famez_await_legible_slot E nb c w = Some (Inr p, c\<lparr>legible_slot_lock := legible_slot_lock c - 1\<rparr>, w)"
  using assms by (simp add: famez_await_legible_slot_def legible_down_def legible_loop.simps)

lemma release_legible_run:
  assumes "legible_slot c = Some p" and "0 < legible_slot_lock c"
  shows "m_read_complete ret um (c\<lparr>legible_slot_lock := legible_slot_lock c - 1\<rparr>) w =
    Some (ret, um, c\<lparr>legible_slot := None\<rparr>, m_put_slot p ((m_bar2 w p)\<lparr>m_msglen := 0\<rparr>) w)"
proof -
  have "c\<lparr>legible_slot := None, legible_slot_lock := legible_slot_lock c\<rparr> = c\<lparr>legible_slot := None\<rparr>" by simp
  then show ?thesis using assms
    by (simp add: m_read_complete_def famez_release_legible_slot_def legible_up_def)
qed

lemma bridge_read_message:
  assumes lk: "0 < legible_slot_lock c" and slot: "legible_slot c = Some p" and m: "m = m_bar2 w p"
    and s: "m_peer_id m = of_nat s" "s < 1000"
    and len: "unat (m_msglen m) \<le> length (m_msg m)" "unat (m_msglen m) < 2 ^ 30"
    and count: "SENDER_ID_LEN + unat (m_msglen m) \<le> unat count"
    and U: "user_env_ok U" "\<And>off src um. \<exists>um'. copy_to_user U off src um = (0, um')"
  shows "bridge_read E U count f um c w =
    Some (int (SENDER_ID_LEN + unat (m_msglen m)),
      stored 0 (SENDER_ID_FMT (of_nat s) @ take (unat (m_msglen m)) (m_msg m)) um,
      c\<lparr>legible_slot := None\<rparr>, m_put_slot p (m\<lparr>m_msglen := 0\<rparr>) w)"
proof -
  let ?pre = "SENDER_ID_FMT (of_nat s)" and ?body = "take (unat (m_msglen m)) (m_msg m)"
  have l: "length ?pre = SENDER_ID_LEN" by (rule sender_id_len [OF s(2)])
  obtain d where d: "sprintf (replicate 8 NUL) ?pre = Some d" "take SENDER_ID_LEN d = ?pre"
    using l by (simp add: sprintf_def SENDER_ID_LEN_def)
  obtain um1 where um1: "copy_to_user U 0 ?pre um = (0, um1)" using U(2) by blast
  obtain um2 where um2: "copy_to_user U SENDER_ID_LEN ?body um1 = (0, um2)" using U(2) by blast
  have um: "um2 = stored 0 (?pre @ ?body) um" using U(1) um1 um2 l by (simp add: user_env_ok_def flip: stored_append)
  have tot: "unat (m_msglen m + of_nat SENDER_ID_LEN) = unat (m_msglen m) + SENDER_ID_LEN"
    using len(2) by (simp add: SENDER_ID_LEN_def unat_word_ariths)
  then have c: "\<not> count < m_msglen m + of_nat SENDER_ID_LEN" using count by (simp add: word_less_nat_alt)
  have "to_int (m_msglen m + of_nat SENDER_ID_LEN) = int (unat (m_msglen m + of_nat SENDER_ID_LEN))"
    using tot len(2) by (intro to_int_small) (simp add: SENDER_ID_LEN_def)
  then have r: "to_int (m_msglen m + of_nat SENDER_ID_LEN) = int (SENDER_ID_LEN + unat (m_msglen m))" using tot by simp
  show ?thesis unfolding bridge_read_def await_legible_ready [OF lk slot]
    using c s(1) len(1) by (simp add: Let_def m [symmetric] d um1 um2 um r release_legible_run [OF slot lk, unfolded One_nat_def] del: replicate.simps)
qed

lemma bridge_read_would_block:
  assumes "0 < legible_slot_lock c" and "legible_slot c = None" and "f_nonblock f"
  shows "bridge_read E U count f um c w = Some (- EAGAIN, um, c, w)"
proof -
  have "c\<lparr>legible_slot_lock := legible_slot_lock c\<rparr> = c" by simp
  then show ?thesis using assms
    by (simp add: bridge_read_def famez_await_legible_slot_def legible_down_def legible_loop.simps legible_up_def)
qed

section \<open>Writing\<close>

definition m_buffers_ok :: "mono_config \<Rightarrow> bool" where
  "m_buffers_ok c \<longleftrightarrow> (\<exists>b. writer_support c = Some b \<and> wbuf_lock b = 1 \<and> length (m_wbuf b) = unat (max_msglen c))"

text \<open>The configuration while the write buffer is locked and has given contents.\<close>

definition m_held :: "mono_buffers \<Rightarrow> bytes \<Rightarrow> mono_config \<Rightarrow> mono_config" where
  "m_held b x c = c\<lparr>writer_support := Some (b\<lparr>wbuf_lock := 0, m_wbuf := x\<rparr>)\<rparr>"

lemma m_held_simps [simp]:
  "mono_inv (m_held b x c) w = mono_inv c w" "m_my_id (m_held b x c) = m_my_id c" "max_msglen (m_held b x c) = max_msglen c"
  "m_server_id (m_held b x c) = m_server_id c" "mail_ok peer len (m_held b x c) = mail_ok peer len c"
  "m_sent (m_held b x c) peer tx len w w' = m_sent c peer tx len w w'"
  by (simp_all add: m_held_def mail_ok_def m_sent_def)

lemma m_unlock_held:
  assumes "length x = unat (max_msglen c)"
  shows "\<exists>c'. m_unlock_return ret (m_held b x c) w = Some (ret, c', w) \<and> m_buffers_ok c' \<and> (\<exists>y. c' = c\<lparr>writer_support := y\<rparr>)"
  using assms by (auto simp: m_unlock_return_def m_held_def m_buffers_ok_def)

lemma m_write_run:
  assumes big: "\<not> count \<ge> max_msglen c - 1"
    and b: "writer_support c = Some b" "wbuf_lock b = 1" "length (m_wbuf b) = unat (max_msglen c)"
    and cp: "copy_from_user U ubuf (unat count) = (ret, got)" "length got \<le> unat count"
    and cnt: "unat count + 1 < unat (max_msglen c)"
    and wb1: "wb1 = got @ drop (length got) (m_wbuf b)" and wb2: "wb2 = wb1[unat count := NUL]"
  shows "bridge_write E U ks ubuf count c w =
    (if ret \<noteq> 0 then m_unlock_return (- EIO) (m_held b wb1 c) w
     else case strchr wb2 (CHR '':'') of
       None \<Rightarrow> m_unlock_return (- EBADMSG) (m_held b wb2 c) w
     | Some i \<Rightarrow>
         (case m_parse_dest ks (wb2[i := NUL]) c of
            Inl e \<Rightarrow> m_unlock_return e (m_held b (wb2[i := NUL]) c) w
          | Inr peer \<Rightarrow> do {
              (ret4, w4) \<leftarrow> famez_sendmail E (ucast peer) (drop (i + 1) (wb2[i := NUL])) (count - of_nat (i + 1)) (m_held b (wb2[i := NUL]) c) w;
              m_unlock_return (m_write_result ret4 (count - of_nat (i + 1)) count) (m_held b (wb2[i := NUL]) c) w4 }))"
proof -
  have mc: "memcpy (m_wbuf b) got (length got) = Some wb1" using cp(2) cnt b(3) by (simp add: memcpy_def wb1)
  have "length wb1 = unat (max_msglen c)" using cp(2) cnt b(3) by (simp add: wb1)
  then have pb: "put_byte wb1 (unat count) NUL = Some wb2" using cnt by (simp add: wb2)
  have pd: "m_parse_dest ks x (c\<lparr>writer_support := y\<rparr>) = m_parse_dest ks x c" for x y by (simp add: m_parse_dest_def)
  show ?thesis
    using big b cp(1) mc pb unfolding bridge_write_def Let_def wbuf_down_def
    by (cases "strchr wb2 (CHR '':'')") (simp_all add: m_held_def pd split: sum.splits)
qed

lemma m_write_count_bound:
  assumes "mono_inv c w" and "\<not> count \<ge> max_msglen c - 1"
  shows "unat count + 1 < unat (max_msglen c)" and "unat count < 2 ^ 31"
proof -
  have "offsetof_msg < m_slotsize (m_bar2_globals w)" using assms(1) by (simp add: mono_inv_def mono_geometry_def)
  then have "max_msglen c \<noteq> 0" using assms(1) by (auto simp: mono_inv_def)
  then have "0 < unat (max_msglen c)" by (simp add: unat_gt_0)
  then have "unat (max_msglen c - 1) = unat (max_msglen c) - 1" by (simp add: unat_sub word_le_nat_alt)
  then show "unat count + 1 < unat (max_msglen c)" using assms(2) by (simp add: word_le_nat_alt)
  then show "unat count < 2 ^ 31" using max_msglen_bound [OF assms(1)] by simp
qed

text \<open>Every write returns, with the lock free; it sends once or reports an error.\<close>

definition m_write_outcome :: "u64 \<Rightarrow> mono_config \<Rightarrow> mono_world \<Rightarrow> int \<Rightarrow> mono_config \<Rightarrow> mono_world \<Rightarrow> bool" where
  "m_write_outcome count c w r c' w' \<longleftrightarrow> m_buffers_ok c' \<and> mono_inv c' w' \<and> (\<exists>x. c' = c\<lparr>writer_support := x\<rparr>) \<and>
     (r < 0 \<and> m_bells w' = m_bells w \<or>
      r = int (unat count) \<and> (\<exists>d. m_bells w' = m_bells w @ [(d, unat (m_my_id c))]))"

lemma m_write_sends:
  assumes inv: "mono_inv c w" and E: "sleep_keeps_layout E" "m_clock_runs E" "m_clock_room E 1 w"
    and x: "length x = unat (max_msglen c)" and len: "unat len \<le> length tx" "unat len < 2 ^ 31" and cnt: "unat count < 2 ^ 31"
  shows "\<exists>r c' w'. do { (ret4, w4) \<leftarrow> famez_sendmail E peer tx len (m_held b x c) w;
       m_unlock_return (m_write_result ret4 len count) (m_held b x c) w4 } = Some (r, c', w') \<and> m_write_outcome count c w r c' w'"
proof -
  have inv': "mono_inv (m_held b x c) w" using inv by simp
  obtain r4 w4 where s: "famez_sendmail E peer tx len (m_held b x c) w = Some (r4, w4)"
    using sendmail_returns [OF inv' E(1,2) _ len(1), of 0 peer] E(3) by auto
  note o = sendmail_outcome [OF inv' E(1) len(1) s]
  obtain c' where u: "m_unlock_return (m_write_result r4 len count) (m_held b x c) w4 = Some (m_write_result r4 len count, c', w4)"
    "m_buffers_ok c'" "\<exists>y. c' = c\<lparr>writer_support := y\<rparr>" using m_unlock_held [OF x] by blast
  show ?thesis
  proof (cases "mail_ok peer len c")
    case True
    with o have "r4 = int (unat len)" "m_sent c peer tx len w w4" by simp_all
    moreover from this(1) have "m_write_result r4 len count = int (unat count)"
      using to_int_small [OF cnt] by (simp add: m_write_result_def to_u64_def)
    ultimately show ?thesis using s u by (auto simp: m_write_outcome_def m_sent_def)
  next
    case False
    with o have r: "- 4095 \<le> r4" "r4 < 0" "w4 = w" by simp_all
    then have "m_write_result r4 len count = r4" using to_u64_neg [OF r(1,2) len(2)] by (simp add: m_write_result_def)
    then show ?thesis using s u r inv by (auto simp: m_write_outcome_def)
  qed
qed

lemma m_write_once:
  assumes inv: "mono_inv c w" and E: "sleep_keeps_layout E" "m_clock_runs E" "m_clock_room E 1 w"
    and ok: "m_buffers_ok c" and U: "user_env_ok U" and ks: "\<And>t e. ks t = Inl e \<Longrightarrow> e < 0"
  shows "\<exists>r c' w'. bridge_write E U ks ubuf count c w = Some (r, c', w') \<and> m_write_outcome count c w r c' w'"
proof (cases "count \<ge> max_msglen c - 1")
  case True
  moreover have "\<exists>x. c = c\<lparr>writer_support := x\<rparr>" by (intro exI [of _ "writer_support c"]) simp
  ultimately show ?thesis using ok inv by (simp add: bridge_write_def m_write_outcome_def)
next
  case False
  note cnt = m_write_count_bound [OF inv False]
  obtain b where b: "writer_support c = Some b" "wbuf_lock b = 1" "length (m_wbuf b) = unat (max_msglen c)"
    using ok by (auto simp: m_buffers_ok_def)
  obtain ret got where cp: "copy_from_user U ubuf (unat count) = (ret, got)" by (metis surj_pair)
  have got: "length got \<le> unat count" using U cp unfolding user_env_ok_def by (metis snd_conv)
  define wb1 where "wb1 = got @ drop (length got) (m_wbuf b)"
  define wb2 where "wb2 = wb1[unat count := NUL]"
  have l: "length wb1 = unat (max_msglen c)" "length wb2 = unat (max_msglen c)"
    using got cnt b(3) by (simp_all add: wb1_def wb2_def)
  have fail: "\<exists>r c' w'. m_unlock_return e (m_held b x c) w = Some (r, c', w') \<and> m_write_outcome count c w r c' w'"
    if "e < 0" "length x = unat (max_msglen c)" for e x
    using m_unlock_held [OF that(2), of e b w] that inv by (auto simp: m_write_outcome_def)
  note run = m_write_run [OF False b cp got cnt(1) wb1_def wb2_def, of E ks w]
  show ?thesis
  proof (cases "strchr wb2 (CHR '':'')")
    case None
    then show ?thesis unfolding run using fail l by simp
  next
    case (Some i)
    have "length (cstr wb2) \<le> unat count" using l cnt by (intro cstr_stops) (simp_all add: wb2_def)
    then have i: "i < unat count" using Some index_of_Some [of _ "cstr wb2" i] by (force simp: strchr_def)
    have len: "unat (count - of_nat (i + 1)) = unat count - (i + 1)"
      using i cnt(2) by (intro unat_minus_of_nat) simp_all
    have x: "length (wb2[i := NUL]) = unat (max_msglen c)" using l(2) by simp
    have fits: "unat (count - of_nat (i + 1)) \<le> length (drop (i + 1) (wb2[i := NUL]))" "unat (count - of_nat (i + 1)) < 2 ^ 31"
      using len l cnt i by simp_all
    note sends = m_write_sends [OF inv E x fits cnt(2)]
    have "e < 0" if "m_parse_dest ks (wb2[i := NUL]) c = Inl e" for e
      using that ks by (simp add: m_parse_dest_def split: if_splits)
    then show ?thesis unfolding run Some option.case
      using fail [OF _ x] fail [OF _ l(1)] sends by (cases "m_parse_dest ks (wb2[i := NUL]) c") (auto simp del: of_nat_add)
  qed
qed

section \<open>What a write delivers\<close>

lemma m_write_parsed:
  assumes inv: "mono_inv c w" and b: "writer_support c = Some b" "wbuf_lock b = 1" "length (m_wbuf b) = unat (max_msglen c)"
    and U: "user_env_ok U" "copy_from_user U ubuf (length ubuf) = (0, got)"
    and ubuf: "ubuf = dec_int (int d) @ CHR '':'' # tx" and len: "length ubuf + 1 < unat (max_msglen c)"
    and ks: "ks (dec_int (int d)) = Inr (of_nat d)"
    and x: "x = dec_int (int d) @ NUL # tx @ NUL # drop (Suc (length ubuf)) (m_wbuf b)"
  shows "bridge_write E U ks ubuf (of_nat (length ubuf)) c w = do {
      (ret4, w4) \<leftarrow> famez_sendmail E (ucast (of_nat d :: u16)) (tx @ NUL # drop (Suc (length ubuf)) (m_wbuf b)) (of_nat (length tx)) (m_held b x c) w;
      m_unlock_return (m_write_result ret4 (of_nat (length tx)) (of_nat (length ubuf))) (m_held b x c) w4 }"
proof -
  let ?n = "length ubuf" and ?i = "length (dec_int (int d))"
  have "?n < 2 ^ 31" using len max_msglen_bound [OF inv] by simp
  then have n: "unat (of_nat ?n :: u64) = ?n" by (intro unat_of_nat_small) simp
  have got: "got = ubuf" using U unfolding user_env_ok_def by (metis order_refl take_all)
  have "unat (max_msglen c - 1) = unat (max_msglen c) - 1" using len by (simp add: unat_sub word_le_nat_alt)
  then have big: "\<not> of_nat ?n \<ge> max_msglen c - 1" using len by (simp add: word_le_nat_alt n)
  have "(ubuf @ drop ?n (m_wbuf b))[unat (of_nat ?n :: u64) := NUL] = ubuf @ NUL # drop (Suc ?n) (m_wbuf b)"
    using copied_text [of ubuf "m_wbuf b"] len b(3) unfolding n by simp
  also have "\<dots> = dec_int (int d) @ CHR '':'' # tx @ NUL # drop (Suc ?n) (m_wbuf b)"
    unfolding ubuf by simp
  finally have wb2: "dec_int (int d) @ CHR '':'' # tx @ NUL # drop (Suc ?n) (m_wbuf b)
      = (ubuf @ drop (length ubuf) (m_wbuf b))[unat (of_nat ?n :: u64) := NUL]" by simp
  have col: "CHR '':'' \<notin> set (dec_int (int d))" using digits_only [of "CHR '':''" d] by (auto simp: isdigit_def)
  have "\<not> STREQ (dec_int (int d) @ NUL # r) ''server''" for r
    using dec_int_not_keyword [of "''server''" d] by (simp add: STREQ_def isdigit_def)
  moreover have sp: "strchr (dec_int (int d) @ CHR '':'' # r) (CHR '':'') = Some ?i"
    "(dec_int (int d) @ CHR '':'' # r)[?i := NUL] = dec_int (int d) @ NUL # r" for r
    using write_split [OF col] by simp_all
  ultimately have pd: "m_parse_dest ks (dec_int (int d) @ NUL # r) c = Inr (of_nat d)" for r
    using ks by (simp add: m_parse_dest_def)
  have le: "of_nat ?n - of_nat (?i + 1) = (of_nat (length tx) :: u64)" by (simp add: ubuf)
  have c2: "copy_from_user U ubuf (unat (of_nat ?n :: u64)) = (0, ubuf)" "length ubuf \<le> unat (of_nat ?n :: u64)"
    "unat (of_nat ?n :: u64) + 1 < unat (max_msglen c)" using n U(2) got len by simp_all
  show ?thesis
    unfolding m_write_run [OF big b c2 refl wb2, of E ks w] sp option.case le pd sum.case x by simp
qed

lemma m_write_delivers:
  assumes inv: "mono_inv c w" and E: "sleep_keeps_layout E" "m_clock_runs E" "m_clock_room E 1 w"
    and ok: "m_buffers_ok c" and U: "user_env_ok U" "copy_from_user U ubuf (length ubuf) = (0, got)"
    and ubuf: "ubuf = dec_int (int d) @ CHR '':'' # tx" and len: "length ubuf + 1 < unat (max_msglen c)" and tx: "tx \<noteq> []"
    and ks: "ks (dec_int (int d)) = Inr (of_nat d)" and d: "0 < d" "d \<le> unat (m_server_id c)"
  shows "\<exists>x w'. bridge_write E U ks ubuf (of_nat (length ubuf)) c w = Some (int (length ubuf), c\<lparr>writer_support := x\<rparr>, w') \<and>
    m_buffers_ok (c\<lparr>writer_support := x\<rparr>) \<and> m_sent c (of_nat d) tx (of_nat (length tx)) w w'"
proof -
  obtain b where b: "writer_support c = Some b" "wbuf_lock b = 1" "length (m_wbuf b) = unat (max_msglen c)"
    using ok by (auto simp: m_buffers_ok_def)
  define x where "x = dec_int (int d) @ NUL # tx @ NUL # drop (Suc (length ubuf)) (m_wbuf b)"
  let ?tx = "tx @ NUL # drop (Suc (length ubuf)) (m_wbuf b)" and ?len = "of_nat (length tx) :: u64"
  have small: "length ubuf < 2 ^ 31" using len max_msglen_bound [OF inv] by simp
  then have l: "unat ?len = length tx" by (intro unat_of_nat_small) (simp add: ubuf)
  have d16: "d < 2 ^ 16" using d(2) unsigned_less [of "m_server_id c", where ?'a = nat] by simp
  have peer: "ucast (of_nat d :: u16) = (of_nat d :: u32)" "unat (of_nat d :: u32) = d"
    using unat_entry_u32 [OF d16] d16 by (simp_all add: word_unat_eq_iff unat_of_nat del: unsigned_of_nat)
  have mok: "mail_ok (of_nat d) ?len (m_held b x c)"
    using d peer(2) l tx len by (simp add: mail_ok_def ubuf)
  have inv': "mono_inv (m_held b x c) w" using inv by simp
  obtain r w' where s: "famez_sendmail E (of_nat d) ?tx ?len (m_held b x c) w = Some (r, w')"
    using sendmail_returns [OF inv' E(1,2), of 0 ?len ?tx "of_nat d"] E(3) l by auto
  have r: "r = int (length tx)" "m_sent c (of_nat d) ?tx ?len w w'"
    using sendmail_sent [OF inv' E(1) _ mok s] l by simp_all
  have x: "length x = unat (max_msglen c)" using len b(3) by (simp add: x_def ubuf)
  obtain c' y where u: "m_unlock_return (m_write_result r ?len (of_nat (length ubuf))) (m_held b x c) w' =
      Some (m_write_result r ?len (of_nat (length ubuf)), c', w')" "m_buffers_ok c'" "c' = c\<lparr>writer_support := y\<rparr>"
    using m_unlock_held [OF x] by metis
  have lu: "unat (of_nat (length ubuf) :: u64) = length ubuf" using small by (intro unat_of_nat_small) simp
  then have "to_int (of_nat (length ubuf)) = int (length ubuf)"
    using to_int_small [of "of_nat (length ubuf)"] small by (simp only: lu)
  then have "m_write_result r ?len (of_nat (length ubuf)) = int (length ubuf)"
    by (simp add: m_write_result_def r(1) to_u64_def)
  moreover have "m_sent c (of_nat d) tx ?len w w'" using r(2) by (simp add: m_sent_def l)
  ultimately show ?thesis
    unfolding m_write_parsed [where ks = ks, OF inv b U ubuf len ks x_def] peer(1) s using u by auto
qed

section \<open>From one guest to another\<close>

text \<open>The private state of a guest \<open>v\<close> attached to the shared memory as \<open>w\<close> has left it.\<close>

definition m_on_memory_of :: "mono_world \<Rightarrow> mono_world \<Rightarrow> mono_world" where
  "m_on_memory_of w v = v\<lparr>m_bar2 := m_bar2 w, m_bar2_globals := m_bar2_globals w\<rparr>"

lemma m_on_memory_of_simps [simp]:
  "m_bar2 (m_on_memory_of w v) = m_bar2 w" "m_bar2_globals (m_on_memory_of w v) = m_bar2_globals w"
  by (simp_all add: m_on_memory_of_def)

lemma m_shared_memory_inv:
  assumes "mono_inv c w'" and "mono_inv d (m_on_memory_of w v)" and "m_bar2_globals w' = m_bar2_globals w"
  shows "mono_inv d (m_on_memory_of w' v)"
  using assms by (simp add: mono_inv_def)

text \<open>The interrupt of a posted message that is not a ping, and the read that follows it.\<close>

lemma m_receive:
  assumes inv: "mono_inv d w" and tab: "mono_table_ok d w" "msix_entries d = Some (tab, es)" "word_of_int irq = vector (es ! s)"
    and s: "0 < s" "s < unat (nSlots (m_bar2_globals w))" "s < 1000" and p: "p = m_slot_off (m_bar2_globals w) s"
    and lk: "0 < legible_slot_lock d" and m: "m_msg (m_bar2 w p) = tx @ NUL # r" "m_msglen (m_bar2 w p) = of_nat (length tx)"
    and tx: "length tx < 2 ^ 30" "\<not> (length tx = 4 \<and> STREQ_N tx ''ping'' 4)"
    and reply: "reply = SENDER_ID_FMT (of_nat s) @ tx" and count: "length reply \<le> unat count"
    and U: "user_env_ok U" "\<And>off src um. \<exists>um'. copy_to_user U off src um = (0, um')"
  shows "\<exists>d' w1 w2. mono_all_msix E irq d w = Some (IRQ_HANDLED, True, d', w1) \<and>
    bridge_read E U count f um d' w1 = Some (int (length reply), stored 0 reply um, d\<lparr>legible_slot := None\<rparr>, w2) \<and>
    m_mail w2 s = None"
proof -
  have l: "unat (of_nat (length tx) :: u64) = length tx" using tx(1) by (intro unat_of_nat_small) simp
  have "length tx = 4" if "m_msglen (m_bar2 w p) = 4" using arg_cong [OF that, of unat] l by (simp add: m(2))
  then have "\<not> (m_msglen (m_bar2 w p) = 4 \<and> STREQ_N (m_msg (m_bar2 w p)) ''ping'' 4)"
    using tx(2) by (auto simp: m(1) STREQ_N_def cstr_terminated)
  note irq = mono_all_msix_message [OF inv tab s(1,2) p this lk, of E]
  let ?w = "m_tagged p s w" let ?m = "m_bar2 ?w p"
  have len: "unat (m_msglen ?m) = length tx" using m(2) l by simp
  have "bridge_read E U count f um (d\<lparr>legible_slot := Some p\<rparr>) ?w =
    Some (int (SENDER_ID_LEN + unat (m_msglen ?m)),
      stored 0 (SENDER_ID_FMT (of_nat s) @ take (unat (m_msglen ?m)) (m_msg ?m)) um,
      (d\<lparr>legible_slot := Some p\<rparr>)\<lparr>legible_slot := None\<rparr>, m_put_slot p (?m\<lparr>m_msglen := 0\<rparr>) ?w)"
  proof (rule bridge_read_message [OF _ _ refl _ s(3) _ _ _ U])
    show "unat (m_msglen ?m) \<le> length (m_msg ?m)" unfolding len by (simp add: m(1))
    show "unat (m_msglen ?m) < 2 ^ 30" unfolding len by (rule tx(1))
    show "SENDER_ID_LEN + unat (m_msglen ?m) \<le> unat count"
      using count sender_id_len [OF s(3)] unfolding len reply by simp
  qed (use lk in simp_all)
  moreover have "take (unat (m_msglen ?m)) (m_msg ?m) = tx" unfolding len using m(1) by simp
  moreover have "SENDER_ID_LEN + unat (m_msglen ?m) = length reply"
    using sender_id_len [OF s(3)] by (simp only: len reply length_append)
  ultimately have "bridge_read E U count f um (d\<lparr>legible_slot := Some p\<rparr>) ?w =
    Some (int (length reply), stored 0 reply um, d\<lparr>legible_slot := None\<rparr>, m_put_slot p (?m\<lparr>m_msglen := 0\<rparr>) ?w)"
    by (simp only: reply) simp
  then show ?thesis unfolding irq by (auto simp: m_mail_def m_slot_mail_def p)
qed

section \<open>The life of an open file\<close>

definition mono_fops :: "(mono_config, mono_env \<times> user_env \<times> (string \<Rightarrow> int + u16), mono_world) file_operations" where
  "mono_fops = \<lparr>cd_open = bridge_open, cd_flush = bridge_flush, cd_release = bridge_release,
     cd_read = (\<lambda>(E, U, ks) count f um c w. map_option (\<lambda>(r, um', c', w'). (r, f, um', c', w')) (bridge_read E U count f um c w)),
     cd_write = (\<lambda>(E, U, ks). bridge_write E U ks), cd_poll = bridge_poll\<rparr>"

definition mono_dev :: "(mono_config, mono_env \<times> user_env \<times> (string \<Rightarrow> int + u16), mono_world) chardev" where
  "mono_dev = file_operations.extend mono_fops
     (chardev.fields (\<lambda>(E, U, ks) irq c w. map_option snd (mono_all_msix E irq c w)))"

text \<open>What stays of a configuration when a message arrives or is taken.\<close>

definition m_same_file :: "mono_config \<Rightarrow> mono_config \<Rightarrow> bool" where
  "m_same_file c c' \<longleftrightarrow> m_nr_users c' = m_nr_users c \<and> writer_support c' = writer_support c \<and> max_msglen c' = max_msglen c"

definition mono_env_ok :: "mono_env \<times> user_env \<times> (string \<Rightarrow> int + u16) \<Rightarrow> bool" where
  "mono_env_ok = (\<lambda>(E, U, ks). \<forall>c w. m_same_file c (fst (snd (legible_sleep E c w))) \<and> m_same_file c (fst (snd (wait_legible E c w))))"

definition mono_unused :: "mono_config \<Rightarrow> bool" where
  "mono_unused c \<longleftrightarrow> m_nr_users c = 0 \<and> writer_support c = None"

definition mono_holds :: "nat set \<Rightarrow> mono_config \<Rightarrow> bool" where
  "mono_holds A c \<longleftrightarrow> m_nr_users c = 1 \<and>
     (\<exists>b. writer_support c = Some b \<and> wbuf_lock b = 1 \<and> length (m_wbuf b) = unat (max_msglen c) \<and>
        m_buffers_addr b \<noteq> m_wbuf_addr b \<and> A = {m_buffers_addr b, m_wbuf_addr b})"

lemma mono_holds_buffers: "mono_holds A c \<Longrightarrow> m_nr_users c = 1 \<and> m_buffers_ok c"
  by (auto simp: mono_holds_def m_buffers_ok_def)

lemma mono_dev_simps [simp]:
  "cd_open mono_dev = bridge_open" "cd_flush mono_dev = bridge_flush" "cd_release mono_dev = bridge_release"
  "cd_read mono_dev (E, U, ks) count f um c w = map_option (\<lambda>(r, um', c', w'). (r, f, um', c', w')) (bridge_read E U count f um c w)"
  "cd_write mono_dev (E, U, ks) = bridge_write E U ks"
  "cd_isr mono_dev (E, U, ks) irq c w = map_option snd (mono_all_msix E irq c w)"
  by (simp_all add: mono_dev_def mono_fops_def file_operations.defs chardev.defs)

lemma mono_open_busy:
  assumes "0 < m_nr_users c"
  shows "bridge_open c h = Some (- EBUSY, c, h)"
proof -
  have "c\<lparr>m_nr_users := m_nr_users c\<rparr> = c" by simp
  then show ?thesis using assms by (simp add: bridge_open_def m_open_alldone_def)
qed

lemma mono_open_result:
  assumes free: "mono_unused c" and wf: "wf_heap h"
  shows "\<exists>r c' h'. bridge_open c h = Some (r, c', h') \<and> wf_heap h' \<and>
    (if r = 0 then \<exists>A. mono_holds A c' \<and> A \<inter> k_live h = {} \<and> k_live h' = k_live h \<union> A
     else c' = c \<and> k_live h' = k_live h)"
proof -
  have u: "m_nr_users c = 0" "c\<lparr>m_nr_users := 0\<rparr> = c" using free by (simp_all add: mono_unused_def)
  from wf show ?thesis
  proof (cases h rule: kzalloc_pair)
    case (two p q h1 h2)
    let ?c = "c\<lparr>m_nr_users := 1, writer_support := Some \<lparr>m_buffers_addr = p, m_wbuf_addr = q,
      m_wbuf = replicate (unat (max_msglen c)) NUL, wbuf_lock = 1\<rparr>\<rparr>"
    have "mono_holds {p, q} ?c" using two(3) by (simp add: mono_holds_def)
    moreover have "bridge_open c h = Some (0, ?c, h2)" using two(1,2) u
      by (simp add: bridge_open_def m_open_alldone_def)
    ultimately show ?thesis using two(4-6) by auto
  qed (simp_all add: bridge_open_def m_open_alldone_def u)
qed

lemma mono_last_close:
  assumes hold: "mono_holds A c" and live: "A \<subseteq> k_live h" and fl: "bridge_flush (file_of 1) c = (r, c')"
  shows "\<exists>c2. bridge_release c' h = Some (0, c2, h\<lparr>k_live := k_live h - A\<rparr>) \<and> mono_unused c2"
proof -
  obtain b where b: "writer_support c = Some b" "m_buffers_addr b \<noteq> m_wbuf_addr b" "A = {m_buffers_addr b, m_wbuf_addr b}" "m_nr_users c = 1"
    using hold by (auto simp: mono_holds_def)
  have c': "c' = c\<lparr>m_nr_users := 0\<rparr>" using fl b(4) by (simp add: bridge_flush_def file_of_def)
  have "k_live h - {m_wbuf_addr b} - {m_buffers_addr b} = k_live h - A" using b(3) by auto
  then show ?thesis using b live by (simp add: bridge_release_def c' mono_unused_def)
qed

lemma m_same_file_refl [simp]: "m_same_file c c"
  by (simp add: m_same_file_def)

lemma m_same_file_trans: "m_same_file a b \<Longrightarrow> m_same_file b c \<Longrightarrow> m_same_file a c"
  by (simp add: m_same_file_def)

lemma m_same_file_holds: "m_same_file c c' \<Longrightarrow> mono_holds A c \<Longrightarrow> mono_holds A c'"
  by (simp add: mono_holds_def m_same_file_def)

lemma m_same_file_unused: "m_same_file c c' \<Longrightarrow> mono_unused c \<Longrightarrow> mono_unused c'"
  by (simp add: mono_unused_def m_same_file_def)

lemma m_same_file_legible [simp]:
  "m_same_file c (legible_up c') = m_same_file c c'" "m_same_file (legible_up c) c' = m_same_file c c'"
  "m_same_file c (c'\<lparr>legible_slot := x\<rparr>) = m_same_file c c'"
  by (simp_all add: m_same_file_def legible_up_def)

lemma legible_down_file:
  "mono_env_ok (E, U, ks) \<Longrightarrow> m_same_file c (fst (snd (legible_down E c w)))"
  by (simp add: legible_down_def mono_env_ok_def) (simp add: m_same_file_def)

lemma wait_legible_file:
  "mono_env_ok (E, U, ks) \<Longrightarrow> m_same_file c (fst (snd (wait_legible E c w)))"
  by (simp add: mono_env_ok_def)

lemma mono_isr_file:
  "mono_all_msix E irq c w = Some (r, woken, c', w') \<Longrightarrow> mono_env_ok (E, U, ks) \<Longrightarrow> m_same_file c c'"
  by (auto simp: mono_all_msix_def Let_def bind_eq_Some_conv split_def legible_down_file split: if_splits option.splits)

lemma legible_loop_file:
  assumes "mono_env_ok (E, U, ks)" and "legible_loop E nb c w = Some (r, c', w')"
  shows "m_same_file c c'"
proof -
  define P where "P = (\<lambda>(E' :: mono_env) (nb :: bool) c (w :: mono_world) (x :: (int + u64) \<times> mono_config \<times> mono_world).
    E' = E \<longrightarrow> m_same_file c (fst (snd x)))"
  have "P E nb c w (r, c', w')"
  proof (rule legible_loop.raw_induct [of P, OF _ assms(2)], goal_cases)
    case (1 f E' nb c w y)
    show ?case unfolding P_def
    proof
      assume E': "E' = E"
      obtain r2 c2 w2 where wl: "wait_legible E (legible_up c) w = (r2, c2, w2)" by (metis prod_cases3)
      obtain r3 c3 w3 where ld: "legible_down E c2 w2 = (r3, c3, w3)" by (metis prod_cases3)
      have c2: "m_same_file c c2" using wait_legible_file [OF assms(1), of "legible_up c" w] by (simp add: wl)
      have "m_same_file c2 c3" using legible_down_file [OF assms(1), of c2 w2] by (simp add: ld)
      with c2 have c3: "m_same_file c c3" by (rule m_same_file_trans)
      have rec: "f E nb c3 w3 = Some y \<Longrightarrow> m_same_file c3 (fst (snd y))" using 1(1) [of E nb c3 w3 y] by (simp add: P_def)
      show "m_same_file c (fst (snd y))" using 1(2) c2 c3 m_same_file_trans [OF c3 rec]
        by (auto simp: E' wl ld Let_def split: option.splits if_splits)
    qed
  qed
  then show ?thesis by (simp add: P_def)
qed

lemma m_read_complete_file:
  "m_read_complete ret um c w = Some (r, um', c', w') \<Longrightarrow> m_same_file c c'"
  by (auto simp: m_read_complete_def famez_release_legible_slot_def Let_def bind_eq_Some_conv)

lemma mono_read_file:
  assumes rd: "bridge_read E U count f um c w = Some (r, um', c', w')" and ok: "mono_env_ok (E, U, ks)"
  shows "m_same_file c c'"
proof -
  obtain x c1 w1 where aw: "famez_await_legible_slot E (f_nonblock f) c w = Some (x, c1, w1)"
    using rd by (auto simp: bridge_read_def bind_eq_Some_conv)
  obtain y c0 w0 where ld: "legible_down E c w = (y, c0, w0)" by (metis prod_cases3)
  have "m_same_file c c0" using legible_down_file [OF ok, of c w] by (simp add: ld)
  then have "m_same_file c c1"
    using aw by (auto simp: famez_await_legible_slot_def ld split: if_splits
        dest!: legible_loop_file [OF ok] intro: m_same_file_trans)
  moreover have "m_same_file c1 c'"
    using rd aw by (auto simp: bridge_read_def Let_def bind_eq_Some_conv split_def simp del: replicate.simps
        split: sum.splits if_splits dest!: m_read_complete_file)
  ultimately show ?thesis by (rule m_same_file_trans)
qed

lemma m_unlock_return_holds:
  assumes "m_unlock_return r c w = Some (r', c', w')" and "m_nr_users c = 1" and "writer_support c = Some b"
    and "wbuf_lock b = 0" and "length (m_wbuf b) = unat (max_msglen c)" and "m_buffers_addr b \<noteq> m_wbuf_addr b"
  shows "mono_holds {m_buffers_addr b, m_wbuf_addr b} c'"
  using assms by (auto simp: m_unlock_return_def mono_holds_def)

lemma mono_write_holds:
  assumes "mono_holds A c" and "bridge_write E U ks ubuf count c w = Some (r, c', w')"
  shows "mono_holds A c'"
proof -
  obtain b where b: "m_nr_users c = 1" "writer_support c = Some b" "wbuf_lock b = 1" "length (m_wbuf b) = unat (max_msglen c)"
    "m_buffers_addr b \<noteq> m_wbuf_addr b" "A = {m_buffers_addr b, m_wbuf_addr b}" using assms(1) by (auto simp: mono_holds_def)
  obtain ret got where cp: "copy_from_user U ubuf (unat count) = (ret, got)" by (metis surj_pair)
  show ?thesis using assms b
    by (auto simp: bridge_write_def wbuf_down_def cp Let_def bind_eq_Some_conv split: if_splits
        dest!: memcpy_length put_byte_length m_unlock_return_holds)
      (auto simp: Let_def bind_eq_Some_conv split: option.splits sum.splits dest!: m_unlock_return_holds)
qed

interpretation mono_bridge: exclusive_file mono_dev mono_env_ok mono_unused mono_holds
proof unfold_locales
  show "cd_open mono_dev c h = Some (- EBUSY, c, h)" if "mono_holds A c" for A c h
    using that mono_open_busy by (simp add: mono_holds_def)
  show "mono_holds A c'" if "mono_holds A c" "1 < n" "cd_flush mono_dev (file_of n) c = (r, c')" for A c n r c'
    using that by (simp add: bridge_flush_def file_of_def split: if_splits)
qed (auto simp: mono_open_result mono_last_close dest: mono_isr_file [THEN m_same_file_unused]
      mono_isr_file [THEN m_same_file_holds] mono_read_file [THEN m_same_file_holds] mono_write_holds)

text \<open>
  C25. From one guest's \<open>write\<close> to the other guest's \<open>read\<close> in the monolithic driver. A
  guest writes "\<open>d\<close>:\<open>tx\<close>", where \<open>tx\<close> is not a ping; the write returns the full length
  and rings the bell of \<open>d\<close> once, even if the mailslot still held an unread message. The
  interrupt that bell raises in guest \<open>d\<close>, which maps the same memory, wakes its readers,
  and its \<open>read\<close> returns exactly the sender's number in three digits, a colon and \<open>tx\<close>;
  afterwards the sender's slot is empty and no message is pending.
\<close>

theorem mono_message_delivered:
  assumes "mono_inv a w" and "sleep_keeps_layout E" and "m_clock_runs E" and "m_clock_room E 1 w" and "m_buffers_ok a"
    and "user_env_ok U" and "copy_from_user U ubuf (length ubuf) = (0, got)" and "ubuf = dec_int (int d) @ CHR '':'' # tx"
    and "length ubuf + 1 < unat (max_msglen a)" and "tx \<noteq> []" and "ks (dec_int (int d)) = Inr (of_nat d)"
    and "0 < d" and "d \<le> unat (m_server_id a)" and "\<not> (length tx = 4 \<and> STREQ_N tx ''ping'' 4)" and "length tx < 2 ^ 30"
    and "mono_inv b (m_on_memory_of w v)" and "unat (m_my_id b) = d" and "mono_table_ok b (m_on_memory_of w v)"
    and "msix_entries b = Some (tab, es)" and "word_of_int irq = vector (es ! unat (m_my_id a))" and "unat (m_my_id a) < 1000"
    and "0 < legible_slot_lock b" and "reply = SENDER_ID_FMT (of_nat (unat (m_my_id a))) @ tx" and "length reply \<le> unat count"
    and "user_env_ok UB" and "\<And>off src um. \<exists>um'. copy_to_user UB off src um = (0, um')"
  shows "\<exists>x w' b' v1 v2. bridge_write E U ks ubuf (of_nat (length ubuf)) a w = Some (int (length ubuf), a\<lparr>writer_support := x\<rparr>, w') \<and>
    m_bells w' = m_bells w @ [(d, unat (m_my_id a))] \<and>
    mono_all_msix EB irq b (m_on_memory_of w' v) = Some (IRQ_HANDLED, True, b', v1) \<and>
    bridge_read EB UB count f um b' v1 = Some (int (length reply), stored 0 reply um, b\<lparr>legible_slot := None\<rparr>, v2) \<and>
    m_mail v2 (unat (m_my_id a)) = None"
proof -
  let ?i = "unat (m_my_id a)" let ?p = "m_slot_off (m_bar2_globals w) ?i"
  have l: "unat (of_nat (length tx) :: u64) = length tx" using assms(15) by (intro unat_of_nat_small) simp
  have "d < 2 ^ 16" using assms(13) unsigned_less [of "m_server_id a", where ?'a = nat] by simp
  then have d: "unat (of_nat d :: u32) = d" by (simp add: unat_of_nat)
  obtain x w' where wr: "bridge_write E U ks ubuf (of_nat (length ubuf)) a w = Some (int (length ubuf), a\<lparr>writer_support := x\<rparr>, w')"
    and s: "m_sent a (of_nat d) tx (of_nat (length tx)) w w'"
    using m_write_delivers [where ks = ks, OF assms(1-13)] by blast
  then obtain r where w': "mono_inv a w'" "m_bar2_globals w' = m_bar2_globals w" "m_bells w' = m_bells w @ [(d, ?i)]"
    "m_msg (m_bar2 w' ?p) = tx @ NUL # r" "m_msglen (m_bar2 w' ?p) = of_nat (length tx)"
    by (auto simp: m_sent_def l d)
  have i: "0 < ?i" "?i < unat (nSlots (m_bar2_globals w))" using assms(1) by (simp_all add: mono_inv_def)
  have inv: "mono_inv b (m_on_memory_of w' v)" by (rule m_shared_memory_inv [OF w'(1) assms(16) w'(2)])
  have tab: "mono_table_ok b (m_on_memory_of w' v)" using assms(18) w'(2) by (simp add: mono_table_ok_def)
  have "\<exists>b' v1 v2. mono_all_msix EB irq b (m_on_memory_of w' v) = Some (IRQ_HANDLED, True, b', v1) \<and>
    bridge_read EB UB count f um b' v1 = Some (int (length reply), stored 0 reply um, b\<lparr>legible_slot := None\<rparr>, v2) \<and>
    m_mail v2 ?i = None"
    by (rule m_receive [OF inv tab assms(19,20) i(1) _ assms(21) refl assms(22) _ _ assms(15,14,23,24,25,26)])
      (use i w' in simp_all)
  then show ?thesis using wr w'(3) by blast
qed

definition demo_mwriter :: mono_config where
  "demo_mwriter = demo_mconfig\<lparr>m_nr_users := 1, writer_support := Some \<lparr>m_buffers_addr = 20, m_wbuf_addr = 21,
     m_wbuf = replicate 448 NUL, wbuf_lock = 1\<rparr>\<rparr>"

definition demo_mreader :: mono_config where
  "demo_mreader = demo_mconfig\<lparr>m_my_id := 3, m_my_slot := Some 1536\<rparr>"

lemma demo_mguests_ok:
  "mono_inv demo_mwriter demo_mworld" "m_buffers_ok demo_mwriter" "mono_inv demo_mreader (m_on_memory_of demo_mworld demo_mworld)"
  "mono_table_ok demo_mreader (m_on_memory_of demo_mworld demo_mworld)" "msix_entries demo_mreader = Some (9, demo_table)"
proof -
  have m: "m_on_memory_of demo_mworld demo_mworld = demo_mworld" by (simp add: m_on_memory_of_def)
  show "mono_inv demo_mwriter demo_mworld" using demo_mworld_ok(1) by (simp add: demo_mwriter_def)
  show "m_buffers_ok demo_mwriter" by (simp add: m_buffers_ok_def demo_mwriter_def demo_mconfig_def)
  show "mono_inv demo_mreader (m_on_memory_of demo_mworld demo_mworld)"
    using demo_mworld_ok(1) unfolding m by (simp add: mono_inv_def demo_mreader_def demo_mworld_def demo_mglobals_def m_slot_off_def)
  show "mono_table_ok demo_mreader (m_on_memory_of demo_mworld demo_mworld)"
    using demo_mworld_ok(3) unfolding m by (simp add: mono_table_ok_def demo_mreader_def)
qed (simp add: demo_mreader_def demo_mconfig_def)

theorem mono_message_delivered_witness:
  "\<exists>x w' b' v1 v2. bridge_write demo_menv demo_user (\<lambda>_. Inr 3) (dec_int (int 3) @ '':hello'') 7 demo_mwriter demo_mworld
      = Some (7, demo_mwriter\<lparr>writer_support := x\<rparr>, w') \<and> m_bells w' = [(3, 1)] \<and>
    mono_all_msix demo_menv 41 demo_mreader (m_on_memory_of w' demo_mworld) = Some (IRQ_HANDLED, True, b', v1) \<and>
    bridge_read demo_menv demo_user 64 (file_of 1) (\<lambda>_. NUL) b' v1 = Some (9, stored 0 ''001:hello'' (\<lambda>_. NUL), demo_mreader, v2) \<and>
    m_mail v2 1 = None"
proof -
  let ?u = "dec_int (int 3) @ '':hello''"
  have l: "length ?u = 7" by (simp add: dec_int_def dec_nat.simps)
  have c: "copy_from_user demo_user ?u (length ?u) = (0, ?u)" by (simp add: demo_user_def)
  have b: "m_bells demo_mworld = []" by (simp add: m_bells_def demo_mworld_def)
  have f: "max_msglen demo_mwriter = 448" "m_server_id demo_mwriter = 5" "m_my_id demo_mwriter = 1" "m_my_id demo_mreader = 3"
    "legible_slot_lock demo_mreader = 1" "demo_mreader\<lparr>legible_slot := None\<rparr> = demo_mreader"
    by (simp_all add: demo_mwriter_def demo_mreader_def demo_mconfig_def)
  have rep: "''001:hello'' = SENDER_ID_FMT (of_nat (unat (m_my_id demo_mwriter))) @ ''hello''"
    by (simp add: f SENDER_ID_FMT_def pad0_def dec_u64_def dec_nat.simps digit_char_def digit_chars numeral_2_eq_2)
  have u: "\<exists>um'. copy_to_user demo_user off src um = (0, um')" for off src um by (simp add: demo_user_def)
  have n: "word_of_int 41 = vector (demo_table ! unat (m_my_id demo_mwriter))" by (simp add: f demo_table_def upt_rec)
  have np: "\<not> (length ''hello'' = 4 \<and> STREQ_N ''hello'' ''ping'' 4)" by simp
  show ?thesis
    using mono_message_delivered [where ks = "\<lambda>_. Inr 3", OF demo_mguests_ok(1) demo_menv_ok demo_mworld_ok(2) demo_mguests_ok(2) demo_user_ok c refl _ _ _ _ _ np _
        demo_mguests_ok(3) _ demo_mguests_ok(4,5) n _ _ rep _ demo_user_ok u, of 64 demo_menv "file_of 1" "\<lambda>_. NUL"]
      l b f by simp
qed

section \<open>An interrupted write\<close>

text \<open>
  A writer whose wait for the write buffer is interrupted does not own its semaphore,
  yet \<open>bridge_write\<close> releases it on the way out: the call returns the error, and the count
  has gone up, so that the next writer enters while the owner is still inside.
\<close>

theorem interrupted_write_lets_another_in:
  assumes "writer_support c = Some b" and "wbuf_lock b = 0" and "\<not> count \<ge> max_msglen c - 1"
    and "wbuf_sleep E c w = (ret, c, w)" and "ret \<noteq> 0"
  shows "\<exists>c'. bridge_write E U ks ubuf count c w = Some (ret, c', w) \<and>
    wbuf_down E c' w = Some (0, c, w)"
proof -
  have c: "c\<lparr>writer_support := Some b\<rparr> = c" using assms(1) by simp
  have "bridge_write E U ks ubuf count c w = Some (ret, c\<lparr>writer_support := Some (b\<lparr>wbuf_lock := 1\<rparr>)\<rparr>, w)"
    using assms by (simp add: bridge_write_def wbuf_down_def m_unlock_return_def)
  moreover have "b\<lparr>wbuf_lock := 0\<rparr> = b" using assms(2) by simp
  ultimately show ?thesis using c by (simp add: wbuf_down_def)
qed

definition demo_mbusy :: mono_config where
  "demo_mbusy = demo_mconfig\<lparr>writer_support := Some \<lparr>m_buffers_addr = 20, m_wbuf_addr = 21, m_wbuf = replicate 448 NUL, wbuf_lock = 0\<rparr>\<rparr>"

theorem interrupted_write_lets_another_in_witness:
  "\<exists>c'. bridge_write demo_menv demo_user (\<lambda>_. Inr 3) ''3:hello'' 7 demo_mbusy demo_mworld = Some (- EINTR, c', demo_mworld) \<and>
    wbuf_down demo_menv c' demo_mworld = Some (0, demo_mbusy, demo_mworld)"
proof -
  have b: "writer_support demo_mbusy = Some \<lparr>m_buffers_addr = 20, m_wbuf_addr = 21, m_wbuf = replicate 448 NUL, wbuf_lock = 0\<rparr>"
    by (simp add: demo_mbusy_def)
  show ?thesis
    by (rule interrupted_write_lets_another_in [OF b]) (simp_all add: demo_mbusy_def demo_mconfig_def demo_menv_def)
qed

section \<open>One open at a time\<close>

text \<open>
  C20. The same for the device of the monolithic driver: after any sequence of opens, dups,
  closes, reads, writes and interrupts that starts with no file open, an open file has one
  user and an unlocked write buffer of its own, further opens are refused with \<open>-EBUSY\<close>, the
  last close succeeds and frees what the open allocated, and a closed device holds nothing.
\<close>

theorem mono_open_is_exclusive:
  assumes "file_reach mono_dev mono_env_ok s t" and "fs_refs s = 0" and "m_nr_users (fs_dev s) = 0"
    and "writer_support (fs_dev s) = None" and "wf_heap (fs_heap s)"
  shows "if fs_refs t = 0
    then m_nr_users (fs_dev t) = 0 \<and> writer_support (fs_dev t) = None \<and> k_live (fs_heap t) = k_live (fs_heap s)
    else m_nr_users (fs_dev t) = 1 \<and> m_buffers_ok (fs_dev t) \<and>
      bridge_open (fs_dev t) (fs_heap t) = Some (- EBUSY, fs_dev t, fs_heap t) \<and>
      (fs_refs t = 1 \<longrightarrow> (\<exists>c h. bridge_release (snd (bridge_flush (file_of 1) (fs_dev t))) (fs_heap t) = Some (0, c, h) \<and>
         m_nr_users c = 0 \<and> writer_support c = None \<and> k_live h = k_live (fs_heap s)))"
proof -
  have "mono_unused (fs_dev s)" using assms(3,4) by (simp add: mono_unused_def)
  from mono_bridge.exclusive [OF assms(1,2) this assms(5)] show ?thesis
    by (auto simp: mono_unused_def dest: mono_holds_buffers split: if_splits)
qed

definition demo_mclosed :: "mono_config file_state" where
  "demo_mclosed = \<lparr>fs_dev = demo_mconfig, fs_heap = demo_heap 2, fs_refs = 0\<rparr>"

definition demo_mopened :: "mono_config file_state" where
  "demo_mopened = \<lparr>fs_dev = demo_mconfig\<lparr>m_nr_users := 1, writer_support := Some \<lparr>m_buffers_addr = 0, m_wbuf_addr = 1,
       m_wbuf = replicate 448 NUL, wbuf_lock = 1\<rparr>\<rparr>,
     fs_heap = \<lparr>k_ok = (\<lambda>i. i < 2), k_next = 2, k_live = {0, 1}\<rparr>, fs_refs = 1\<rparr>"

lemma demo_mopened_reached: "file_reach mono_dev mono_env_ok demo_mclosed demo_mopened"
proof -
  have "bridge_open (fs_dev demo_mclosed) (fs_heap demo_mclosed) = Some (0, fs_dev demo_mopened, fs_heap demo_mopened)"
    by (simp add: bridge_open_def demo_mclosed_def demo_mopened_def demo_mconfig_def demo_heap_def kzalloc_def
        m_open_alldone_def insert_commute del: replicate.simps)
  then have "file_step mono_dev mono_env_ok demo_mclosed \<lparr>fs_dev = fs_dev demo_mopened, fs_heap = fs_heap demo_mopened, fs_refs = 1\<rparr>"
    by (intro file_step.open_ok) simp
  from file_reach.step [OF file_reach.start this] show ?thesis by (simp add: demo_mopened_def)
qed

theorem mono_open_is_exclusive_witness:
  "bridge_open (fs_dev demo_mopened) (fs_heap demo_mopened) = Some (- EBUSY, fs_dev demo_mopened, fs_heap demo_mopened) \<and>
    (\<exists>c h. bridge_release (snd (bridge_flush (file_of 1) (fs_dev demo_mopened))) (fs_heap demo_mopened) = Some (0, c, h) \<and>
       m_nr_users c = 0 \<and> writer_support c = None \<and> k_live h = {})"
proof -
  have r: "fs_refs demo_mopened = 1" "k_live (fs_heap demo_mclosed) = {}"
    by (simp_all add: demo_mopened_def demo_mclosed_def demo_heap_def)
  have "fs_refs demo_mclosed = 0" "m_nr_users (fs_dev demo_mclosed) = 0" "writer_support (fs_dev demo_mclosed) = None"
    "wf_heap (fs_heap demo_mclosed)" by (simp_all add: demo_mclosed_def demo_mconfig_def demo_heap_def wf_heap_def)
  from mono_open_is_exclusive [OF demo_mopened_reached this] show ?thesis unfolding r by simp
qed

end
