(* ===== verification/Mono_Config.thy ===== *)
theory Mono_Config
  imports Mono_Bridge
begin

text \<open>
  \<open>kernel/famez/monolithic/famez_config.c\<close>: the configuration of one device, probing and
  removing, and the list of active configurations. The PCI device and what the PCI core
  answers are the records of \<open>Famez_Adapter\<close>; \<open>mono_sys\<close> is the state of the driver in one
  guest. An access through the address of a freed configuration has no result.
\<close>

section \<open>Data\<close>

record mono_sys =
  ms_heap :: kheap
  config_at :: "nat \<Rightarrow> mono_config"
  famez_active_list :: "nat list"
  famez_active_lock :: bool
  ms_devs :: "nat \<Rightarrow> pci_dev"
  ms_irqs :: "nat \<Rightarrow> irq_state"
  ms_worlds :: "nat \<Rightarrow> mono_world"
  ms_misc :: misc_state

record mono_probe_env =
  mp_pci :: "nat \<Rightarrow> pci_env"
  mp_irq :: "nat \<Rightarrow> irq_env"
  mp_kern :: mono_env
  mp_misc_register :: "nat \<Rightarrow> int"

type_synonym config_ptr = "nat \<times> mono_config"

text \<open>\<open>kzalloc(sizeof( *config))\<close>\<close>

definition zero_config :: mono_config where
  "zero_config = \<lparr>m_nr_users = 0, m_pdev = None, teardown_lookup = None, max_msglen = 0, m_my_id = 0, m_server_id = 0,
     m_regs = False, m_globals = False, m_my_slot = None, msix_entries = None, legible_slot = None,
     legible_slot_lock = 0, writer_support = None\<rparr>"

definition m_zero_slot :: "mono_globals \<Rightarrow> mono_mailslot" where
  "m_zero_slot g = \<lparr>m_nodename = replicate 32 NUL, m_msglen = 0, m_peer_id = 0, m_last_responder = 0,
     m_msg = replicate (unat (m_slotsize g - offsetof_msg)) NUL\<rparr>"

section \<open>Mapping, creating and destroying\<close>

definition mono_unmapBARs :: "mono_config \<Rightarrow> pci_dev \<Rightarrow> (mono_config \<times> pci_dev) option" where
  "mono_unmapBARs c d = do {
     _ \<leftarrow> drvdata d;
     Some (c\<lparr>m_regs := False, m_globals := False\<rparr>, pci_release_regions d)
   }"

definition mono_mapBARs :: "pci_env \<Rightarrow> mono_config \<Rightarrow> pci_dev \<Rightarrow> (int \<times> mono_config \<times> pci_dev) option" where
  "mono_mapBARs P c d = do {
     _ \<leftarrow> drvdata d;
     if pci_request_regions P < 0 then Some (pci_request_regions P, c, d)
     else do {
       let d1 = d\<lparr>regions := True\<rparr>;
       let c1 = c\<lparr>m_regs := pci_iomap P 0\<rparr>;
       if \<not> m_regs c1 then do {
         (c2, d2) \<leftarrow> mono_unmapBARs c1 d1;
         Some (- ENOMEM, c2, d2)
       }
       else do {
         let c3 = c1\<lparr>m_globals := pci_iomap P 2\<rparr>;
         if \<not> m_globals c3 then do {
           (c4, d4) \<leftarrow> mono_unmapBARs c3 d1;
           Some (- ENOMEM, c4, d4)
         }
         else Some (0, c3, d1)
       }
     }
   }"

definition destroy_config :: "config_ptr option \<Rightarrow> kheap \<Rightarrow> pci_dev \<Rightarrow> (kheap \<times> pci_dev) option" where
  "destroy_config cp h d =
     (case cp of
        None \<Rightarrow> Some (h, d)
      | Some (addr, c) \<Rightarrow>
          if m_pdev c = None then Some (h, d)
          else do {
            (c1, d1) \<leftarrow> mono_unmapBARs c d;
            let d2 = d1\<lparr>drvdata := None\<rparr>;
            h1 \<leftarrow> kfree (map_option fst (msix_entries c1)) h;
            h2 \<leftarrow> kfree (map_option m_buffers_addr (writer_support c1)) h1;
            h3 \<leftarrow> kfree (Some addr) h2;
            Some (h3, d2)
          })"

text \<open>The label \<open>err_kfree\<close>.\<close>

definition create_config_err ::
  "int \<Rightarrow> config_ptr \<Rightarrow> kheap \<Rightarrow> pci_dev \<Rightarrow> mono_world \<Rightarrow>
     ((int + config_ptr) \<times> kheap \<times> pci_dev \<times> mono_world) option" where
  "create_config_err ret cp h d w = do {
     (h1, d1) \<leftarrow> destroy_config (Some cp) h d;
     Some (Inl ret, h1, d1, w)
   }"

text \<open>
  The own slot is not checked against the number of slots; clearing memory outside the
  slots has no result.
\<close>

definition own_slot :: "pci_env \<Rightarrow> mono_config \<Rightarrow> mono_world \<Rightarrow> (mono_config \<times> mono_world) option" where
  "own_slot P c w = do {
     g \<leftarrow> m_deref_globals c w;
     let p = ucast (m_my_id c) * m_slotsize g;
     _ \<leftarrow> (if 0 < unat (m_my_id c) \<and> unat (m_my_id c) < unat (nSlots g) then Some () else None);
     let m = m_zero_slot g;
     (nn, _) \<leftarrow> snprintf (m_nodename m) 31 (uts_nodename P @ CHR ''.'' # hex02 (devfn P div 8));
     Some (c\<lparr>m_my_slot := Some p\<rparr>, m_put_slot p (m\<lparr>m_nodename := nn\<rparr>) w)
   }"

definition create_config ::
  "pci_env \<Rightarrow> nat \<Rightarrow> kheap \<Rightarrow> pci_dev \<Rightarrow> mono_world \<Rightarrow>
     ((int + config_ptr) \<times> kheap \<times> pci_dev \<times> mono_world) option" where
  "create_config P pd h d w =
     (case kzalloc h of
        (None, h1) \<Rightarrow> Some (Inl (- ENOMEM), h1, d, w)
      | (Some addr, h1) \<Rightarrow> do {
          let c = zero_config\<lparr>m_pdev := Some pd, legible_slot_lock := 1\<rparr>;
          (ret, c1, d1) \<leftarrow> mono_mapBARs P c (d\<lparr>drvdata := Some addr\<rparr>);
          if ret \<noteq> 0 then Some (Inl ret, h1, d1, w)
          else do {
            g \<leftarrow> m_deref_globals c1 w;
            if offsetof_msg \<noteq> msg_offset g then create_config_err (- EINVAL) (addr, c1) h1 d1 w
            else if m_slotsize g \<le> msg_offset g then create_config_err (- EINVAL) (addr, c1) h1 d1 w
            else do {
              let c2 = c1\<lparr>max_msglen := m_slotsize g - msg_offset g, m_my_id := ucast (IVPosition (m_bar0 w)),
                m_server_id := ucast (nSlots g - 1)\<rparr>;
              (case kzalloc h1 of
                 (None, h2) \<Rightarrow> create_config_err (- ENOMEM) (addr, c2) h2 d1 w
               | (Some tab, h2) \<Rightarrow> do {
                   let c3 = c2\<lparr>msix_entries := Some (tab, replicate (unat (nSlots g)) \<lparr>vector = 0, entry = 0\<rparr>)\<rparr>;
                   (c4, w4) \<leftarrow> own_slot P c3 w;
                   Some (Inr (addr, c4), h2, d1, w4)
                 })
            }
          }
        })"

section \<open>Probing\<close>

definition config_ref :: "nat \<Rightarrow> mono_sys \<Rightarrow> mono_config option" where
  "config_ref addr y = (if addr \<in> k_live (ms_heap y) then Some (config_at y addr) else None)"

definition put_config :: "nat \<Rightarrow> mono_config \<Rightarrow> mono_sys \<Rightarrow> mono_sys" where
  "put_config addr c y = y\<lparr>config_at := (config_at y)(addr := c)\<rparr>"

definition put_mdev :: "nat \<Rightarrow> pci_dev \<Rightarrow> mono_sys \<Rightarrow> mono_sys" where
  "put_mdev pd d y = y\<lparr>ms_devs := (ms_devs y)(pd := d)\<rparr>"

definition put_mirqs :: "nat \<Rightarrow> irq_state \<Rightarrow> mono_sys \<Rightarrow> mono_sys" where
  "put_mirqs pd s y = y\<lparr>ms_irqs := (ms_irqs y)(pd := s)\<rparr>"

definition put_mworld :: "nat \<Rightarrow> mono_world \<Rightarrow> mono_sys \<Rightarrow> mono_sys" where
  "put_mworld pd w y = y\<lparr>ms_worlds := (ms_worlds y)(pd := w)\<rparr>"

text \<open>The walks over the list of active configurations follow \<open>cur->pdev\<close>.\<close>

fun active_has_loc :: "mono_probe_env \<Rightarrow> string \<Rightarrow> nat list \<Rightarrow> mono_sys \<Rightarrow> bool option" where
  "active_has_loc E loc [] y = Some False"
| "active_has_loc E loc (k # ks) y = do {
     cur \<leftarrow> config_ref k y;
     pd \<leftarrow> m_pdev cur;
     if card_loc (mp_pci E pd) = loc then Some True else active_has_loc E loc ks y
   }"

fun active_del_loc :: "mono_probe_env \<Rightarrow> string \<Rightarrow> nat list \<Rightarrow> mono_sys \<Rightarrow> nat list option" where
  "active_del_loc E loc [] y = Some []"
| "active_del_loc E loc (k # ks) y = do {
     cur \<leftarrow> config_ref k y;
     pd \<leftarrow> m_pdev cur;
     rest \<leftarrow> active_del_loc E loc ks y;
     Some (if card_loc (mp_pci E pd) = loc then rest else k # rest)
   }"

text \<open>The labels of \<open>famez_probe\<close>, in the order they fall through.\<close>

definition mono_disable_device :: "int \<Rightarrow> nat option \<Rightarrow> nat \<Rightarrow> mono_sys \<Rightarrow> (int \<times> mono_sys) option" where
  "mono_disable_device ret addr pd y = do {
     let d = (ms_devs y pd)\<lparr>enabled := False\<rparr>;
     cp \<leftarrow> (case addr of None \<Rightarrow> Some None | Some p \<Rightarrow> do { c \<leftarrow> config_ref p y; Some (Some (p, c)) });
     (h1, d1) \<leftarrow> destroy_config cp (ms_heap y) d;
     Some (ret, put_mdev pd d1 (y\<lparr>ms_heap := h1\<rparr>))
   }"

definition mono_teardown_irqs :: "nat \<Rightarrow> nat \<Rightarrow> mono_sys \<Rightarrow> mono_sys option" where
  "mono_teardown_irqs addr pd y = do {
     c \<leftarrow> config_ref addr y;
     (c1, h1, s1) \<leftarrow> famez_MSIX_teardown c (ms_worlds y pd) (ms_heap y) (ms_irqs y pd);
     Some (put_config addr c1 (put_mirqs pd s1 (y\<lparr>ms_heap := h1\<rparr>)))
   }"

definition mono_teardown_bridge :: "nat \<Rightarrow> mono_sys \<Rightarrow> mono_sys option" where
  "mono_teardown_bridge addr y = do {
     c \<leftarrow> config_ref addr y;
     (c1, h1, m1) \<leftarrow> famez_bridge_teardown c (ms_heap y) (ms_misc y);
     Some (put_config addr c1 (y\<lparr>ms_heap := h1, ms_misc := m1\<rparr>))
   }"

definition err_MSIX_teardown_mono :: "int \<Rightarrow> nat \<Rightarrow> nat \<Rightarrow> mono_sys \<Rightarrow> (int \<times> mono_sys) option" where
  "err_MSIX_teardown_mono ret addr pd y = do {
     y1 \<leftarrow> mono_teardown_irqs addr pd y;
     mono_disable_device ret (Some addr) pd y1
   }"

definition err_bridge_teardown :: "int \<Rightarrow> nat \<Rightarrow> nat \<Rightarrow> mono_sys \<Rightarrow> (int \<times> mono_sys) option" where
  "err_bridge_teardown ret addr pd y = do {
     y1 \<leftarrow> mono_teardown_bridge addr y;
     err_MSIX_teardown_mono ret addr pd y1
   }"

text \<open>"It's a keeper...unless it's already there."\<close>

definition list_config :: "mono_probe_env \<Rightarrow> nat \<Rightarrow> nat \<Rightarrow> mono_sys \<Rightarrow> (int \<times> mono_sys) option" where
  "list_config E addr pd y = do {
     l \<leftarrow> spin_lock (famez_active_lock y);
     dup \<leftarrow> active_has_loc E (card_loc (mp_pci E pd)) (famez_active_list y) y;
     l2 \<leftarrow> spin_unlock l;
     let y1 = y\<lparr>famez_active_lock := l2\<rparr>;
     if dup then Some (- EALREADY, y1)
     else Some (0, y1\<lparr>famez_active_list := famez_active_list y1 @ [addr]\<rparr>)
   }"

text \<open>"Tell the server I'm here."\<close>

definition imalive :: "mono_config \<Rightarrow> string" where
  "imalive c = ''Client '' @ dec_nat (unat (m_my_id c)) @ '' is ready''"

definition tell_server :: "mono_probe_env \<Rightarrow> nat \<Rightarrow> nat \<Rightarrow> mono_sys \<Rightarrow> (int \<times> mono_sys) option" where
  "tell_server E addr pd y = do {
     c \<leftarrow> config_ref addr y;
     (tx, _) \<leftarrow> snprintf (replicate 80 NUL) 79 (imalive c);
     (ret, w1) \<leftarrow> famez_sendmail (mp_kern E) (ucast (m_server_id c)) tx (of_nat (strlen tx)) c (ms_worlds y pd);
     Some (if ret > 0 then (if ret = int (strlen tx) then 0 else - EIO) else ret, put_mworld pd w1 y)
   }"

text \<open>The last steps of \<open>famez_probe\<close>, from \<open>famez_bridge_setup\<close> on, and those from \<open>create_config\<close> on.\<close>

definition probe_bridge :: "mono_probe_env \<Rightarrow> nat \<Rightarrow> nat \<Rightarrow> mono_config \<Rightarrow> mono_sys \<Rightarrow> (int \<times> mono_sys) option" where
  "probe_bridge E addr pd c y = do {
     (ret, c1, h1, m1) \<leftarrow> famez_bridge_setup (mp_misc_register E pd) (devfn (mp_pci E pd)) c (ms_heap y) (ms_misc y);
     let y1 = put_config addr c1 (y\<lparr>ms_heap := h1, ms_misc := m1\<rparr>);
     if ret \<noteq> 0 then err_MSIX_teardown_mono ret addr pd y1
     else do {
       (ret2, y2) \<leftarrow> list_config E addr pd y1;
       if ret2 \<noteq> 0 then err_bridge_teardown ret2 addr pd y2
       else tell_server E addr pd y2
     }
   }"

definition probe_config :: "mono_probe_env \<Rightarrow> nat \<Rightarrow> mono_sys \<Rightarrow> (int \<times> mono_sys) option" where
  "probe_config E pd y = do {
     (r, h1, d1, w1) \<leftarrow> create_config (mp_pci E pd) pd (ms_heap y) (ms_devs y pd) (ms_worlds y pd);
     let y1 = put_mdev pd d1 (put_mworld pd w1 (y\<lparr>ms_heap := h1\<rparr>));
     (case r of
        Inl e \<Rightarrow> mono_disable_device e None pd y1
      | Inr (addr, c) \<Rightarrow> do {
          (ret, c2, h2, s2) \<leftarrow> famez_MSIX_setup (mp_irq E pd) c w1 h1 (ms_irqs y1 pd);
          let y2 = put_config addr c2 (put_mirqs pd s2 (y1\<lparr>ms_heap := h2\<rparr>));
          if ret \<noteq> 0 then mono_disable_device ret (Some addr) pd y2
          else probe_bridge E addr pd c2 y2
        })
   }"

definition famez_probe :: "mono_probe_env \<Rightarrow> nat \<Rightarrow> mono_sys \<Rightarrow> (int \<times> mono_sys) option" where
  "famez_probe E pd y =
     (let P = mp_pci E pd; d = ms_devs y pd in
      if drvdata d \<noteq> None then Some (- EALREADY, y)
      else if pci_enable_device P < 0 then Some (pci_enable_device P, y)
      else
        let y1 = put_mdev pd (d\<lparr>enabled := True\<rparr>) y in
        if revision P \<noteq> 1 \<or> \<not> msix_cap P \<or> \<not> pci_resource_start_1 P
        then mono_disable_device (- ENODEV) None pd y1
        else probe_config E pd y1)"

section \<open>Removing\<close>

definition famez_remove :: "mono_probe_env \<Rightarrow> nat \<Rightarrow> mono_sys \<Rightarrow> mono_sys option" where
  "famez_remove E pd y =
     (case drvdata (ms_devs y pd) of
        None \<Rightarrow> Some y
      | Some addr \<Rightarrow> do {
          y1 \<leftarrow> mono_teardown_bridge addr y;
          y2 \<leftarrow> mono_teardown_irqs addr pd y1;
          let y3 = put_mdev pd ((ms_devs y2 pd)\<lparr>enabled := False\<rparr>) y2;
          l \<leftarrow> spin_lock (famez_active_lock y3);
          ks \<leftarrow> active_del_loc E (card_loc (mp_pci E pd)) (famez_active_list y3) y3;
          l2 \<leftarrow> spin_unlock l;
          let y4 = y3\<lparr>famez_active_list := ks, famez_active_lock := l2\<rparr>;
          c \<leftarrow> config_ref addr y4;
          (h5, d5) \<leftarrow> destroy_config (Some (addr, c)) (ms_heap y4) (ms_devs y4 pd);
          Some (put_mdev pd d5 (y4\<lparr>ms_heap := h5\<rparr>))
        })"

section \<open>Creating a configuration\<close>

lemmas m_put_defs = put_config_def put_mdev_def put_mirqs_def put_mworld_def

text \<open>What a new configuration holds and how it is set.\<close>

definition config_made ::
  "pci_env \<Rightarrow> nat \<Rightarrow> kheap \<Rightarrow> pci_dev \<Rightarrow> mono_world \<Rightarrow> config_ptr \<Rightarrow> kheap \<Rightarrow> pci_dev \<Rightarrow> mono_world \<Rightarrow> bool" where
  "config_made P pd h d w cp h' d' w' \<longleftrightarrow>
     (\<exists>tab. fst cp \<noteq> tab \<and> fst cp \<notin> k_live h \<and> tab \<notin> k_live h \<and> k_live h' = insert tab (insert (fst cp) (k_live h)) \<and>
        d' = d\<lparr>drvdata := Some (fst cp), regions := True\<rparr> \<and> m_bar2_globals w' = m_bar2_globals w \<and> m_jiffies w' = m_jiffies w \<and>
        msix_entries (snd cp) = Some (tab, replicate (unat (nSlots (m_bar2_globals w))) \<lparr>vector = 0, entry = 0\<rparr>)) \<and>
     m_pdev (snd cp) = Some pd \<and> writer_support (snd cp) = None \<and> teardown_lookup (snd cp) = None \<and>
     m_nr_users (snd cp) = 0 \<and> legible_slot (snd cp) = None \<and> legible_slot_lock (snd cp) = 1 \<and>
     m_regs (snd cp) \<and> m_globals (snd cp) \<and>
     (mono_geometry (m_bar2_globals w) \<and>
      (\<forall>p. length (m_msg (m_bar2 w p)) = unat (m_slotsize (m_bar2_globals w) - offsetof_msg)) \<longrightarrow> mono_inv (snd cp) w')"

text \<open>The own id is that of a slot.\<close>

definition own_id_ok :: "mono_world \<Rightarrow> bool" where
  "own_id_ok w \<longleftrightarrow> 0 < unat (ucast (IVPosition (m_bar0 w)) :: u16) \<and>
     unat (ucast (IVPosition (m_bar0 w)) :: u16) < unat (nSlots (m_bar2_globals w))"

lemma own_slot_run:
  assumes "m_globals c" and "0 < unat (m_my_id c)" and "unat (m_my_id c) < unat (nSlots (m_bar2_globals w))"
  shows "\<exists>nn. own_slot P c w = Some (c\<lparr>m_my_slot := Some (m_slot_off (m_bar2_globals w) (unat (m_my_id c)))\<rparr>,
    m_put_slot (m_slot_off (m_bar2_globals w) (unat (m_my_id c))) ((m_zero_slot (m_bar2_globals w))\<lparr>m_nodename := nn\<rparr>) w)"
proof -
  have "\<exists>r. snprintf (replicate 32 NUL) 31 t = Some r" for t by (simp add: snprintf_def Let_def memcpy_def)
  then obtain r where "snprintf (replicate 32 NUL) 31 (uts_nodename P @ CHR ''.'' # hex02 (devfn P div 8)) = Some r" by blast
  then show ?thesis using assms
    by (cases r) (auto simp: own_slot_def m_zero_slot_def m_slot_off_def Let_def)
qed

lemma server_id_last:
  assumes "mono_geometry g"
  shows "unat (ucast (nSlots g - 1) :: u16) = unat (nSlots g) - 1"
proof -
  have "1 \<le> nSlots g" using assms by (simp add: mono_geometry_def word_le_nat_alt)
  then have "unat (nSlots g - 1) = unat (nSlots g) - 1" by (simp add: unat_sub)
  moreover have "unat (nSlots g) - 1 < 2 ^ 16" using assms unfolding mono_geometry_def by linarith
  ultimately show ?thesis by (simp add: unsigned_ucast_eq take_bit_nat_eq_self)
qed

lemma destroy_config_err:
  assumes "m_pdev c \<noteq> None" and "msix_entries c = None" and "writer_support c = None" and "addr \<in> k_live h" and "drvdata d \<noteq> None"
  shows "create_config_err e (addr, c) h d w =
    Some (Inl e, h\<lparr>k_live := k_live h - {addr}\<rparr>, (pci_release_regions d)\<lparr>drvdata := None\<rparr>, w)"
  using assms by (auto simp: create_config_err_def destroy_config_def mono_unmapBARs_def)

lemma mono_mapBARs_result:
  assumes "drvdata d \<noteq> None" and "pci_request_regions P \<le> 0"
  shows "\<exists>ret c' d'. mono_mapBARs P c d = Some (ret, c', d') \<and> drvdata d' = drvdata d \<and>
    (if ret = 0 then c' = c\<lparr>m_regs := True, m_globals := True\<rparr> \<and> d' = d\<lparr>regions := True\<rparr> else ret < 0)"
proof -
  obtain q where q: "drvdata d = Some q" using assms(1) by blast
  consider "pci_request_regions P < 0" | "pci_request_regions P = 0" "\<not> pci_iomap P 0"
    | "pci_request_regions P = 0" "pci_iomap P 0" "\<not> pci_iomap P 2"
    | "pci_request_regions P = 0" "pci_iomap P 0" "pci_iomap P 2" using assms(2) by fastforce
  then show ?thesis
    by cases (use q in \<open>auto simp: mono_mapBARs_def mono_unmapBARs_def Let_def pci_release_regions_def\<close>)
qed

text \<open>The outcome of creating a configuration: an error, or everything in place.\<close>

definition create_outcome ::
  "pci_env \<Rightarrow> nat \<Rightarrow> kheap \<Rightarrow> pci_dev \<Rightarrow> mono_world \<Rightarrow> (int + config_ptr) \<times> kheap \<times> pci_dev \<times> mono_world \<Rightarrow> bool" where
  "create_outcome P pd h d w = (\<lambda>(r, h', d', w'). wf_heap h' \<and>
     (case r of
        Inl e \<Rightarrow> e < 0 \<and> w' = w \<and> (k_live h' = k_live h \<and> drvdata d' = None \<or>
          (\<exists>addr. addr \<notin> k_live h \<and> k_live h' = insert addr (k_live h) \<and> drvdata d' = Some addr))
      | Inr cp \<Rightarrow> config_made P pd h d w cp h' d' w'))"

lemma create_err_outcome:
  assumes "m_pdev c \<noteq> None" and "msix_entries c = None" and "writer_support c = None" and "drvdata d' \<noteq> None" and "e < 0"
    and "addr \<notin> k_live h" and "k_live h' = insert addr (k_live h)" and "wf_heap h'"
  shows "\<exists>x. create_config_err e (addr, c) h' d' w = Some x \<and> create_outcome P pd h d w x"
proof -
  have "wf_heap (h'\<lparr>k_live := k_live h\<rparr>)" using assms(7,8) by (auto intro: wf_heap_shrink)
  then show ?thesis using destroy_config_err [OF assms(1-3) _ assms(4), of addr h' e w] assms(5-7) by (simp add: create_outcome_def)
qed

text \<open>Once the device is mapped: the checks of the mailbox, the table of vectors and the own slot.\<close>

lemma create_table_outcome:
  assumes z: "kzalloc h = (Some addr, h1)" "wf_heap h" and own: "own_id_ok w"
    and m: "mono_mapBARs P (zero_config\<lparr>m_pdev := Some pd, legible_slot_lock := 1\<rparr>) (d\<lparr>drvdata := Some addr\<rparr>) = Some (0, c1, d1)"
    and c1: "c1 = zero_config\<lparr>m_pdev := Some pd, legible_slot_lock := 1, m_regs := True, m_globals := True\<rparr>"
      "d1 = d\<lparr>drvdata := Some addr, regions := True\<rparr>"
    and ok: "offsetof_msg = msg_offset (m_bar2_globals w)" "\<not> m_slotsize (m_bar2_globals w) \<le> msg_offset (m_bar2_globals w)"
  shows "\<exists>x. create_config P pd h d w = Some x \<and> create_outcome P pd h d w x"
proof -
  let ?g = "m_bar2_globals w"
  let ?c2 = "c1\<lparr>max_msglen := m_slotsize ?g - msg_offset ?g, m_my_id := ucast (IVPosition (m_bar0 w)), m_server_id := ucast (nSlots ?g - 1)\<rparr>"
  have a: "addr \<notin> k_live h" "k_live h1 = insert addr (k_live h)" "wf_heap h1" using kzalloc_Some [OF z] by simp_all
  obtain q h2 where z2: "kzalloc h1 = (q, h2)" by (cases "kzalloc h1")
  have wf2: "wf_heap h2" using kzalloc_wf [OF z2 a(3)] .
  show ?thesis
  proof (cases q)
    case None
    then have l: "k_live h2 = insert addr (k_live h)" using kzalloc_None [of h1 h2] z2 a(2) by simp
    have "create_config P pd h d w = create_config_err (- ENOMEM) (addr, ?c2) h2 d1 w"
      using ok z(1) m c1 z2 None by (simp add: create_config_def)
    then show ?thesis using create_err_outcome [OF _ _ _ _ _ a(1) l wf2, of ?c2 d1 "- ENOMEM" w P pd d] by (simp add: c1 zero_config_def)
  next
    case (Some tab)
    have t: "tab \<notin> k_live h1" "k_live h2 = insert tab (k_live h1)" using kzalloc_Some [of h1 tab h2] z2 Some a(3) by simp_all
    let ?c3 = "?c2\<lparr>msix_entries := Some (tab, replicate (unat (nSlots ?g)) \<lparr>vector = 0, entry = 0\<rparr>)\<rparr>"
    have "m_globals ?c3" "0 < unat (m_my_id ?c3)" "unat (m_my_id ?c3) < unat (nSlots ?g)"
      using own c1 by (simp_all add: own_id_ok_def)
    from own_slot_run [OF this] obtain nn where os: "own_slot P ?c3 w = Some (?c3\<lparr>m_my_slot := Some (m_slot_off ?g (unat (m_my_id ?c3)))\<rparr>,
      m_put_slot (m_slot_off ?g (unat (m_my_id ?c3))) ((m_zero_slot ?g)\<lparr>m_nodename := nn\<rparr>) w)" by blast
    have "create_config P pd h d w = Some (Inr (addr, ?c3\<lparr>m_my_slot := Some (m_slot_off ?g (unat (m_my_id ?c3)))\<rparr>), h2, d1,
      m_put_slot (m_slot_off ?g (unat (m_my_id ?c3))) ((m_zero_slot ?g)\<lparr>m_nodename := nn\<rparr>) w)"
      using ok z(1) m c1 z2 Some os by (simp add: create_config_def del: unsigned_of_nat)
    then show ?thesis using a t wf2 own ok server_id_last [of ?g]
      by (auto simp: create_outcome_def config_made_def c1 zero_config_def mono_inv_def m_zero_slot_def own_id_ok_def)
  qed
qed

text \<open>
  Creating always returns. A failure frees what was allocated, except that a failure to
  map the device leaves the new configuration allocated and bound to the device.
\<close>

lemma create_config_result:
  assumes wf: "wf_heap h" and d: "drvdata d = None" and rr: "pci_request_regions P \<le> 0" and own: "own_id_ok w"
  shows "\<exists>x. create_config P pd h d w = Some x \<and> create_outcome P pd h d w x"
proof -
  let ?g = "m_bar2_globals w"
  obtain p h1 where z: "kzalloc h = (p, h1)" by (cases "kzalloc h")
  have wf1: "wf_heap h1" using kzalloc_wf [OF z wf] .
  show ?thesis
  proof (cases p)
    case None
    then show ?thesis using z wf1 kzalloc_None [of h h1] d by (simp add: create_config_def create_outcome_def)
  next
    case (Some addr)
    have a: "addr \<notin> k_live h" "k_live h1 = insert addr (k_live h)" using kzalloc_Some [of h addr h1] z Some wf by simp_all
    let ?c = "zero_config\<lparr>m_pdev := Some pd, legible_slot_lock := 1\<rparr>" and ?d = "d\<lparr>drvdata := Some addr\<rparr>"
    obtain ret c1 d1 where m: "mono_mapBARs P ?c ?d = Some (ret, c1, d1)" "drvdata d1 = Some addr"
      "if ret = 0 then c1 = ?c\<lparr>m_regs := True, m_globals := True\<rparr> \<and> d1 = ?d\<lparr>regions := True\<rparr> else ret < 0"
      using mono_mapBARs_result [OF _ rr, of ?d ?c] by auto
    consider "ret \<noteq> 0" | "ret = 0" "offsetof_msg \<noteq> msg_offset ?g \<or> m_slotsize ?g \<le> msg_offset ?g"
      | "ret = 0" "offsetof_msg = msg_offset ?g" "\<not> m_slotsize ?g \<le> msg_offset ?g" by blast
    then show ?thesis
    proof cases
      case 1
      then show ?thesis using z Some m a wf1 by (simp add: create_config_def create_outcome_def)
    next
      case 2
      have "create_config P pd h d w = create_config_err (- EINVAL) (addr, c1) h1 d1 w"
        using 2 z Some m by (simp add: create_config_def)
      then show ?thesis using create_err_outcome [OF _ _ _ _ _ a wf1, of c1 d1 "- EINVAL" w P pd d] 2(1) m(2,3) by (simp add: zero_config_def)
    next
      case 3
      show ?thesis by (rule create_table_outcome [OF z [unfolded Some] wf own _ _ _ 3(2,3)]) (use 3(1) m in simp_all)
    qed
  qed
qed

section \<open>The device file and the list\<close>

lemma hex02_length:
  assumes "n < 256"
  shows "length (hex02 n) = 2"
proof -
  have "n div 16 < 16" using assms less_mult_imp_div_less [of n 16 16] by simp
  then have q: "hex_nat (n div 16) = [hex_char (n div 16)]" by (subst hex_nat.simps) simp
  have "length (hex_nat n) = (if n < 16 then 1 else 2)" by (subst hex_nat.simps) (simp add: q)
  then show ?thesis by (simp add: hex02_def pad0_def)
qed

lemma bridge_setup_result:
  assumes wf: "wf_heap h" and fn: "fn < 256"
  shows "\<exists>ret c' h' ms'. famez_bridge_setup reg fn c h ms = Some (ret, c', h', ms') \<and> wf_heap h' \<and>
    k_live h \<subseteq> k_live h' \<and> (\<exists>tl. c' = c\<lparr>teardown_lookup := tl\<rparr>) \<and>
    (ret = 0 \<longrightarrow> (\<exists>lk nm tx. lk \<noteq> nm \<and> lk \<notin> k_live h \<and> nm \<notin> k_live h \<and> k_live h' = insert nm (insert lk (k_live h)) \<and>
       c' = c\<lparr>teardown_lookup := Some \<lparr>lookup_addr = lk, miscdev_name_addr = nm, miscdev_name = tx\<rparr>\<rparr> \<and>
       ms' = ms\<lparr>misc_devs := insert lk (misc_devs ms)\<rparr>))"
proof -
  obtain p h1 where 1: "kzalloc h = (p, h1)" by (metis surj_pair)
  obtain q h2 where 2: "kzalloc h1 = (q, h2)" by (metis surj_pair)
  have wf1: "wf_heap h1" and wf2: "wf_heap h2" using kzalloc_wf [OF 1 wf] kzalloc_wf [OF 2] by simp_all
  have c: "\<exists>tl. c = c\<lparr>teardown_lookup := tl\<rparr>" by (intro exI [of _ "teardown_lookup c"]) simp
  have "length (hex02 (fn div 8)) = 2" using fn by (intro hex02_length) simp
  then obtain tx where tx: "sprintf (replicate 32 NUL) (miscdev_devname fn) = Some tx"
    by (simp add: sprintf_def miscdev_devname_def)
  show ?thesis
  proof (cases p)
    case None
    then show ?thesis using 1 wf1 c kzalloc_None [of h h1] by (simp add: famez_bridge_setup_def)
  next
    case (Some lk)
    have a: "lk \<notin> k_live h" "k_live h1 = insert lk (k_live h)" using kzalloc_Some [of h lk h1] 1 Some wf by simp_all
    show ?thesis
    proof (cases q)
      case None
      then have "k_live h2 = insert lk (k_live h)" using kzalloc_None [of h1 h2] 2 a(2) by simp
      moreover have "wf_heap (h2\<lparr>k_live := k_live h2 - {lk}\<rparr>)" using wf2 by (auto intro: wf_heap_shrink)
      ultimately show ?thesis using 1 2 Some None c a(1) by (simp add: famez_bridge_setup_def)
    next
      case q: (Some nm)
      have n: "nm \<notin> k_live h1" "k_live h2 = insert nm (k_live h1)" using kzalloc_Some [of h1 nm h2] 2 q wf1 by simp_all
      have "famez_bridge_setup reg fn c h ms =
        Some (reg, c\<lparr>teardown_lookup := Some \<lparr>lookup_addr = lk, miscdev_name_addr = nm, miscdev_name = tx\<rparr>\<rparr>, h2,
          if reg = 0 then ms\<lparr>misc_devs := insert lk (misc_devs ms)\<rparr> else ms)"
        unfolding famez_bridge_setup_def 1 Some 2 q option.case prod.case tx bind.bind_lunit Let_def ..
      moreover have "lk \<noteq> nm" "nm \<notin> k_live h" "k_live h2 = insert nm (insert lk (k_live h))" using a n by auto
      ultimately show ?thesis using a(1) wf2
        by (intro exI conjI impI exI [of _ lk] exI [of _ nm] exI [of _ tx]) (assumption | rule refl | simp add: subset_insertI2)+
    qed
  qed
qed

lemma bridge_teardown_run:
  assumes "teardown_lookup c = Some lk" and "lookup_addr lk \<in> misc_devs ms" and "lookup_addr lk \<noteq> miscdev_name_addr lk"
    and "lookup_addr lk \<in> k_live h" and "miscdev_name_addr lk \<in> k_live h"
  shows "famez_bridge_teardown c h ms = Some (c\<lparr>teardown_lookup := None\<rparr>,
    h\<lparr>k_live := k_live h - {miscdev_name_addr lk} - {lookup_addr lk}\<rparr>, ms\<lparr>misc_devs := misc_devs ms - {lookup_addr lk}\<rparr>)"
  using assms by (simp add: famez_bridge_teardown_def)

text \<open>Every active configuration is alive and knows its device, which is not \<open>loc\<close>.\<close>

definition active_ok :: "mono_probe_env \<Rightarrow> string \<Rightarrow> nat list \<Rightarrow> mono_sys \<Rightarrow> bool" where
  "active_ok E loc ks y \<longleftrightarrow>
     (\<forall>k \<in> set ks. k \<in> k_live (ms_heap y) \<and> (\<exists>pd. m_pdev (config_at y k) = Some pd \<and> card_loc (mp_pci E pd) \<noteq> loc))"

lemma active_del_loc_run:
  "active_ok E loc ks y \<Longrightarrow> active_del_loc E loc ks y = Some ks"
  by (induction ks) (auto simp: active_ok_def config_ref_def)

lemma active_has_loc_run: "active_ok E loc ks y \<Longrightarrow> active_has_loc E loc ks y = Some False"
  by (induction ks) (auto simp: active_ok_def config_ref_def)

lemma active_del_loc_last:
  assumes "active_ok E loc ks y" and "k \<in> k_live (ms_heap y)" and "m_pdev (config_at y k) = Some pd" and "card_loc (mp_pci E pd) = loc"
  shows "active_del_loc E loc (ks @ [k]) y = Some ks"
  using assms by (induction ks) (auto simp: active_ok_def config_ref_def)

section \<open>Removing what was probed\<close>

text \<open>The state a successful probe leaves behind, relative to the state before it.\<close>

definition mono_probed :: "mono_probe_env \<Rightarrow> nat \<Rightarrow> nat \<Rightarrow> mono_sys \<Rightarrow> mono_sys \<Rightarrow> bool" where
  "mono_probed E pd addr y y' \<longleftrightarrow>
     (\<exists>tab es lk. msix_entries (config_at y' addr) = Some (tab, es) \<and> teardown_lookup (config_at y' addr) = Some lk \<and>
        distinct [addr, tab, lookup_addr lk, miscdev_name_addr lk] \<and>
        {addr, tab, lookup_addr lk, miscdev_name_addr lk} \<inter> k_live (ms_heap y) = {} \<and>
        k_live (ms_heap y') = k_live (ms_heap y) \<union> {addr, tab, lookup_addr lk, miscdev_name_addr lk} \<and>
        misc_devs (ms_misc y') = insert (lookup_addr lk) (misc_devs (ms_misc y))) \<and>
     drvdata (ms_devs y' pd) = Some addr \<and> regions (ms_devs y' pd) \<and>
     m_pdev (config_at y' addr) = Some pd \<and> m_globals (config_at y' addr) \<and> writer_support (config_at y' addr) = None \<and>
     mono_irqs_on (config_at y' addr) (ms_worlds y' pd) (ms_heap y') (ms_irqs y' pd) \<and>
     famez_active_list y' = famez_active_list y @ [addr] \<and> \<not> famez_active_lock y' \<and>
     (\<forall>k. k \<noteq> addr \<longrightarrow> config_at y' k = config_at y k)"

text \<open>The state in which the device file and the interrupts of a device are torn down, but not its configuration.\<close>

definition detached_state :: "nat \<Rightarrow> nat \<Rightarrow> kheap \<Rightarrow> misc_state \<Rightarrow> mono_sys \<Rightarrow> mono_sys" where
  "detached_state addr pd h m y =
     put_config addr ((config_at y addr)\<lparr>teardown_lookup := None, msix_entries := None\<rparr>)
       (put_mirqs pd \<lparr>attached = {}, vectors_on = False\<rparr> (y\<lparr>ms_heap := h, ms_misc := m\<rparr>))"

lemma detached_state_simps [simp]:
  "ms_heap (detached_state addr pd h m y) = h" "ms_misc (detached_state addr pd h m y) = m"
  "config_at (detached_state addr pd h m y) k =
     (if k = addr then (config_at y addr)\<lparr>teardown_lookup := None, msix_entries := None\<rparr> else config_at y k)"
  "ms_devs (detached_state addr pd h m y) = ms_devs y" "famez_active_list (detached_state addr pd h m y) = famez_active_list y"
  "famez_active_lock (detached_state addr pd h m y) = famez_active_lock y"
  "ms_irqs (detached_state addr pd h m y) q = (if q = pd then \<lparr>attached = {}, vectors_on = False\<rparr> else ms_irqs y q)"
  by (simp_all add: detached_state_def m_put_defs)

lemma teardowns_of_probed:
  assumes pr: "mono_probed E pd addr y y'" and fresh: "\<forall>k \<in> misc_devs (ms_misc y). k \<in> k_live (ms_heap y)"
  obtains h m y1 where "mono_teardown_bridge addr y' = Some y1" and "mono_teardown_irqs addr pd y1 = Some (detached_state addr pd h m y')"
    and "k_live h = insert addr (k_live (ms_heap y))" and "misc_devs m = misc_devs (ms_misc y)"
proof -
  let ?c = "config_at y' addr" and ?L = "k_live (ms_heap y)"
  obtain tab es lk where t: "msix_entries ?c = Some (tab, es)" "teardown_lookup ?c = Some lk"
    "distinct [addr, tab, lookup_addr lk, miscdev_name_addr lk]"
    "{addr, tab, lookup_addr lk, miscdev_name_addr lk} \<inter> ?L = {}"
    "k_live (ms_heap y') = ?L \<union> {addr, tab, lookup_addr lk, miscdev_name_addr lk}"
    "misc_devs (ms_misc y') = insert (lookup_addr lk) (misc_devs (ms_misc y))"
    and r: "m_globals ?c" "mono_irqs_on ?c (ms_worlds y' pd) (ms_heap y') (ms_irqs y' pd)" using pr by (auto simp: mono_probed_def)
  let ?h1 = "(ms_heap y')\<lparr>k_live := k_live (ms_heap y') - {miscdev_name_addr lk} - {lookup_addr lk}\<rparr>"
  let ?m1 = "(ms_misc y')\<lparr>misc_devs := misc_devs (ms_misc y') - {lookup_addr lk}\<rparr>"
  let ?c1 = "?c\<lparr>teardown_lookup := None\<rparr>"
  define y1 where "y1 = put_config addr ?c1 (y'\<lparr>ms_heap := ?h1, ms_misc := ?m1\<rparr>)"
  have "famez_bridge_teardown ?c (ms_heap y') (ms_misc y') = Some (?c1, ?h1, ?m1)"
    using t by (intro bridge_teardown_run) auto
  then have s1: "mono_teardown_bridge addr y' = Some y1"
    using t(5) by (simp add: mono_teardown_bridge_def config_ref_def y1_def)
  have k1: "k_live ?h1 = ?L \<union> {addr, tab}" using t(3,4,5) by auto
  have "mono_irqs_on ?c1 (ms_worlds y' pd) ?h1 (ms_irqs y' pd)"
    using r(2) t(1) k1 by (auto simp: mono_irqs_on_def mono_table_ok_def)
  then have td: "famez_MSIX_teardown ?c1 (ms_worlds y' pd) ?h1 (ms_irqs y' pd) =
      Some (?c1\<lparr>msix_entries := None\<rparr>, ?h1\<lparr>k_live := k_live ?h1 - {tab}\<rparr>, \<lparr>attached = {}, vectors_on = False\<rparr>)"
    using r(1) t(1) by (intro MSIX_teardown_result) simp_all
  let ?h2 = "?h1\<lparr>k_live := k_live ?h1 - {tab}\<rparr>"
  have "addr \<in> k_live ?h1" using k1 by blast
  then have s2: "mono_teardown_irqs addr pd y1 = Some (detached_state addr pd ?h2 ?m1 y')" using td
    by (simp add: mono_teardown_irqs_def config_ref_def y1_def detached_state_def m_put_defs)
  have "k_live ?h2 = insert addr ?L" using k1 t(3,4) by auto
  moreover have "misc_devs ?m1 = misc_devs (ms_misc y)" using t(4,6) fresh by auto
  ultimately show thesis using that [OF s1 s2] by simp
qed

lemma remove_probed:
  assumes pr: "mono_probed E pd addr y y'" and act: "active_ok E (card_loc (mp_pci E pd)) (famez_active_list y) y"
    and fresh: "\<forall>k \<in> misc_devs (ms_misc y). k \<in> k_live (ms_heap y)"
  shows "\<exists>y2. famez_remove E pd y' = Some y2 \<and> k_live (ms_heap y2) = k_live (ms_heap y) \<and>
    famez_active_list y2 = famez_active_list y \<and> ms_irqs y2 pd = \<lparr>attached = {}, vectors_on = False\<rparr> \<and>
    misc_devs (ms_misc y2) = misc_devs (ms_misc y) \<and>
    drvdata (ms_devs y2 pd) = None \<and> \<not> enabled (ms_devs y2 pd) \<and> \<not> regions (ms_devs y2 pd)"
proof -
  let ?c = "config_at y' addr" and ?L = "k_live (ms_heap y)" and ?loc = "card_loc (mp_pci E pd)"
  have r: "drvdata (ms_devs y' pd) = Some addr" "regions (ms_devs y' pd)" "m_pdev ?c = Some pd" "writer_support ?c = None" "addr \<notin> ?L"
    "famez_active_list y' = famez_active_list y @ [addr]" "\<not> famez_active_lock y'" "\<And>k. k \<noteq> addr \<Longrightarrow> config_at y' k = config_at y k"
    using pr by (auto simp: mono_probed_def)
  obtain h m y1 where s1: "mono_teardown_bridge addr y' = Some y1" and s2: "mono_teardown_irqs addr pd y1 = Some (detached_state addr pd h m y')"
    and k: "k_live h = insert addr ?L" and ms: "misc_devs m = misc_devs (ms_misc y)" by (rule teardowns_of_probed [OF pr fresh])
  let ?z = "detached_state addr pd h m y'" and ?off = "(ms_devs y' pd)\<lparr>enabled := False\<rparr>"
  define y3 where "y3 = put_mdev pd ?off ?z"
  have y3: "ms_heap y3 = h" "config_at y3 = config_at ?z" "famez_active_list y3 = famez_active_list y @ [addr]" "\<not> famez_active_lock y3"
    "ms_devs y3 pd = ?off" using r(6,7) by (simp_all add: y3_def put_mdev_def)
  have "active_ok E ?loc (famez_active_list y) y3"
    using act r(5,8) k by (auto simp: active_ok_def y3(1,2))
  then have del: "active_del_loc E ?loc (famez_active_list y3) y3 = Some (famez_active_list y)"
    unfolding y3(3) using r(3) k by (intro active_del_loc_last) (auto simp: y3)
  let ?d = "(pci_release_regions ?off)\<lparr>drvdata := None\<rparr>" and ?c2 = "?c\<lparr>teardown_lookup := None, msix_entries := None\<rparr>"
  have ka: "addr \<in> k_live h" using k by simp
  have dest: "destroy_config (Some (addr, ?c2)) h ?off = Some (h\<lparr>k_live := k_live h - {addr}\<rparr>, ?d)"
    using r(1,3,4) ka by (simp add: destroy_config_def mono_unmapBARs_def)
  have ref: "config_ref addr (y3\<lparr>famez_active_list := famez_active_list y, famez_active_lock := False\<rparr>) = Some ?c2"
    using k by (simp add: config_ref_def y3(1,2))
  have "famez_remove E pd y' = Some (put_mdev pd ?d (y3\<lparr>famez_active_list := famez_active_list y, famez_active_lock := False,
      ms_heap := h\<lparr>k_live := k_live h - {addr}\<rparr>\<rparr>))"
    unfolding famez_remove_def r(1) option.case s1 bind.bind_lunit s2 Let_def
    using del ref dest y3(4,5) by (simp add: y3_def [symmetric] y3(1))
  then show ?thesis using r(2,5) k ms by (simp add: y3_def put_mdev_def pci_release_regions_def)
qed

section \<open>What a successful probe leaves behind\<close>

text \<open>
  Before the probe: a free device without interrupts, a mailbox as the server lays it
  out, an own id with a slot, the list in order and without this device, and the
  documented behaviour of the kernel.
\<close>

definition mono_probe_ok :: "mono_probe_env \<Rightarrow> nat \<Rightarrow> mono_sys \<Rightarrow> bool" where
  "mono_probe_ok E pd y \<longleftrightarrow>
     wf_heap (ms_heap y) \<and> drvdata (ms_devs y pd) = None \<and> pci_request_regions (mp_pci E pd) \<le> 0 \<and>
     devfn (mp_pci E pd) < 256 \<and> irq_env_ok (mp_irq E pd) \<and> ms_irqs y pd = \<lparr>attached = {}, vectors_on = False\<rparr> \<and>
     own_id_ok (ms_worlds y pd) \<and> mono_geometry (m_bar2_globals (ms_worlds y pd)) \<and>
     (\<forall>p. length (m_msg (m_bar2 (ms_worlds y pd) p))
        = unat (m_slotsize (m_bar2_globals (ms_worlds y pd)) - offsetof_msg)) \<and>
     sleep_keeps_layout (mp_kern E) \<and> \<not> famez_active_lock y \<and>
     active_ok E (card_loc (mp_pci E pd)) (famez_active_list y) y \<and>
     (\<forall>k \<in> misc_devs (ms_misc y). k \<in> k_live (ms_heap y))"

lemma disable_device_ret: "mono_disable_device ret addr pd y = Some (r, y') \<Longrightarrow> r = ret"
  by (auto simp: mono_disable_device_def Let_def split: bind_splits)

lemma err_MSIX_ret: "err_MSIX_teardown_mono ret addr pd y = Some (r, y') \<Longrightarrow> r = ret"
  by (auto simp: err_MSIX_teardown_mono_def dest: disable_device_ret split: bind_splits)

lemma err_bridge_ret: "err_bridge_teardown ret addr pd y = Some (r, y') \<Longrightarrow> r = ret"
  by (auto simp: err_bridge_teardown_def dest: err_MSIX_ret split: bind_splits)

lemma unat_strlen_le: "unat (of_nat (strlen t) :: u64) \<le> length t"
  using cstr_length_le [of t] take_bit_nat_less_eq_self [of 64 "length (cstr t)"] by (simp add: strlen_def unat_of_nat)

text \<open>The steps of a probe that returns 0.\<close>

lemma probe_zero_steps:
  assumes run: "famez_probe E pd y = Some (0, y')" and free: "drvdata (ms_devs y pd) = None"
    and err: "\<And>e h2 d2 w2. create_config (mp_pci E pd) pd (ms_heap y) ((ms_devs y pd)\<lparr>enabled := True\<rparr>) (ms_worlds y pd)
      = Some (Inl e, h2, d2, w2) \<Longrightarrow> e \<noteq> 0"
  obtains addr c h2 d2 w2 c3 h3 s3 c4 h4 m4 y4 y5 where
    "create_config (mp_pci E pd) pd (ms_heap y) ((ms_devs y pd)\<lparr>enabled := True\<rparr>) (ms_worlds y pd) = Some (Inr (addr, c), h2, d2, w2)"
    "famez_MSIX_setup (mp_irq E pd) c w2 h2 (ms_irqs y pd) = Some (0, c3, h3, s3)"
    "famez_bridge_setup (mp_misc_register E pd) (devfn (mp_pci E pd)) c3 h3 (ms_misc y) = Some (0, c4, h4, m4)"
    "y4 = y\<lparr>ms_worlds := (ms_worlds y)(pd := w2), ms_devs := (ms_devs y)(pd := d2),
       ms_irqs := (ms_irqs y)(pd := s3), ms_heap := h4, ms_misc := m4, config_at := (config_at y)(addr := c4)\<rparr>"
    "list_config E addr pd y4 = Some (0, y5)" "tell_server E addr pd y5 = Some (0, y')"
proof -
  let ?C = "create_config (mp_pci E pd) pd (ms_heap y) ((ms_devs y pd)\<lparr>enabled := True\<rparr>) (ms_worlds y pd)"
  obtain addr c h2 d2 w2 where c: "?C = Some (Inr (addr, c), h2, d2, w2)"
    using run free err
    by (auto simp: famez_probe_def probe_config_def probe_bridge_def Let_def m_put_defs dest!: disable_device_ret split: if_splits bind_splits sum.splits)
  obtain c3 h3 s3 where i: "famez_MSIX_setup (mp_irq E pd) c w2 h2 (ms_irqs y pd) = Some (0, c3, h3, s3)"
    using run free c
    by (auto simp: famez_probe_def probe_config_def probe_bridge_def Let_def m_put_defs dest!: disable_device_ret split: if_splits bind_splits)
  obtain c4 h4 m4 where b: "famez_bridge_setup (mp_misc_register E pd) (devfn (mp_pci E pd)) c3 h3 (ms_misc y) = Some (0, c4, h4, m4)"
    using run free c i
    by (auto simp: famez_probe_def probe_config_def probe_bridge_def Let_def m_put_defs dest!: disable_device_ret err_MSIX_ret split: if_splits bind_splits)
  let ?y4 = "y\<lparr>ms_worlds := (ms_worlds y)(pd := w2), ms_devs := (ms_devs y)(pd := d2),
       ms_irqs := (ms_irqs y)(pd := s3), ms_heap := h4, ms_misc := m4, config_at := (config_at y)(addr := c4)\<rparr>"
  obtain y5 where "list_config E addr pd ?y4 = Some (0, y5)" "tell_server E addr pd y5 = Some (0, y')"
    using run free c i b
    by (auto simp: famez_probe_def probe_config_def probe_bridge_def Let_def m_put_defs dest!: disable_device_ret err_bridge_ret split: if_splits bind_splits)
  with c i b show ?thesis using that by blast
qed

lemma tell_server_layout:
  assumes run: "tell_server E addr pd y = Some (0, y')" and inv: "mono_inv (config_at y addr) (ms_worlds y pd)"
    and kern: "sleep_keeps_layout (mp_kern E)"
  obtains w' where "y' = put_mworld pd w' y" and "m_bar2_globals w' = m_bar2_globals (ms_worlds y pd)"
proof -
  let ?c = "config_at y addr" and ?w = "ms_worlds y pd"
  obtain r w' tx where s: "famez_sendmail (mp_kern E) (ucast (m_server_id ?c)) tx (of_nat (strlen tx)) ?c ?w = Some (r, w')"
    and y': "y' = put_mworld pd w' y"
    using run by (auto simp: tell_server_def config_ref_def split: bind_splits if_splits)
  have "m_bar2_globals w' = m_bar2_globals ?w"
    using sendmail_outcome [OF inv kern unat_strlen_le s] by (auto simp: m_sent_def split: if_splits)
  then show thesis using that y' by blast
qed

lemma probe_establishes:
  assumes ok: "mono_probe_ok E pd y" and run: "famez_probe E pd y = Some (0, y')"
  shows "\<exists>addr. mono_probed E pd addr y y'"
proof -
  let ?P = "mp_pci E pd" and ?w = "ms_worlds y pd" and ?d = "(ms_devs y pd)\<lparr>enabled := True\<rparr>"
  have p: "wf_heap (ms_heap y)" "drvdata (ms_devs y pd) = None" "pci_request_regions ?P \<le> 0" "devfn ?P < 256"
    "irq_env_ok (mp_irq E pd)" "ms_irqs y pd = \<lparr>attached = {}, vectors_on = False\<rparr>" "own_id_ok ?w"
    "mono_geometry (m_bar2_globals ?w)" "sleep_keeps_layout (mp_kern E)" "\<not> famez_active_lock y"
    "active_ok E (card_loc ?P) (famez_active_list y) y"
    "\<forall>p. length (m_msg (m_bar2 ?w p)) = unat (m_slotsize (m_bar2_globals ?w) - offsetof_msg)"
    using ok by (simp_all add: mono_probe_ok_def)
  have "drvdata ?d = None" using p(2) by simp
  note made = create_config_result [OF p(1) this p(3,7), of pd]
  have err: "create_config ?P pd (ms_heap y) ?d ?w = Some (Inl e, h2, d2, w2) \<Longrightarrow> e \<noteq> 0" for e h2 d2 w2
    using made by (auto simp: create_outcome_def)
  obtain addr c h2 d2 w2 c3 h3 s3 c4 h4 m4 y4 y5 where
    st: "create_config ?P pd (ms_heap y) ?d ?w = Some (Inr (addr, c), h2, d2, w2)"
    "famez_MSIX_setup (mp_irq E pd) c w2 h2 (ms_irqs y pd) = Some (0, c3, h3, s3)"
    "famez_bridge_setup (mp_misc_register E pd) (devfn ?P) c3 h3 (ms_misc y) = Some (0, c4, h4, m4)"
    "y4 = y\<lparr>ms_worlds := (ms_worlds y)(pd := w2), ms_devs := (ms_devs y)(pd := d2),
       ms_irqs := (ms_irqs y)(pd := s3), ms_heap := h4, ms_misc := m4, config_at := (config_at y)(addr := c4)\<rparr>"
    "list_config E addr pd y4 = Some (0, y5)" "tell_server E addr pd y5 = Some (0, y')"
    by (rule probe_zero_steps [OF run p(2) err])
  have wf2: "wf_heap h2" and cm: "config_made ?P pd (ms_heap y) ?d ?w (addr, c) h2 d2 w2"
    using made st(1) by (auto simp: create_outcome_def)
  then obtain tab where t: "addr \<noteq> tab" "addr \<notin> k_live (ms_heap y)" "tab \<notin> k_live (ms_heap y)"
    "k_live h2 = insert tab (insert addr (k_live (ms_heap y)))" "drvdata d2 = Some addr" "regions d2"
    "m_bar2_globals w2 = m_bar2_globals ?w"
    "msix_entries c = Some (tab, replicate (unat (nSlots (m_bar2_globals ?w))) \<lparr>vector = 0, entry = 0\<rparr>)"
    "m_pdev c = Some pd" "writer_support c = None" "m_globals c" "mono_inv c w2"
    using p(8,12) by (auto simp: config_made_def)
  have off: "mono_irqs_off c w2 h2 (ms_irqs y pd)" using t(4,7,8) p(6) by (simp add: mono_irqs_off_def)
  obtain es where i: "mono_irqs_on c3 w2 h3 s3" "h3 = h2" "c3 = c\<lparr>msix_entries := Some (tab, es)\<rparr>"
    using MSIX_setup_result [OF p(5) off t(11,8)] st(2) by auto
  obtain lk nm tx where b: "lk \<noteq> nm" "lk \<notin> k_live h2" "nm \<notin> k_live h2" "k_live h4 = insert nm (insert lk (k_live h2))"
    "c4 = c3\<lparr>teardown_lookup := Some \<lparr>lookup_addr = lk, miscdev_name_addr = nm, miscdev_name = tx\<rparr>\<rparr>"
    "m4 = (ms_misc y)\<lparr>misc_devs := insert lk (misc_devs (ms_misc y))\<rparr>"
    using bridge_setup_result [OF wf2 p(4), of "mp_misc_register E pd" c3 "ms_misc y"] st(3) i(2) by auto
  have y5: "y5 = y4\<lparr>famez_active_list := famez_active_list y @ [addr], famez_active_lock := False\<rparr>"
    using st(5) p(10) by (auto simp: list_config_def Let_def st(4) split: bind_splits if_splits)
  have "mono_inv c4 w2" using t(12) by (simp add: b(5) i(3) mono_inv_def)
  then have "mono_inv (config_at y5 addr) (ms_worlds y5 pd)" by (simp add: y5 st(4))
  then obtain w' where y': "y' = put_mworld pd w' y5" and "m_bar2_globals w' = m_bar2_globals (ms_worlds y5 pd)"
    by (rule tell_server_layout [OF st(6) _ p(9)])
  then have g: "m_bar2_globals w' = m_bar2_globals w2" by (simp add: y5 st(4))
  have "mono_irqs_on c4 w' h4 s3" using i(1,2) g b(4) by (auto simp: mono_irqs_on_def mono_table_ok_def b(5))
  then have "mono_probed E pd addr y y'"
    unfolding mono_probed_def using t b(1-4,6) i(3) b(5) p(10)
    by (auto simp: y' y5 st(4) put_mworld_def)
  then show ?thesis by blast
qed

section \<open>Probing returns\<close>

lemma disable_config_returns:
  assumes "addr \<in> k_live (ms_heap y)" and "m_pdev (config_at y addr) \<noteq> None" and "drvdata (ms_devs y pd) \<noteq> None"
    and "writer_support (config_at y addr) = None"
    and "\<And>t. msix_entries (config_at y addr) = Some t \<Longrightarrow> fst t \<in> k_live (ms_heap y) \<and> fst t \<noteq> addr"
  shows "\<exists>y'. mono_disable_device ret (Some addr) pd y = Some (ret, y')"
  using assms by (cases "msix_entries (config_at y addr)")
    (auto simp: mono_disable_device_def Let_def config_ref_def destroy_config_def mono_unmapBARs_def)

lemma disable_nothing_returns: "\<exists>y'. mono_disable_device ret None pd y = Some (ret, y')"
  by (simp add: mono_disable_device_def Let_def destroy_config_def)

lemma tell_server_returns:
  assumes "addr \<in> k_live (ms_heap y)" and "mono_inv (config_at y addr) (ms_worlds y pd)"
    and "sleep_keeps_layout (mp_kern E)" and "m_clock_runs (mp_kern E)" and "m_clock_room (mp_kern E) 1 (ms_worlds y pd)"
  shows "\<exists>r y'. tell_server E addr pd y = Some (r, y')"
proof -
  let ?c = "config_at y addr"
  obtain tx n where tx: "snprintf (replicate 80 NUL) 79 (imalive ?c) = Some (tx, n)" by (simp add: snprintf_def)
  have "unat (of_nat (strlen tx) :: u64) \<le> length tx" by (rule unat_strlen_le)
  from sendmail_returns [OF assms(2-4) _ this, of 0 "ucast (m_server_id ?c)"] assms(5)
  show ?thesis using assms(1) tx by (auto simp: tell_server_def config_ref_def)
qed

lemma err_MSIX_returns:
  assumes "addr \<in> k_live (ms_heap y)" and on: "mono_irqs_on (config_at y addr) (ms_worlds y pd) (ms_heap y) (ms_irqs y pd)"
    and c: "msix_entries (config_at y addr) = Some (tab, es)" "tab \<noteq> addr" "m_globals (config_at y addr)" "m_pdev (config_at y addr) \<noteq> None"
    and "writer_support (config_at y addr) = None" and "drvdata (ms_devs y pd) \<noteq> None"
  shows "\<exists>y'. err_MSIX_teardown_mono ret addr pd y = Some (ret, y')"
proof -
  let ?c = "(config_at y addr)\<lparr>msix_entries := None\<rparr>" and ?h = "(ms_heap y)\<lparr>k_live := k_live (ms_heap y) - {tab}\<rparr>"
  let ?y = "put_config addr ?c (put_mirqs pd \<lparr>attached = {}, vectors_on = False\<rparr> (y\<lparr>ms_heap := ?h\<rparr>))"
  have "mono_teardown_irqs addr pd y = Some ?y"
    using assms(1) MSIX_teardown_result [OF on c(3,1)] by (simp add: mono_teardown_irqs_def config_ref_def)
  moreover have "\<exists>y'. mono_disable_device ret (Some addr) pd ?y = Some (ret, y')"
    using assms by (intro disable_config_returns) (auto simp: m_put_defs)
  ultimately show ?thesis by (simp add: err_MSIX_teardown_mono_def)
qed

lemma probe_bridge_returns:
  assumes wf: "wf_heap (ms_heap y)" and a: "addr \<in> k_live (ms_heap y)" and fn: "devfn (mp_pci E pd) < 256"
    and c: "msix_entries c = Some (tab, es)" "tab \<noteq> addr" "m_globals c" "m_pdev c \<noteq> None" "writer_support c = None"
    and on: "mono_irqs_on c (ms_worlds y pd) (ms_heap y) (ms_irqs y pd)" and d: "drvdata (ms_devs y pd) \<noteq> None"
    and act: "active_ok E (card_loc (mp_pci E pd)) (famez_active_list y) y" "addr \<notin> set (famez_active_list y)" "\<not> famez_active_lock y"
    and inv: "mono_inv c (ms_worlds y pd)" and E: "sleep_keeps_layout (mp_kern E)" "m_clock_runs (mp_kern E)" "m_clock_room (mp_kern E) 1 (ms_worlds y pd)"
  shows "\<exists>r y'. probe_bridge E addr pd c y = Some (r, y')"
proof -
  obtain ret c1 h1 m1 where b: "famez_bridge_setup (mp_misc_register E pd) (devfn (mp_pci E pd)) c (ms_heap y) (ms_misc y) = Some (ret, c1, h1, m1)"
    "k_live (ms_heap y) \<subseteq> k_live h1" "\<exists>tl. c1 = c\<lparr>teardown_lookup := tl\<rparr>"
    using bridge_setup_result [OF wf fn, of "mp_misc_register E pd" c "ms_misc y"] by blast
  then obtain tl where c1: "c1 = c\<lparr>teardown_lookup := tl\<rparr>" by blast
  define y1 where "y1 = put_config addr c1 (y\<lparr>ms_heap := h1, ms_misc := m1\<rparr>)"
  have y1: "ms_heap y1 = h1" "config_at y1 addr = c1" "ms_devs y1 = ms_devs y" "ms_worlds y1 = ms_worlds y" "ms_irqs y1 = ms_irqs y"
    "famez_active_list y1 = famez_active_list y" "famez_active_lock y1 = famez_active_lock y" "\<And>k. k \<noteq> addr \<Longrightarrow> config_at y1 k = config_at y k"
    by (simp_all add: y1_def m_put_defs)
  have "mono_irqs_on c1 (ms_worlds y pd) h1 (ms_irqs y pd)" using on b(2) by (auto simp: c1 mono_irqs_on_def mono_table_ok_def)
  then have "\<exists>y'. err_MSIX_teardown_mono ret addr pd y1 = Some (ret, y')"
    using a b(2) c d by (intro err_MSIX_returns) (auto simp: y1 c1)
  moreover have "active_ok E (card_loc (mp_pci E pd)) (famez_active_list y1) y1"
    using act(1,2) b(2) by (auto simp: active_ok_def y1) (metis y1(8))+
  then have "list_config E addr pd y1 = Some (0, y1\<lparr>famez_active_lock := False, famez_active_list := famez_active_list y1 @ [addr]\<rparr>)"
    using act(3) by (simp add: list_config_def active_has_loc_run y1(7))
  moreover have "\<exists>r y'. tell_server E addr pd (y1\<lparr>famez_active_lock := False, famez_active_list := famez_active_list y1 @ [addr]\<rparr>) = Some (r, y')"
    using a b(2) inv E by (intro tell_server_returns) (auto simp: y1 c1 mono_inv_def)
  ultimately show ?thesis using b(1) by (auto simp: probe_bridge_def Let_def simp flip: y1_def)
qed

text \<open>The state once a configuration exists and its interrupts were asked for.\<close>

definition attached_state ::
  "nat \<Rightarrow> nat \<Rightarrow> mono_config \<Rightarrow> kheap \<Rightarrow> pci_dev \<Rightarrow> irq_state \<Rightarrow> mono_world \<Rightarrow> mono_sys \<Rightarrow> mono_sys" where
  "attached_state addr pd c h d s w y = put_config addr c (put_mirqs pd s ((put_mdev pd d (put_mworld pd w y))\<lparr>ms_heap := h\<rparr>))"

lemma attached_state_simps [simp]:
  "ms_heap (attached_state addr pd c h d s w y) = h"
  "config_at (attached_state addr pd c h d s w y) k = (if k = addr then c else config_at y k)"
  "ms_devs (attached_state addr pd c h d s w y) q = (if q = pd then d else ms_devs y q)"
  "ms_worlds (attached_state addr pd c h d s w y) q = (if q = pd then w else ms_worlds y q)"
  "ms_irqs (attached_state addr pd c h d s w y) q = (if q = pd then s else ms_irqs y q)"
  "ms_misc (attached_state addr pd c h d s w y) = ms_misc y"
  "famez_active_list (attached_state addr pd c h d s w y) = famez_active_list y"
  "famez_active_lock (attached_state addr pd c h d s w y) = famez_active_lock y"
  by (simp_all add: attached_state_def m_put_defs)

lemma irqs_failed_returns:
  assumes made: "config_made P pd h0 d0 w0 (addr, c) h2 d2 w2"
    and t: "msix_entries c = Some (tab, es)"
    and c3: "c3 = c \<and> h3 = h2 \<or> c3 = c\<lparr>msix_entries := None\<rparr> \<and> h3 = h2\<lparr>k_live := k_live h2 - {tab}\<rparr>"
  shows "\<exists>y'. mono_disable_device ret (Some addr) pd (attached_state addr pd c3 h3 d2 s3 w2 y) = Some (ret, y')"
proof -
  have m: "addr \<noteq> tab" "{addr, tab} \<subseteq> k_live h2" "drvdata d2 = Some addr" "m_pdev c = Some pd" "writer_support c = None"
    using made t by (auto simp: config_made_def)
  show ?thesis using c3
  proof
    assume "c3 = c \<and> h3 = h2"
    then show ?thesis using m t by (intro disable_config_returns) auto
  next
    assume "c3 = c\<lparr>msix_entries := None\<rparr> \<and> h3 = h2\<lparr>k_live := k_live h2 - {tab}\<rparr>"
    then show ?thesis using m by (intro disable_config_returns) auto
  qed
qed

lemma irqs_and_bridge_return:
  assumes ok: "mono_probe_ok E pd y" and clock: "m_clock_runs (mp_kern E)" "m_clock_room (mp_kern E) 1 (ms_worlds y pd)"
    and made: "config_made (mp_pci E pd) pd (ms_heap y) d0 (ms_worlds y pd) (addr, c) h2 d2 w2" and wf2: "wf_heap h2"
  shows "\<exists>r y'. do {
      (ret, c3, h3, s3) \<leftarrow> famez_MSIX_setup (mp_irq E pd) c w2 h2 (ms_irqs y pd);
      let y3 = attached_state addr pd c3 h3 d2 s3 w2 y;
      if ret \<noteq> 0 then mono_disable_device ret (Some addr) pd y3 else probe_bridge E addr pd c3 y3 } = Some (r, y')"
proof -
  let ?w = "ms_worlds y pd"
  have p: "devfn (mp_pci E pd) < 256" "irq_env_ok (mp_irq E pd)" "ms_irqs y pd = \<lparr>attached = {}, vectors_on = False\<rparr>"
    "mono_geometry (m_bar2_globals ?w)" "sleep_keeps_layout (mp_kern E)" "\<not> famez_active_lock y"
    "active_ok E (card_loc (mp_pci E pd)) (famez_active_list y) y"
    "\<forall>p. length (m_msg (m_bar2 ?w p)) = unat (m_slotsize (m_bar2_globals ?w) - offsetof_msg)"
    using ok by (simp_all add: mono_probe_ok_def)
  obtain tab where t: "addr \<noteq> tab" "k_live h2 = insert tab (insert addr (k_live (ms_heap y)))" "drvdata d2 = Some addr"
    "m_bar2_globals w2 = m_bar2_globals ?w" "m_jiffies w2 = m_jiffies ?w"
    "msix_entries c = Some (tab, replicate (unat (nSlots (m_bar2_globals ?w))) \<lparr>vector = 0, entry = 0\<rparr>)"
    "m_pdev c = Some pd" "writer_support c = None" "m_globals c" "addr \<notin> k_live (ms_heap y)" "mono_inv c w2"
    using made p(4,8) by (auto simp: config_made_def)
  have off: "mono_irqs_off c w2 h2 (ms_irqs y pd)" using t(2,4,6) p(3) by (simp add: mono_irqs_off_def)
  obtain ret c3 h3 s3 where i: "famez_MSIX_setup (mp_irq E pd) c w2 h2 (ms_irqs y pd) = Some (ret, c3, h3, s3)"
    and res: "if ret = 0 then mono_irqs_on c3 w2 h3 s3 \<and> h3 = h2 \<and> (\<exists>es. c3 = c\<lparr>msix_entries := Some (tab, es)\<rparr>)
      else ret < 0 \<and> s3 = ms_irqs y pd \<and> (c3 = c \<and> h3 = h2 \<or> c3 = c\<lparr>msix_entries := None\<rparr> \<and> h3 = h2\<lparr>k_live := k_live h2 - {tab}\<rparr>)"
    using MSIX_setup_result [OF p(2) off t(9,6)] by meson
  let ?y = "attached_state addr pd c3 h3 d2 s3 w2 y"
  have "\<exists>y'. mono_disable_device ret (Some addr) pd ?y = Some (ret, y')" if "ret \<noteq> 0"
    using irqs_failed_returns [OF made t(6)] res that by simp
  moreover have "\<exists>r y'. probe_bridge E addr pd c3 ?y = Some (r, y')" if r0: "ret = 0"
  proof -
    obtain es where on: "mono_irqs_on c3 w2 h3 s3" "h3 = h2" and c3: "c3 = c\<lparr>msix_entries := Some (tab, es)\<rparr>" using res r0 by auto
    show ?thesis
    proof (rule probe_bridge_returns)
      show "mono_inv c3 (ms_worlds ?y pd)" using t(11) by (simp add: c3)
      show "m_clock_room (mp_kern E) 1 (ms_worlds ?y pd)" using clock(2) t(5) by (simp add: m_clock_room_def)
      show "addr \<notin> set (famez_active_list ?y)" using p(7) t(10) by (auto simp: active_ok_def)
      show "active_ok E (card_loc (mp_pci E pd)) (famez_active_list ?y) ?y"
        using p(7) t(2,10) on(2) by (auto simp: active_ok_def)
      show "msix_entries c3 = Some (tab, es)" by (simp add: c3)
    qed (use t wf2 on p clock(1) c3 in auto)
  qed
  ultimately show ?thesis using i by (cases "ret = 0") (auto simp: Let_def)
qed

lemma probe_returns:
  assumes ok: "mono_probe_ok E pd y" and clock: "m_clock_runs (mp_kern E)" "m_clock_room (mp_kern E) 1 (ms_worlds y pd)"
  shows "\<exists>r y'. famez_probe E pd y = Some (r, y')"
proof -
  let ?P = "mp_pci E pd" and ?w = "ms_worlds y pd" and ?d = "(ms_devs y pd)\<lparr>enabled := True\<rparr>"
  have p: "wf_heap (ms_heap y)" "drvdata ?d = None" "pci_request_regions ?P \<le> 0" "own_id_ok ?w"
    using ok by (simp_all add: mono_probe_ok_def)
  obtain r h2 d2 w2 where cr: "create_config ?P pd (ms_heap y) ?d ?w = Some (r, h2, d2, w2)"
    and out: "create_outcome ?P pd (ms_heap y) ?d ?w (r, h2, d2, w2)" using create_config_result [OF p, of pd] by auto
  have start: "famez_probe E pd y =
    (if pci_enable_device ?P < 0 then Some (pci_enable_device ?P, y)
     else if revision ?P \<noteq> 1 \<or> \<not> msix_cap ?P \<or> \<not> pci_resource_start_1 ?P then mono_disable_device (- ENODEV) None pd (put_mdev pd ?d y)
     else probe_config E pd (put_mdev pd ?d y))"
    using p(2) by (simp add: famez_probe_def Let_def)
  have "\<exists>r y'. probe_config E pd (put_mdev pd ?d y) = Some (r, y')"
  proof (cases r)
    case (Inl e)
    then show ?thesis using cr disable_nothing_returns [of e pd] by (simp add: probe_config_def m_put_defs Let_def) blast
  next
    case (Inr cp)
    obtain addr c where cp: "cp = (addr, c)" by (metis surj_pair)
    have "wf_heap h2" "config_made ?P pd (ms_heap y) ?d ?w (addr, c) h2 d2 w2" using out Inr cp by (simp_all add: create_outcome_def)
    from irqs_and_bridge_return [OF ok clock this(2,1)] show ?thesis
      using cr Inr cp by (simp add: probe_config_def attached_state_def m_put_defs Let_def)
  qed
  moreover have "\<exists>r y'. mono_disable_device (- ENODEV) None pd (put_mdev pd ?d y) = Some (r, y')"
    using disable_nothing_returns by blast
  ultimately show ?thesis unfolding start by simp
qed

section \<open>Properties\<close>

definition demo_mprobe :: mono_probe_env where
  "demo_mprobe = \<lparr>mp_pci = \<lambda>_. demo_pci, mp_irq = \<lambda>_. demo_irq_env\<lparr>pci_msix_vec_count := 64\<rparr>, mp_kern = demo_menv, mp_misc_register = \<lambda>_. 0\<rparr>"

definition demo_msys :: mono_sys where
  "demo_msys = \<lparr>ms_heap = demo_heap 9, config_at = \<lambda>_. zero_config, famez_active_list = [], famez_active_lock = False,
     ms_devs = \<lambda>_. untaken, ms_irqs = \<lambda>_. \<lparr>attached = {}, vectors_on = False\<rparr>, ms_worlds = \<lambda>_. demo_mworld, ms_misc = \<lparr>misc_devs = {}\<rparr>\<rparr>"

lemma demo_mprobe_ok: "mono_probe_ok demo_mprobe 0 demo_msys"
proof -
  have "irq_env_ok (demo_irq_env\<lparr>pci_msix_vec_count := n\<rparr>)" for n
    using demo_irq_env_ok by (simp add: irq_env_ok_def)
  then show ?thesis
    by (simp add: mono_probe_ok_def demo_mprobe_def demo_msys_def untaken_def demo_pci_def active_ok_def own_id_ok_def mono_geometry_def
        demo_mworld_def demo_mglobals_def demo_mslot_def offsetof_msg_def)
qed

lemma demo_mgeometry [simp]:
  "m_bar2_globals demo_mworld = \<lparr>m_slotsize = 512, msg_offset = 64, nSlots = 6\<rparr>" "IVPosition (m_bar0 demo_mworld) = 1"
  by (simp_all add: demo_mworld_def demo_mglobals_def)

definition demo_mcreated :: mono_config where
  "demo_mcreated = demo_mconfig\<lparr>m_pdev := Some 0, msix_entries := Some (1, replicate 6 \<lparr>vector = 0, entry = 0\<rparr>)\<rparr>"

lemma demo_mcreate:
  "\<exists>d nn. create_config demo_pci 0 (demo_heap 9) (untaken\<lparr>enabled := True\<rparr>) demo_mworld
     = Some (Inr (0, demo_mcreated), \<lparr>k_ok = \<lambda>i. i < 9, k_next = 2, k_live = {1, 0}\<rparr>, d,
         m_put_slot 512 ((m_zero_slot demo_mglobals)\<lparr>m_nodename := nn\<rparr>) demo_mworld)"
proof -
  let ?c = "demo_mcreated\<lparr>m_my_slot := None\<rparr>"
  have f: "pci_request_regions demo_pci = 0" "pci_iomap demo_pci 0" "pci_iomap demo_pci 2" by (simp_all add: demo_pci_def)
  obtain nn where o: "own_slot demo_pci ?c demo_mworld
      = Some (demo_mcreated, m_put_slot 512 ((m_zero_slot demo_mglobals)\<lparr>m_nodename := nn\<rparr>) demo_mworld)"
    using own_slot_run [of ?c demo_mworld demo_pci]
    by (auto simp: demo_mcreated_def demo_mconfig_def m_slot_off_def demo_mglobals_def)
  have c: "zero_config\<lparr>m_pdev := Some 0, legible_slot_lock := 1, m_regs := True, m_globals := True, max_msglen := 448, m_my_id := 1,
      m_server_id := 5, msix_entries := Some (1, replicate 6 \<lparr>vector = 0, entry = 0\<rparr>)\<rparr> = ?c"
    by (simp add: demo_mcreated_def demo_mconfig_def zero_config_def)
  have h: "kzalloc (demo_heap 9) = (Some 0, \<lparr>k_ok = \<lambda>i. i < 9, k_next = 1, k_live = {0}\<rparr>)"
    "kzalloc \<lparr>k_ok = \<lambda>i. i < 9, k_next = 1, k_live = {0}\<rparr> = (Some 1, \<lparr>k_ok = \<lambda>i. i < 9, k_next = 2, k_live = {1, 0}\<rparr>)"
    by (simp_all add: kzalloc_def demo_heap_def)
  show ?thesis
    unfolding create_config_def h mono_mapBARs_def f Let_def using o c
    by (simp add: offsetof_msg_def f h del: One_nat_def replicate.simps) (rule exI, rule refl)
qed

lemma demo_mprobe_succeeds: "\<exists>y'. famez_probe demo_mprobe 0 demo_msys = Some (0, y')"
proof -
  let ?h = "\<lparr>k_ok = \<lambda>i. i < 9, k_next = 2, k_live = {1, 0}\<rparr> :: kheap"
  obtain d nn where c: "create_config demo_pci 0 (demo_heap 9) (untaken\<lparr>enabled := True\<rparr>) demo_mworld
     = Some (Inr (0, demo_mcreated), ?h, d, m_put_slot 512 ((m_zero_slot demo_mglobals)\<lparr>m_nodename := nn\<rparr>) demo_mworld)"
    using demo_mcreate by blast
  let ?w = "m_put_slot 512 ((m_zero_slot demo_mglobals)\<lparr>m_nodename := nn\<rparr>) demo_mworld" and ?E = "demo_irq_env\<lparr>pci_msix_vec_count := 64\<rparr>"
  obtain es s where "attach_vectors ?E 6 \<lparr>attached = {}, vectors_on = False\<rparr> = Some (0, es, s)"
    using attach_vectors_succeeds [of 6 ?E "\<lparr>attached = {}, vectors_on = False\<rparr>"] by (auto simp: demo_irq_env_def)
  then have i: "famez_MSIX_setup ?E demo_mcreated ?w ?h \<lparr>attached = {}, vectors_on = False\<rparr>
      = Some (0, demo_mcreated\<lparr>msix_entries := Some (1, es)\<rparr>, ?h, s)"
    by (simp add: famez_MSIX_setup_def demo_mcreated_def demo_mconfig_def to_u64_def)
  have "length (hex02 5) = 2" by (rule hex02_length) simp
  then obtain nm where b: "sprintf (replicate 32 NUL) (miscdev_devname 40) = Some nm" by (simp add: sprintf_def miscdev_devname_def)
  let ?l = "\<lparr>lookup_addr = 2, miscdev_name_addr = 3, miscdev_name = nm\<rparr>"
  define c' where "c' = demo_mcreated\<lparr>msix_entries := Some (1, es), teardown_lookup := Some ?l\<rparr>"
  have inv: "mono_inv c' ?w"
    using demo_mworld_ok(1) by (simp add: c'_def demo_mcreated_def mono_inv_def demo_mconfig_def m_zero_slot_def demo_mglobals_def offsetof_msg_def)
  have f: "m_my_id c' = 1" "m_server_id c' = 5" "max_msglen c' = 448" by (simp_all add: c'_def demo_mcreated_def demo_mconfig_def)
  have al: "imalive c' = ''Client 1 is ready''" by (simp add: imalive_def f dec_nat.simps digit_char_def digit_chars)
  obtain r where tx: "snprintf (replicate 80 NUL) 79 (imalive c') = Some (''Client 1 is ready'' @ NUL # r, 17)"
    unfolding al by (simp add: snprintf_def memcpy_def)
  let ?t = "''Client 1 is ready'' @ NUL # r"
  have l: "strlen ?t = 17" by (simp add: strlen_def cstr_def)
  have mok: "mail_ok 5 17 c'" by (simp add: mail_ok_def f)
  have "m_clock_room demo_menv 1 ?w" using demo_mworld_ok(2) by (simp add: m_clock_room_def)
  then obtain k w' where k: "famez_sendmail demo_menv 5 ?t 17 c' ?w = Some (k, w')"
    using sendmail_returns [OF inv demo_menv_ok, of 0 17 ?t 5] by auto
  then have send: "famez_sendmail demo_menv 5 ?t 17 c' ?w = Some (17, w')"
    using sendmail_sent [OF inv demo_menv_ok(1) _ mok k] by simp
  have e: "mp_pci demo_mprobe 0 = demo_pci" "mp_irq demo_mprobe 0 = ?E" "mp_kern demo_mprobe = demo_menv" "mp_misc_register demo_mprobe 0 = 0"
    "\<not> pci_enable_device demo_pci < 0" "revision demo_pci = 1" "msix_cap demo_pci" "pci_resource_start_1 demo_pci" "devfn demo_pci = 40"
    "drvdata untaken = None" by (simp_all add: demo_mprobe_def demo_pci_def untaken_def)
  have y: "ms_heap demo_msys = demo_heap 9" "ms_devs demo_msys 0 = untaken" "ms_worlds demo_msys 0 = demo_mworld" "ms_misc demo_msys = \<lparr>misc_devs = {}\<rparr>"
    "ms_irqs demo_msys 0 = \<lparr>attached = {}, vectors_on = False\<rparr>" "famez_active_list demo_msys = []" "\<not> famez_active_lock demo_msys"
    by (simp_all add: demo_msys_def)
  have h: "kzalloc ?h = (Some 2, \<lparr>k_ok = \<lambda>i. i < 9, k_next = 3, k_live = {2, 1, 0}\<rparr>)"
    "kzalloc \<lparr>k_ok = \<lambda>i. i < 9, k_next = 3, k_live = {2, 1, 0}\<rparr> = (Some 3, \<lparr>k_ok = \<lambda>i. i < 9, k_next = 4, k_live = {3, 2, 1, 0}\<rparr>)"
    by (simp_all add: kzalloc_def)
  have b': "famez_bridge_setup 0 40 (demo_mcreated\<lparr>msix_entries := Some (1, es)\<rparr>) ?h \<lparr>misc_devs = {}\<rparr>
      = Some (0, c', \<lparr>k_ok = \<lambda>i. i < 9, k_next = 4, k_live = {3, 2, 1, 0}\<rparr>, \<lparr>misc_devs = {2}\<rparr>)"
    unfolding famez_bridge_setup_def h option.case prod.case b c'_def by simp
  show ?thesis
    using c i b' tx l send
    by (simp add: famez_probe_def probe_config_def probe_bridge_def list_config_def tell_server_def config_ref_def m_put_defs Let_def e y f
        del: One_nat_def)
qed

text \<open>
  C37. Probing a free device always returns. If it succeeds, the device is bound to one new
  configuration at the end of the active list, with all vectors attached and its device
  file registered; removing the device then also returns and gives everything back: the
  memory, the interrupts, the device file, the list, and the device, which is disabled and
  unbound.
\<close>

theorem mono_probe_then_remove:
  assumes "mono_probe_ok E pd y" and "m_clock_runs (mp_kern E)" and "m_clock_room (mp_kern E) 1 (ms_worlds y pd)"
  shows "\<exists>r y'. famez_probe E pd y = Some (r, y') \<and>
    (r = 0 \<longrightarrow> (\<exists>addr y2. mono_probed E pd addr y y' \<and> famez_remove E pd y' = Some y2 \<and> k_live (ms_heap y2) = k_live (ms_heap y) \<and>
       famez_active_list y2 = famez_active_list y \<and> ms_irqs y2 pd = \<lparr>attached = {}, vectors_on = False\<rparr> \<and>
       misc_devs (ms_misc y2) = misc_devs (ms_misc y) \<and>
       drvdata (ms_devs y2 pd) = None \<and> \<not> enabled (ms_devs y2 pd) \<and> \<not> regions (ms_devs y2 pd)))"
proof -
  obtain r y' where run: "famez_probe E pd y = Some (r, y')" using probe_returns [OF assms] by blast
  have "active_ok E (card_loc (mp_pci E pd)) (famez_active_list y) y" "\<forall>k \<in> misc_devs (ms_misc y). k \<in> k_live (ms_heap y)"
    using assms(1) by (simp_all add: mono_probe_ok_def)
  then show ?thesis using run probe_establishes [OF assms(1)] remove_probed by blast
qed

theorem mono_probe_then_remove_witness:
  "\<exists>y' addr y2. famez_probe demo_mprobe 0 demo_msys = Some (0, y') \<and> mono_probed demo_mprobe 0 addr demo_msys y' \<and>
    famez_remove demo_mprobe 0 y' = Some y2 \<and> k_live (ms_heap y2) = {} \<and> famez_active_list y2 = [] \<and>
    misc_devs (ms_misc y2) = {} \<and> drvdata (ms_devs y2 0) = None \<and> \<not> enabled (ms_devs y2 0) \<and> \<not> regions (ms_devs y2 0)"
proof -
  have c: "m_clock_runs (mp_kern demo_mprobe)" "m_clock_room (mp_kern demo_mprobe) 1 (ms_worlds demo_msys 0)"
    using demo_mworld_ok(2) by (simp_all add: demo_mprobe_def demo_msys_def)
  have "k_live (ms_heap demo_msys) = {}" "famez_active_list demo_msys = []" "misc_devs (ms_misc demo_msys) = {}"
    by (simp_all add: demo_msys_def)
  then show ?thesis using mono_probe_then_remove [OF demo_mprobe_ok c] demo_mprobe_succeeds by auto
qed

text \<open>
  When the regions of the device cannot be reserved, \<open>create_config\<close> gives up without
  freeing the configuration it has just allocated and bound to the device: the probe
  fails, the memory stays allocated, and every later probe of the device is refused as
  already configured.
\<close>

theorem failed_mapping_blocks_the_device:
  assumes "drvdata (ms_devs y pd) = None" and "kzalloc (ms_heap y) = (Some addr, h)" and "\<not> pci_enable_device (mp_pci E pd) < 0"
    and "revision (mp_pci E pd) = 1" and "msix_cap (mp_pci E pd)" and "pci_resource_start_1 (mp_pci E pd)"
    and "pci_request_regions (mp_pci E pd) < 0"
  shows "\<exists>y'. famez_probe E pd y = Some (pci_request_regions (mp_pci E pd), y') \<and> addr \<in> k_live (ms_heap y') \<and>
    famez_probe E pd y' = Some (- EALREADY, y')"
proof -
  let ?P = "mp_pci E pd"
  let ?d = "(ms_devs y pd)\<lparr>enabled := True, drvdata := Some addr\<rparr>"
  have "create_config ?P pd (ms_heap y) ((ms_devs y pd)\<lparr>enabled := True\<rparr>) (ms_worlds y pd)
      = Some (Inl (pci_request_regions ?P), h, ?d, ms_worlds y pd)"
    using assms(2,7) by (simp add: create_config_def mono_mapBARs_def)
  then have "famez_probe E pd y = Some (pci_request_regions ?P, y\<lparr>ms_heap := h, ms_devs := (ms_devs y)(pd := ?d\<lparr>enabled := False\<rparr>)\<rparr>)"
    using assms by (simp add: famez_probe_def probe_config_def mono_disable_device_def destroy_config_def m_put_defs Let_def)
  moreover have "addr \<in> k_live h" using assms(2) by (auto simp: kzalloc_def Let_def split: if_splits)
  ultimately show ?thesis by (simp add: famez_probe_def)
qed

theorem failed_mapping_blocks_the_device_witness:
  "\<exists>y'. famez_probe (demo_mprobe\<lparr>mp_pci := \<lambda>_. demo_pci\<lparr>pci_request_regions := - EBUSY\<rparr>\<rparr>) 0 demo_msys = Some (- EBUSY, y') \<and>
    0 \<in> k_live (ms_heap y') \<and>
    famez_probe (demo_mprobe\<lparr>mp_pci := \<lambda>_. demo_pci\<lparr>pci_request_regions := - EBUSY\<rparr>\<rparr>) 0 y' = Some (- EALREADY, y')"
proof -
  let ?E = "demo_mprobe\<lparr>mp_pci := \<lambda>_. demo_pci\<lparr>pci_request_regions := - EBUSY\<rparr>\<rparr>"
  have "kzalloc (ms_heap demo_msys) = (Some 0, \<lparr>k_ok = \<lambda>i. i < 9, k_next = 1, k_live = {0}\<rparr>)"
    by (simp add: kzalloc_def demo_msys_def demo_heap_def)
  from failed_mapping_blocks_the_device [OF _ this, of 0 ?E] show ?thesis
    by (simp add: demo_msys_def untaken_def demo_pci_def)
qed

end
