(* ===== verification/Ivshmem_Os.thy ===== *)
theory Ivshmem_Os
  imports Famez_Cstring
begin

text \<open>
  What \<open>docs/ivshmem-server\<close> and \<open>docs/ivshmem-client\<close> share: the state of a process as far
  as they touch it, and the protocol constants. \<open>open_fds\<close> are the open descriptors of the
  process, \<open>wire\<close> what it has sent, oldest first, as triples of socket, number and attached
  descriptor (-1 for none), \<open>inbox\<close> what it has still to receive, \<open>kicks\<close> the eventfds it has
  written to. A system call or library function the programs call is a parameter.
\<close>

record sock_os =
  open_fds :: "int set"
  wire :: "(int \<times> int \<times> int) list"
  inbox :: "(int \<times> int) list"
  kicks :: "int list"
  errno :: int

definition os_close :: "int \<Rightarrow> sock_os \<Rightarrow> sock_os" where
  "os_close fd os = os\<lparr>open_fds := open_fds os - {fd}\<rparr>"

text \<open>\<open>FD_SET\<close> on a descriptor that does not fit into an \<open>fd_set\<close> is undefined.\<close>

definition FD_SETSIZE :: int where
  "FD_SETSIZE = 1024"

definition FD_SET :: "int \<Rightarrow> int set \<Rightarrow> int set option" where
  "FD_SET fd fds = (if 0 \<le> fd \<and> fd < FD_SETSIZE then Some (insert fd fds) else None)"

text \<open>"The protocol version number, currently zero."\<close>

definition IVSHMEM_PROTOCOL_VERSION :: int where
  "IVSHMEM_PROTOCOL_VERSION = 0"

definition PATH_MAX :: nat where
  "PATH_MAX = 4096"

definition sizeof_sun_path :: nat where
  "sizeof_sun_path = 108"

text \<open>
  \<open>FD_SET\<close> and the maximum, as both programs compute them for \<open>select\<close>.
\<close>

definition add_fd :: "int \<Rightarrow> int set \<times> int \<Rightarrow> (int set \<times> int) option" where
  "add_fd fd st = (case st of (fds, maxfd) \<Rightarrow> do {
     fds1 \<leftarrow> FD_SET fd fds;
     Some (fds1, if fd \<ge> maxfd then fd + 1 else maxfd)
   })"

fun add_fds :: "int list \<Rightarrow> int set \<times> int \<Rightarrow> (int set \<times> int) option" where
  "add_fds [] st = Some st"
| "add_fds (fd # rest) st = do { st1 \<leftarrow> add_fd fd st; add_fds rest st1 }"

text \<open>
  All descriptors are in the set and below the bound, and nothing else was added.
\<close>

lemma add_fds_result:
  assumes "\<forall>fd \<in> set l. 0 \<le> fd \<and> fd < FD_SETSIZE" and "\<forall>fd \<in> fds. fd < m"
  shows "\<exists>m'. add_fds l (fds, m) = Some (fds \<union> set l, m') \<and> (\<forall>fd \<in> fds \<union> set l. fd < m')"
  using assms
proof (induction l arbitrary: fds m)
  case (Cons a l)
  let ?m = "if m \<le> a then a + 1 else m"
  have "\<forall>fd \<in> insert a fds. fd < ?m" using Cons.prems(2) by auto
  from Cons.IH [OF _ this] Cons.prems(1) show ?case by (simp add: add_fd_def FD_SET_def)
qed simp

lemma add_fds_too_large:
  assumes "fd \<in> set l" and "\<not> (0 \<le> fd \<and> fd < FD_SETSIZE)"
  shows "add_fds l st = None"
  using assms
proof (induction l arbitrary: st)
  case (Cons a l)
  then show ?case by (cases st) (auto simp: add_fd_def FD_SET_def split: bind_splits)
qed simp

text \<open>
  The main loops: one pass returns whether the loop goes on, the value to return and the new
  state. A loop that runs forever has no result.
\<close>

partial_function (option) run_loop ::
  "('s \<Rightarrow> bool) \<Rightarrow> ('s \<Rightarrow> (bool \<times> int \<times> 's) option) \<Rightarrow> int \<Rightarrow> 's \<Rightarrow> (int \<times> 's) option" where
  "run_loop quit pass ret s =
     (if quit s then Some (ret, s)
      else do { (go, r, s1) \<leftarrow> pass s; if go then run_loop quit pass r s1 else Some (r, s1) })"

text \<open>What every pass keeps, the loop keeps.\<close>

locale loop_invariant =
  fixes pass :: "'s \<Rightarrow> (bool \<times> int \<times> 's) option" and I :: "'s \<Rightarrow> bool"
  assumes pass_keeps: "I s \<Longrightarrow> pass s = Some (go, r, s') \<Longrightarrow> I s'"
begin

lemma loop_keeps:
  assumes run: "run_loop quit pass ret s = Some (r, s')" and "I s"
  shows "I s'"
proof -
  have "I (snd (r, s'))"
  proof (rule run_loop.raw_induct [where P = "\<lambda>quit pass' ret s x. pass' = pass \<longrightarrow> I s \<longrightarrow> I (snd x)", OF _ run, rule_format],
      goal_cases)
    case step: (1 f quit pass' ret s x)
    then show ?case
    proof (cases "quit s")
      case False
      then obtain go r s1 where "pass s = Some (go, r, s1)" "(if go then f quit pass r s1 else Some (r, s1)) = Some x"
        using step(2,3) by (auto split: bind_splits)
      then show ?thesis using step(1) [of quit pass r s1 x] pass_keeps [OF step(4)] by (cases go) auto
    qed auto
  qed (use assms(2) in auto)
  then show ?thesis by simp
qed

end

text \<open>A loop that is never told to quit returns what its last pass returned; if no pass ends it, it runs forever.\<close>

lemma run_loop_last:
  assumes "\<And>s r s'. pass s = Some (False, r, s') \<Longrightarrow> P r" and "\<And>s. \<not> quit s" and run: "run_loop quit pass ret s = Some x"
  shows "P (fst x)"
proof (rule run_loop.raw_induct [where P = "\<lambda>quit' pass' ret s x. quit' = quit \<longrightarrow> pass' = pass \<longrightarrow> P (fst x)",
      OF _ run, rule_format], goal_cases)
  case step: (1 f quit' pass' ret s x)
  then obtain go r s1 where "pass s = Some (go, r, s1)" "(if go then f quit pass r s1 else Some (r, s1)) = Some x"
    using assms(2) by (auto split: bind_splits)
  then show ?case using step(1) [of quit pass r s1 x] assms(1) [of s r s1] by (cases go) auto
qed simp_all

lemma run_loop_forever:
  assumes "\<And>s. \<not> quit s" and "\<And>s go r s'. pass s = Some (go, r, s') \<Longrightarrow> go"
  shows "run_loop quit pass ret s = None"
proof (rule ccontr)
  assume "run_loop quit pass ret s \<noteq> None"
  then obtain x where "run_loop quit pass ret s = Some x" by blast
  from run_loop_last [of pass "\<lambda>_. False", OF _ _ this] assms show False by blast
qed

lemma os_close_simps [simp]:
  "open_fds (os_close fd os) = open_fds os - {fd}" "wire (os_close fd os) = wire os" "inbox (os_close fd os) = inbox os"
  by (simp_all add: os_close_def)

lemma not_image_neq: "f p \<notin> f ` S \<Longrightarrow> x \<in> S \<Longrightarrow> f x \<noteq> f p"
  by (metis imageI)

end
