(* ===== verification/Ivshmem_Server.thy ===== *)
theory Ivshmem_Server
  imports Ivshmem_Os
begin

text \<open>
  \<open>docs/ivshmem-server\<close>: the server that introduces the clients to each other. It hands every
  new client an id, the shared memory and one eventfd per vector of every peer, and tells
  the others. \<open>server_env\<close> are the system calls and the QEMU functions it uses; \<open>server_env_ok\<close>
  states what they promise. A debug message has no effect on the model.
\<close>

section \<open>Data\<close>

definition IVSHMEM_SERVER_MAX_VECTORS :: nat where
  "IVSHMEM_SERVER_MAX_VECTORS = 64"

definition IVSHMEM_SERVER_MAX_HUGEPAGE_SIZE :: u32 where
  "IVSHMEM_SERVER_MAX_HUGEPAGE_SIZE = 1024 * 1024 * 1024"

record event_notifier =
  rfd :: int
  wfd :: int

record server_peer =
  sp_sock_fd :: int
  sp_id :: int
  sp_vectors :: "event_notifier list"
  sp_vectors_count :: u32

record ivshmem_server =
  unix_sock_path :: bytes
  srv_sock_fd :: int
  shm_path :: bytes
  use_shm_open :: bool
  shm_size :: u64
  shm_fd :: int
  n_vectors :: u32
  cur_id :: u16
  verbose :: bool
  peer_list :: "server_peer list"

record server_env =
  qemu_accept :: "int \<Rightarrow> sock_os \<Rightarrow> int \<times> sock_os"
  event_notifier_init :: "sock_os \<Rightarrow> int \<times> event_notifier \<times> sock_os"
  event_notifier_cleanup :: "event_notifier \<Rightarrow> sock_os \<Rightarrow> sock_os"
  sendmsg :: "int \<Rightarrow> int \<Rightarrow> int \<Rightarrow> sock_os \<Rightarrow> int \<times> sock_os"
  open_shm :: "bool \<Rightarrow> string \<Rightarrow> sock_os \<Rightarrow> int \<times> sock_os"
  fstat_size :: "int \<Rightarrow> sock_os \<Rightarrow> u64 option"
  ftruncate :: "int \<Rightarrow> u32 \<Rightarrow> sock_os \<Rightarrow> int \<times> sock_os"
  pow2ceil :: "u64 \<Rightarrow> u64"
  socket :: "sock_os \<Rightarrow> int \<times> sock_os"
  bind_path :: "int \<Rightarrow> string \<Rightarrow> sock_os \<Rightarrow> int \<times> sock_os"
  listen :: "int \<Rightarrow> sock_os \<Rightarrow> int \<times> sock_os"
  unlink_path :: "string \<Rightarrow> sock_os \<Rightarrow> sock_os"

section \<open>Messages to a client\<close>

definition ivshmem_server_send_one_msg :: "server_env \<Rightarrow> int \<Rightarrow> int \<Rightarrow> int \<Rightarrow> sock_os \<Rightarrow> int \<times> sock_os" where
  "ivshmem_server_send_one_msg E sock_fd peer fd os =
     (case sendmsg E sock_fd peer (if fd \<ge> 0 then fd else - 1) os of
        (ret, os1) \<Rightarrow> if ret \<le> 0 then (- 1, os1) else (0, os1))"

text \<open>A loop of such calls whose results are ignored.\<close>

fun send_msgs :: "server_env \<Rightarrow> (int \<times> int \<times> int) list \<Rightarrow> sock_os \<Rightarrow> sock_os" where
  "send_msgs E [] os = os"
| "send_msgs E ((sock_fd, peer, fd) # rest) os = send_msgs E rest (snd (ivshmem_server_send_one_msg E sock_fd peer fd os))"

text \<open>\<open>for (i = 0; i < peer->vectors_count; i++)\<close>\<close>

definition vectors_upto :: "u32 \<Rightarrow> server_peer \<Rightarrow> event_notifier list" where
  "vectors_upto n p = take (unat n) (sp_vectors p)"

fun cleanup_vectors :: "server_env \<Rightarrow> event_notifier list \<Rightarrow> sock_os \<Rightarrow> sock_os" where
  "cleanup_vectors E [] os = os"
| "cleanup_vectors E (e # rest) os = cleanup_vectors E rest (event_notifier_cleanup E e os)"

definition ivshmem_server_free_peer ::
  "server_env \<Rightarrow> server_peer \<Rightarrow> ivshmem_server \<Rightarrow> sock_os \<Rightarrow> ivshmem_server \<times> sock_os" where
  "ivshmem_server_free_peer E p s os =
     (let os1 = os_close (sp_sock_fd p) os;
          s1 = s\<lparr>peer_list := remove1 p (peer_list s)\<rparr>;
          os2 = send_msgs E (map (\<lambda>other. (sp_sock_fd other, sp_id p, - 1)) (peer_list s1)) os1;
          os3 = cleanup_vectors E (vectors_upto (sp_vectors_count p) p) os2
      in (s1, os3))"

definition ivshmem_server_send_initial_info ::
  "server_env \<Rightarrow> ivshmem_server \<Rightarrow> server_peer \<Rightarrow> sock_os \<Rightarrow> int \<times> sock_os" where
  "ivshmem_server_send_initial_info E s p os =
     (case ivshmem_server_send_one_msg E (sp_sock_fd p) IVSHMEM_PROTOCOL_VERSION (- 1) os of
        (ret, os1) \<Rightarrow>
          if ret < 0 then (- 1, os1)
          else case ivshmem_server_send_one_msg E (sp_sock_fd p) (sp_id p) (- 1) os1 of
            (ret2, os2) \<Rightarrow>
              if ret2 < 0 then (- 1, os2)
              else case ivshmem_server_send_one_msg E (sp_sock_fd p) (- 1) (shm_fd s) os2 of
                (ret3, os3) \<Rightarrow> if ret3 < 0 then (- 1, os3) else (0, os3))"

section \<open>A new connection\<close>

definition ivshmem_server_search_peer :: "ivshmem_server \<Rightarrow> int \<Rightarrow> server_peer option" where
  "ivshmem_server_search_peer s peer = find (\<lambda>p. sp_id p = peer) (peer_list s)"

text \<open>The search for an unused id, with the number of attempts left.\<close>

fun unused_id :: "nat \<Rightarrow> ivshmem_server \<Rightarrow> bool \<times> ivshmem_server" where
  "unused_id n s =
     (if n = 0 then (False, s)
      else if ivshmem_server_search_peer s (int (unat (cur_id s))) = None then (True, s)
      else unused_id (n - 1) (s\<lparr>cur_id := cur_id s + 1\<rparr>))"

declare unused_id.simps [simp del]

text \<open>
  The loop over \<open>event_notifier_init\<close>: the index it ended with and whether it failed there.
  Past the end of the array it has no result.
\<close>

fun init_vectors ::
  "server_env \<Rightarrow> nat \<Rightarrow> nat \<Rightarrow> event_notifier list \<Rightarrow> sock_os \<Rightarrow> (bool \<times> nat \<times> event_notifier list \<times> sock_os) option" where
  "init_vectors E 0 i vs os = Some (True, i, vs, os)"
| "init_vectors E (Suc n) i vs os =
     (if i \<ge> length vs then None
      else case event_notifier_init E os of
        (ret, e, os1) \<Rightarrow>
          if ret < 0 then Some (False, i, vs[i := e], os1) else init_vectors E n (Suc i) (vs[i := e]) os1)"

text \<open>The label \<open>fail\<close>.\<close>

definition new_conn_fail ::
  "server_env \<Rightarrow> nat \<Rightarrow> event_notifier list \<Rightarrow> int \<Rightarrow> ivshmem_server \<Rightarrow> sock_os \<Rightarrow> (int \<times> ivshmem_server \<times> sock_os) option" where
  "new_conn_fail E i vs newfd s os =
     Some (- 1, s, os_close newfd (cleanup_vectors E (rev (take i vs)) os))"

text \<open>What the others, the new peer and again the new peer are told.\<close>

definition advertise_new :: "ivshmem_server \<Rightarrow> server_peer \<Rightarrow> (int \<times> int \<times> int) list" where
  "advertise_new s p =
     concat (map (\<lambda>other. map (\<lambda>e. (sp_sock_fd other, sp_id p, wfd e)) (vectors_upto (sp_vectors_count p) p)) (peer_list s))"

definition advertise_others :: "ivshmem_server \<Rightarrow> server_peer \<Rightarrow> (int \<times> int \<times> int) list" where
  "advertise_others s p =
     concat (map (\<lambda>other. map (\<lambda>e. (sp_sock_fd p, sp_id other, wfd e)) (vectors_upto (sp_vectors_count p) other)) (peer_list s))"

definition advertise_self :: "server_peer \<Rightarrow> (int \<times> int \<times> int) list" where
  "advertise_self p = map (\<lambda>e. (sp_sock_fd p, sp_id p, rfd e)) (vectors_upto (sp_vectors_count p) p)"

text \<open>The part of \<open>ivshmem_server_handle_new_conn\<close> after an id was found.\<close>

definition new_conn_peer :: "server_env \<Rightarrow> int \<Rightarrow> ivshmem_server \<Rightarrow> sock_os \<Rightarrow> (int \<times> ivshmem_server \<times> sock_os) option" where
  "new_conn_peer E newfd s1 os1 = do {
     let s2 = s1\<lparr>cur_id := cur_id s1 + 1\<rparr>;
     (ok, i, vs, os2) \<leftarrow> init_vectors E (unat (n_vectors s2)) 0
        (replicate IVSHMEM_SERVER_MAX_VECTORS \<lparr>rfd = 0, wfd = 0\<rparr>) os1;
     let p = \<lparr>sp_sock_fd = newfd, sp_id = int (unat (cur_id s1)), sp_vectors = vs, sp_vectors_count = n_vectors s2\<rparr>;
     if \<not> ok then new_conn_fail E i vs newfd s2 os2
     else case ivshmem_server_send_initial_info E s2 p os2 of
       (ret, os3) \<Rightarrow>
         if ret < 0 then new_conn_fail E i vs newfd s2 os3
         else
           let os4 = send_msgs E (advertise_new s2 p) os3;
               os5 = send_msgs E (advertise_others s2 p) os4;
               os6 = send_msgs E (advertise_self p) os5
           in Some (0, s2\<lparr>peer_list := peer_list s2 @ [p]\<rparr>, os6)
   }"

definition ivshmem_server_handle_new_conn ::
  "server_env \<Rightarrow> ivshmem_server \<Rightarrow> sock_os \<Rightarrow> (int \<times> ivshmem_server \<times> sock_os) option" where
  "ivshmem_server_handle_new_conn E s os =
     (case qemu_accept E (srv_sock_fd s) os of
        (newfd, os1) \<Rightarrow>
          if newfd < 0 then Some (- 1, s, os1)
          else case unused_id (2 ^ 16 - 1) s of
            (False, s1) \<Rightarrow> Some (- 1, s1, os_close newfd os1)
          | (True, s1) \<Rightarrow> new_conn_peer E newfd s1 os1)"

section \<open>Starting and closing\<close>

partial_function (option) truncate_loop :: "server_env \<Rightarrow> int \<Rightarrow> u32 \<Rightarrow> sock_os \<Rightarrow> (int \<times> sock_os) option" where
  "truncate_loop E fd shmsize os =
     (if shmsize \<le> IVSHMEM_SERVER_MAX_HUGEPAGE_SIZE then
        (case ftruncate E fd shmsize os of
           (ret, os1) \<Rightarrow> if ret = 0 then Some (ret, os1) else truncate_loop E fd (shmsize * 2) os1)
      else Some (- 1, os))"

definition ivshmem_server_ftruncate :: "server_env \<Rightarrow> int \<Rightarrow> u32 \<Rightarrow> sock_os \<Rightarrow> (int \<times> sock_os) option" where
  "ivshmem_server_ftruncate E fd shmsize os =
     (let shmsize1 = ucast (pow2ceil E (ucast shmsize)) in
      if fstat_size E fd os = Some (ucast shmsize1) then Some (0, os) else truncate_loop E fd shmsize1 os)"

text \<open>\<open>memset(server, 0, sizeof( *server))\<close>\<close>

definition zero_server :: ivshmem_server where
  "zero_server = \<lparr>unix_sock_path = replicate PATH_MAX NUL, srv_sock_fd = 0, shm_path = replicate PATH_MAX NUL, use_shm_open = False,
     shm_size = 0, shm_fd = 0, n_vectors = 0, cur_id = 0, verbose = False, peer_list = []\<rparr>"

definition ivshmem_server_init ::
  "string \<Rightarrow> string \<Rightarrow> bool \<Rightarrow> u64 \<Rightarrow> u32 \<Rightarrow> bool \<Rightarrow> (int \<times> ivshmem_server) option" where
  "ivshmem_server_init sock_path shm use_shm sz n verb = do {
     let s0 = zero_server\<lparr>verbose := verb\<rparr>;
     (sp, ret) \<leftarrow> snprintf (unix_sock_path s0) PATH_MAX sock_path;
     let s1 = s0\<lparr>unix_sock_path := sp\<rparr>;
     if ret \<ge> PATH_MAX then Some (- 1, s1)
     else do {
       (mp, ret2) \<leftarrow> snprintf (shm_path s1) PATH_MAX shm;
       let s2 = s1\<lparr>shm_path := mp\<rparr>;
       if ret2 \<ge> PATH_MAX then Some (- 1, s2)
       else Some (0, s2\<lparr>use_shm_open := use_shm, shm_size := sz, n_vectors := n, peer_list := []\<rparr>)
     }
   }"

text \<open>The labels \<open>err_close_sock\<close> and \<open>err_close_shm\<close>.\<close>

definition err_close_shm :: "int \<Rightarrow> ivshmem_server \<Rightarrow> sock_os \<Rightarrow> (int \<times> ivshmem_server \<times> sock_os) option" where
  "err_close_shm shm s os = Some (- 1, s, os_close shm os)"

definition err_close_sock :: "int \<Rightarrow> int \<Rightarrow> ivshmem_server \<Rightarrow> sock_os \<Rightarrow> (int \<times> ivshmem_server \<times> sock_os) option" where
  "err_close_sock sock shm s os = err_close_shm shm s (os_close sock os)"

definition ivshmem_server_start :: "server_env \<Rightarrow> ivshmem_server \<Rightarrow> sock_os \<Rightarrow> (int \<times> ivshmem_server \<times> sock_os) option" where
  "ivshmem_server_start E s os =
     (case open_shm E (use_shm_open s) (cstr (shm_path s)) os of
        (shm, os1) \<Rightarrow>
          if shm < 0 then Some (- 1, s, os1)
          else do {
            (ret, os2) \<leftarrow> ivshmem_server_ftruncate E shm (ucast (shm_size s)) os1;
            if ret < 0 then err_close_shm shm s os2
            else case socket E os2 of
              (sock, os3) \<Rightarrow>
                if sock < 0 then err_close_shm shm s os3
                else do {
                  (path, len) \<leftarrow> snprintf (replicate sizeof_sun_path NUL) sizeof_sun_path (cstr (unix_sock_path s));
                  if len \<ge> sizeof_sun_path then err_close_sock sock shm s os3
                  else case bind_path E sock (cstr path) os3 of
                    (ret4, os4) \<Rightarrow>
                      if ret4 < 0 then err_close_sock sock shm s os4
                      else case listen E sock os4 of
                        (ret5, os5) \<Rightarrow>
                          if ret5 < 0 then err_close_sock sock shm s os5
                          else Some (0, s\<lparr>srv_sock_fd := sock, shm_fd := shm\<rparr>, os5)
                }
          })"

fun free_peers :: "server_env \<Rightarrow> server_peer list \<Rightarrow> ivshmem_server \<Rightarrow> sock_os \<Rightarrow> ivshmem_server \<times> sock_os" where
  "free_peers E [] s os = (s, os)"
| "free_peers E (p # rest) s os =
     (case ivshmem_server_free_peer E p s os of (s1, os1) \<Rightarrow> free_peers E rest s1 os1)"

definition ivshmem_server_close :: "server_env \<Rightarrow> ivshmem_server \<Rightarrow> sock_os \<Rightarrow> ivshmem_server \<times> sock_os" where
  "ivshmem_server_close E s os =
     (case free_peers E (peer_list s) s os of
        (s1, os1) \<Rightarrow>
          let os2 = unlink_path E (cstr (unix_sock_path s1)) os1;
              os3 = os_close (srv_sock_fd s1) os2;
              os4 = os_close (shm_fd s1) os3
          in (s1\<lparr>srv_sock_fd := - 1, shm_fd := - 1\<rparr>, os4))"

section \<open>Waiting for events\<close>

definition ivshmem_server_get_fds :: "ivshmem_server \<Rightarrow> int set \<times> int \<Rightarrow> (int set \<times> int) option" where
  "ivshmem_server_get_fds s st =
     (if srv_sock_fd s = - 1 then Some st
      else add_fds (srv_sock_fd s # map sp_sock_fd (peer_list s)) st)"

definition ivshmem_server_handle_fds ::
  "server_env \<Rightarrow> int set \<Rightarrow> int \<Rightarrow> ivshmem_server \<Rightarrow> sock_os \<Rightarrow> (int \<times> ivshmem_server \<times> sock_os) option" where
  "ivshmem_server_handle_fds E fds maxfd s os = do {
     (bad, s1, os1) \<leftarrow>
       (if srv_sock_fd s < maxfd \<and> srv_sock_fd s \<in> fds
        then do { (ret, s1, os1) \<leftarrow> ivshmem_server_handle_new_conn E s os; Some (ret < 0 \<and> errno os1 \<noteq> EINTR, s1, os1) }
        else Some (False, s, os));
     if bad then Some (- 1, s1, os1)
     else case free_peers E (filter (\<lambda>p. sp_sock_fd p < maxfd \<and> sp_sock_fd p \<in> fds) (peer_list s1)) s1 os1 of
       (s2, os2) \<Rightarrow> Some (0, s2, os2)
   }"

section \<open>What the system calls promise\<close>

text \<open>A call that opens a descriptor returns a new one, or a negative number and opens none.\<close>

definition opens_one :: "int \<Rightarrow> sock_os \<Rightarrow> sock_os \<Rightarrow> bool" where
  "opens_one r os os' \<longleftrightarrow> wire os' = wire os \<and>
     (if r < 0 then open_fds os' = open_fds os else r \<notin> open_fds os \<and> open_fds os' = insert r (open_fds os))"

definition opens_none :: "sock_os \<Rightarrow> sock_os \<Rightarrow> bool" where
  "opens_none os os' \<longleftrightarrow> wire os' = wire os \<and> open_fds os' = open_fds os"

definition notifier_fds :: "event_notifier \<Rightarrow> int set" where
  "notifier_fds e = {rfd e, wfd e}"

definition server_env_ok :: "server_env \<Rightarrow> bool" where
  "server_env_ok E \<longleftrightarrow>
     (\<forall>l os. opens_one (fst (qemu_accept E l os)) os (snd (qemu_accept E l os))) \<and>
     (\<forall>os r e os'. event_notifier_init E os = (r, e, os') \<longrightarrow> wire os' = wire os \<and>
        (if r < 0 then open_fds os' = open_fds os
         else notifier_fds e \<inter> open_fds os = {} \<and> open_fds os' = open_fds os \<union> notifier_fds e \<and> 0 \<le> rfd e \<and> 0 \<le> wfd e)) \<and>
     (\<forall>e os. wire (event_notifier_cleanup E e os) = wire os \<and>
        open_fds (event_notifier_cleanup E e os) = open_fds os - notifier_fds e) \<and>
     (\<forall>sock i fd os r os'. sendmsg E sock i fd os = (r, os') \<longrightarrow> open_fds os' = open_fds os \<and>
        wire os' = (if r \<le> 0 then wire os else wire os @ [(sock, i, fd)])) \<and>
     (\<forall>u path os. opens_one (fst (open_shm E u path os)) os (snd (open_shm E u path os))) \<and>
     (\<forall>os. opens_one (fst (socket E os)) os (snd (socket E os))) \<and>
     (\<forall>fd n os. opens_none os (snd (ftruncate E fd n os))) \<and>
     (\<forall>fd path os. opens_none os (snd (bind_path E fd path os))) \<and>
     (\<forall>fd os. opens_none os (snd (listen E fd os))) \<and>
     (\<forall>path os. opens_none os (unlink_path E path os))"

lemma server_env_okD:
  assumes "server_env_ok E"
  shows "qemu_accept E l os = (r, os') \<Longrightarrow> opens_one r os os'"
    and "event_notifier_init E os = (r, e, os') \<Longrightarrow> wire os' = wire os \<and>
        (if r < 0 then open_fds os' = open_fds os
         else notifier_fds e \<inter> open_fds os = {} \<and> open_fds os' = open_fds os \<union> notifier_fds e \<and> 0 \<le> rfd e \<and> 0 \<le> wfd e)"
    and "open_fds (event_notifier_cleanup E e os) = open_fds os - notifier_fds e"
    and "sendmsg E sock i fd os = (r, os') \<Longrightarrow> open_fds os' = open_fds os \<and>
        wire os' = (if r \<le> 0 then wire os else wire os @ [(sock, i, fd)])"
    and "open_shm E u path os = (r, os') \<Longrightarrow> opens_one r os os'"
    and "socket E os = (r, os') \<Longrightarrow> opens_one r os os'"
    and "ftruncate E fd n os = (r, os') \<Longrightarrow> opens_none os os'"
    and "bind_path E fd path os = (r, os') \<Longrightarrow> opens_none os os'"
    and "listen E fd os = (r, os') \<Longrightarrow> opens_none os os'"
    and "opens_none os (unlink_path E path os)"
    and "wire (event_notifier_cleanup E e os) = wire os"
  using assms unfolding server_env_ok_def by (metis fst_conv snd_conv)+

lemma send_one_msg_os:
  assumes "server_env_ok E"
  shows "open_fds (snd (ivshmem_server_send_one_msg E sock i fd os)) = open_fds os"
  using server_env_okD(4) [OF assms] by (auto simp: ivshmem_server_send_one_msg_def split: prod.splits)

lemma send_msgs_open [simp]:
  assumes "server_env_ok E"
  shows "open_fds (send_msgs E ms os) = open_fds os"
  by (induction ms arbitrary: os) (auto simp: send_one_msg_os [OF assms])

lemma cleanup_vectors_open [simp]:
  assumes "server_env_ok E"
  shows "open_fds (cleanup_vectors E es os) = open_fds os - \<Union> (notifier_fds ` set es)"
  by (induction es arbitrary: os) (auto simp: server_env_okD(3) [OF assms])

lemma send_initial_info_open:
  assumes "server_env_ok E" and "ivshmem_server_send_initial_info E s p os = (r, os')"
  shows "open_fds os' = open_fds os"
  using assms(2) send_one_msg_os [OF assms(1)]
  by (auto simp: ivshmem_server_send_initial_info_def split: prod.splits if_splits dest!: arg_cong [where f = snd])

text \<open>The loop over the vectors opens the descriptors of exactly the notifiers it has filled.\<close>

lemma init_vectors_result:
  assumes E: "server_env_ok E"
  shows "i + n \<le> length vs \<Longrightarrow> \<exists>ok j vs' os'. init_vectors E n i vs os = Some (ok, j, vs', os') \<and>
    length vs' = length vs \<and> i \<le> j \<and> j \<le> i + n \<and> (ok \<longrightarrow> j = i + n) \<and> take i vs' = take i vs \<and>
    (\<forall>e \<in> set (drop i (take j vs')). 0 \<le> rfd e \<and> 0 \<le> wfd e) \<and>
    \<Union> (notifier_fds ` set (drop i (take j vs'))) \<inter> open_fds os = {} \<and>
    open_fds os' = open_fds os \<union> \<Union> (notifier_fds ` set (drop i (take j vs')))"
proof (induction n arbitrary: i vs os)
  case 0
  then show ?case by (auto intro: exI [of _ True])
next
  case (Suc n)
  obtain r e os1 where e: "event_notifier_init E os = (r, e, os1)" by (metis surj_pair)
  note p = server_env_okD(2) [OF E e]
  show ?case
  proof (cases "r < 0")
    case True
    then show ?thesis using e p Suc.prems by (auto intro: exI [of _ False])
  next
    case False
    with p have o: "notifier_fds e \<inter> open_fds os = {}" "open_fds os1 = open_fds os \<union> notifier_fds e" "0 \<le> rfd e \<and> 0 \<le> wfd e" by simp_all
    have "Suc i + n \<le> length (vs[i := e])" using Suc.prems by simp
    from Suc.IH [OF this, of os1] obtain ok j vs' os' where
      r: "init_vectors E n (Suc i) (vs[i := e]) os1 = Some (ok, j, vs', os')" "length vs' = length vs" "Suc i \<le> j" "j \<le> Suc i + n"
      "ok \<longrightarrow> j = Suc i + n" "take (Suc i) vs' = take (Suc i) (vs[i := e])"
      "\<forall>e \<in> set (drop (Suc i) (take j vs')). 0 \<le> rfd e \<and> 0 \<le> wfd e"
      "\<Union> (notifier_fds ` set (drop (Suc i) (take j vs'))) \<inter> open_fds os1 = {}"
      "open_fds os' = open_fds os1 \<union> \<Union> (notifier_fds ` set (drop (Suc i) (take j vs')))" by auto
    have i: "i < length vs'" using r(2) Suc.prems by simp
    have "vs' ! i = e" using arg_cong [OF r(6), of "\<lambda>l. l ! i"] i r(2) by simp
    then have d: "drop i (take j vs') = e # drop (Suc i) (take j vs')"
      using Cons_nth_drop_Suc [of i "take j vs'"] i r(3) by simp
    have "take i vs' = take i vs" using arg_cong [OF r(6), of "take i"] i r(2) by (simp add: min_def)
    moreover have "init_vectors E (Suc n) i vs os = Some (ok, j, vs', os')" using r(1) e False Suc.prems by simp
    moreover have "\<Union> (notifier_fds ` set (drop i (take j vs'))) = notifier_fds e \<union> \<Union> (notifier_fds ` set (drop (Suc i) (take j vs')))"
      unfolding d by simp
    moreover have "\<forall>e \<in> set (drop i (take j vs')). 0 \<le> rfd e \<and> 0 \<le> wfd e" unfolding d using r(7) o(3) by simp
    ultimately show ?thesis using r(2-5,8,9) o(1,2) by (intro exI [of _ ok] exI [of _ j] exI [of _ vs'] exI [of _ os']) auto
  qed
qed

section \<open>The invariant of the server\<close>

definition peer_fds :: "server_peer \<Rightarrow> int set" where
  "peer_fds p = insert (sp_sock_fd p) (\<Union> (notifier_fds ` set (vectors_upto (sp_vectors_count p) p)))"

definition peers_fds :: "server_peer list \<Rightarrow> int set" where
  "peers_fds ps = \<Union> (peer_fds ` set ps)"

fun disjoint_peers :: "server_peer list \<Rightarrow> bool" where
  "disjoint_peers [] = True"
| "disjoint_peers (p # ps) = (peer_fds p \<inter> peers_fds ps = {} \<and> disjoint_peers ps)"

text \<open>
  Every peer has its own id, which fits into the doorbell register, all the vectors the
  server was started with, and descriptors that are open and shared with nobody. The
  descriptors of the server itself are open, too.
\<close>

definition server_inv :: "ivshmem_server \<Rightarrow> sock_os \<Rightarrow> bool" where
  "server_inv s os \<longleftrightarrow> unat (n_vectors s) \<le> IVSHMEM_SERVER_MAX_VECTORS \<and> distinct (map sp_id (peer_list s)) \<and>
     (\<forall>p \<in> set (peer_list s). 0 \<le> sp_id p \<and> sp_id p < 2 ^ 16 \<and> sp_vectors_count p = n_vectors s \<and>
        length (sp_vectors p) = IVSHMEM_SERVER_MAX_VECTORS \<and> (\<forall>e \<in> set (vectors_upto (n_vectors s) p). 0 \<le> rfd e \<and> 0 \<le> wfd e)) \<and>
     disjoint_peers (peer_list s) \<and> peers_fds (peer_list s) \<subseteq> open_fds os \<and>
     {srv_sock_fd s, shm_fd s} \<subseteq> open_fds os - peers_fds (peer_list s) \<and> 0 \<le> shm_fd s"

lemma peers_fds_simps [simp]:
  "peers_fds [] = {}" "peers_fds (p # ps) = peer_fds p \<union> peers_fds ps" "peers_fds (ps @ qs) = peers_fds ps \<union> peers_fds qs"
  by (auto simp: peers_fds_def)

lemma disjoint_peers_append:
  "disjoint_peers (ps @ [p]) \<longleftrightarrow> disjoint_peers ps \<and> peer_fds p \<inter> peers_fds ps = {}"
  by (induction ps) auto

lemma peers_fds_remove1:
  assumes "disjoint_peers ps" and "p \<in> set ps"
  shows "peers_fds (remove1 p ps) = peers_fds ps - peer_fds p" "disjoint_peers (remove1 p ps)"
proof -
  have ne: "peer_fds p \<inter> peers_fds qs = {} \<Longrightarrow> p \<notin> set qs" for qs
    by (auto simp: peers_fds_def peer_fds_def)
  from assms show a: "peers_fds (remove1 p ps) = peers_fds ps - peer_fds p"
  proof (induction ps)
    case (Cons q ps)
    then show ?case by (cases "p = q") (auto simp: peers_fds_def)
  qed simp
  from assms show "disjoint_peers (remove1 p ps)"
  proof (induction ps)
    case (Cons q ps)
    have "peers_fds (remove1 p ps) \<subseteq> peers_fds ps" by (auto simp: peers_fds_def dest: notin_set_remove1 set_remove1_subset [THEN subsetD])
    with Cons show ?case by (cases "p = q") auto
  qed simp
qed

section \<open>Ids\<close>

lemma search_peer_None: "ivshmem_server_search_peer s i = None \<longleftrightarrow> i \<notin> sp_id ` set (peer_list s)"
  by (auto simp: ivshmem_server_search_peer_def find_None_iff)

text \<open>The search changes nothing but the next id, and what it finds is unused.\<close>

lemma unused_id_result:
  "unused_id n s = (ok, s') \<Longrightarrow> (\<exists>c. s' = s\<lparr>cur_id := c\<rparr>) \<and>
    (ok \<longrightarrow> int (unat (cur_id s')) \<notin> sp_id ` set (peer_list s))"
proof (induction n s rule: unused_id.induct)
  case (1 n s)
  have same: "\<exists>c. s = s\<lparr>cur_id := c\<rparr>" by (intro exI [of _ "cur_id s"]) simp
  let ?found = "ivshmem_server_search_peer s (int (unat (cur_id s)))"
  consider "n = 0" | "n \<noteq> 0" "?found = None" | "n \<noteq> 0" "?found \<noteq> None" by blast
  then show ?case
  proof cases
    case 1
    then have "ok = False" "s' = s" using \<open>unused_id n s = (ok, s')\<close> by (simp_all add: unused_id.simps [of 0])
    then show ?thesis using same by blast
  next
    case 2
    then have "s' = s" using \<open>unused_id n s = (ok, s')\<close> by (subst (asm) unused_id.simps) simp
    then show ?thesis using same 2(2) search_peer_None by blast
  next
    case 3
    then have "unused_id (n - 1) (s\<lparr>cur_id := cur_id s + 1\<rparr>) = (ok, s')"
      using \<open>unused_id n s = (ok, s')\<close> by (subst (asm) unused_id.simps) auto
    from 1(1) [OF 3 this] show ?thesis by auto
  qed
qed

text \<open>With room for one more client an id is always found: the attempts try different ids.\<close>

lemma unused_id_tries:
  "\<not> fst (unused_id n s) \<Longrightarrow> k < n \<Longrightarrow> int (unat (cur_id s + of_nat k)) \<in> sp_id ` set (peer_list s)"
proof (induction n s arbitrary: k rule: unused_id.induct)
  case (1 n s)
  have n: "n \<noteq> 0" using 1(3) by simp
  then have used: "ivshmem_server_search_peer s (int (unat (cur_id s))) \<noteq> None"
    using 1(2) by (subst (asm) unused_id.simps) (simp split: if_splits)
  then have rest: "\<not> fst (unused_id (n - 1) (s\<lparr>cur_id := cur_id s + 1\<rparr>))" using 1(2) n by (subst (asm) unused_id.simps) auto
  show ?case
  proof (cases k)
    case 0
    then show ?thesis using used search_peer_None [of s "int (unat (cur_id s))"] by auto
  next
    case (Suc j)
    then show ?thesis using 1(1) [OF n used rest, of j] 1(3) by (simp add: ac_simps)
  qed
qed

lemma unused_id_found:
  assumes "length (peer_list s) < 2 ^ 16 - 1"
  shows "fst (unused_id (2 ^ 16 - 1) s)"
proof (rule ccontr)
  let ?N = "2 ^ 16 - 1 :: nat" and ?f = "\<lambda>k. int (unat (cur_id s + of_nat k))"
  assume "\<not> fst (unused_id ?N s)"
  then have "?f ` {..<?N} \<subseteq> sp_id ` set (peer_list s)" using unused_id_tries [of ?N s] by auto
  moreover have "inj_on ?f {..<?N}"
  proof (rule inj_onI)
    fix j k assume "j \<in> {..<?N}" "k \<in> {..<?N}" and e: "?f j = ?f k"
    then have "j < 2 ^ 16" "k < 2 ^ 16" by simp_all
    moreover have "cur_id s + of_nat j = cur_id s + of_nat k" using e by (simp only: of_nat_eq_iff word_unat_eq_iff)
    then have "(of_nat j :: u16) = of_nat k" by simp
    then have "unat (of_nat j :: u16) = unat (of_nat k :: u16)" by simp
    ultimately show "j = k" by (simp add: unat_of_nat)
  qed
  ultimately have "card {..<?N} \<le> card (sp_id ` set (peer_list s))"
    by (metis card_image card_mono finite_imageI finite_set)
  also have "\<dots> \<le> length (peer_list s)" by (meson card_image_le card_length finite_set le_trans)
  finally show False using assms by simp
qed

section \<open>Connecting and disconnecting keep the invariant\<close>

lemma server_inv_cur_id [simp]: "server_inv (s\<lparr>cur_id := c\<rparr>) os = server_inv s os"
  by (simp add: server_inv_def)

lemma server_inv_open: "server_inv s os \<Longrightarrow> open_fds os' = open_fds os \<Longrightarrow> server_inv s os'"
  by (simp add: server_inv_def)

text \<open>The outcome of one connection attempt.\<close>

definition conn_outcome :: "ivshmem_server \<Rightarrow> sock_os \<Rightarrow> int \<Rightarrow> ivshmem_server \<Rightarrow> sock_os \<Rightarrow> bool" where
  "conn_outcome s os r s' os' \<longleftrightarrow> server_inv s' os' \<and> (\<exists>c. s' = s\<lparr>cur_id := c, peer_list := peer_list s'\<rparr>) \<and>
     (if r = 0 then \<exists>p. peer_list s' = peer_list s @ [p] \<and> peer_fds p \<inter> open_fds os = {} \<and> open_fds os' = open_fds os \<union> peer_fds p
      else r = - 1 \<and> peer_list s' = peer_list s \<and> open_fds os' = open_fds os)"

lemma conn_outcome_failed:
  assumes "server_inv s os" and "open_fds os' = open_fds os"
  shows "conn_outcome s os (- 1) (s\<lparr>cur_id := c\<rparr>) os'"
  using assms server_inv_open [OF assms] by (auto simp: conn_outcome_def)

lemma conn_outcome_new:
  assumes inv: "server_inv s os" and p: "sp_id p \<notin> sp_id ` set (peer_list s)" "0 \<le> sp_id p" "sp_id p < 2 ^ 16"
    "sp_vectors_count p = n_vectors s" "length (sp_vectors p) = IVSHMEM_SERVER_MAX_VECTORS"
    "\<forall>e \<in> set (vectors_upto (n_vectors s) p). 0 \<le> rfd e \<and> 0 \<le> wfd e"
    and new: "peer_fds p \<inter> open_fds os = {}" "open_fds os' = open_fds os \<union> peer_fds p"
  shows "conn_outcome s os 0 (s\<lparr>cur_id := c, peer_list := peer_list s @ [p]\<rparr>) os'"
proof -
  have "peers_fds (peer_list s) \<subseteq> open_fds os" "{srv_sock_fd s, shm_fd s} \<subseteq> open_fds os" using inv by (simp_all add: server_inv_def)
  then have "peer_fds p \<inter> peers_fds (peer_list s) = {}" "srv_sock_fd s \<notin> peer_fds p" "shm_fd s \<notin> peer_fds p" using new(1) by auto
  then have "server_inv (s\<lparr>cur_id := c, peer_list := peer_list s @ [p]\<rparr>) os'"
    using inv p new(2) by (auto simp: server_inv_def disjoint_peers_append)
  then show ?thesis using new by (auto simp: conn_outcome_def)
qed

lemma new_conn_peer_result:
  assumes E: "server_env_ok E" and inv: "server_inv s os" and o1: "newfd \<notin> open_fds os" "open_fds os1 = insert newfd (open_fds os)"
    and fresh: "int (unat c) \<notin> sp_id ` set (peer_list s)"
  shows "\<exists>r s' os'. new_conn_peer E newfd (s\<lparr>cur_id := c\<rparr>) os1 = Some (r, s', os') \<and> conn_outcome s os r s' os'"
proof -
  let ?s = "s\<lparr>cur_id := c + 1\<rparr>" and ?vs = "replicate IVSHMEM_SERVER_MAX_VECTORS \<lparr>rfd = 0, wfd = 0\<rparr>"
  have "0 + unat (n_vectors s) \<le> length ?vs" using inv by (simp add: server_inv_def)
  from init_vectors_result [OF E this, of os1] obtain ok2 j vs os2 where
    i: "init_vectors E (unat (n_vectors s)) 0 ?vs os1 = Some (ok2, j, vs, os2)" "length vs = IVSHMEM_SERVER_MAX_VECTORS"
    "ok2 \<longrightarrow> j = unat (n_vectors s)" "\<Union> (notifier_fds ` set (take j vs)) \<inter> open_fds os1 = {}"
    "open_fds os2 = open_fds os1 \<union> \<Union> (notifier_fds ` set (take j vs))"
    "\<forall>e \<in> set (take j vs). 0 \<le> rfd e \<and> 0 \<le> wfd e" by (auto simp del: replicate.simps)
  let ?p = "\<lparr>sp_sock_fd = newfd, sp_id = int (unat c), sp_vectors = vs, sp_vectors_count = n_vectors s\<rparr>"
  obtain r os3 where snd: "ivshmem_server_send_initial_info E ?s ?p os2 = (r, os3)" by (metis surj_pair)
  note o3 = send_initial_info_open [OF E snd]
  have run: "new_conn_peer E newfd (s\<lparr>cur_id := c\<rparr>) os1 =
    (if \<not> ok2 then new_conn_fail E j vs newfd ?s os2 else if r < 0 then new_conn_fail E j vs newfd ?s os3
     else Some (0, ?s\<lparr>peer_list := peer_list s @ [?p]\<rparr>,
       send_msgs E (advertise_self ?p) (send_msgs E (advertise_others ?s ?p) (send_msgs E (advertise_new ?s ?p) os3))))"
    using i(1) snd by (simp add: new_conn_peer_def Let_def del: replicate.simps)
  have fail: "\<exists>r s' os'. new_conn_fail E j vs newfd ?s os4 = Some (r, s', os') \<and> conn_outcome s os r s' os'"
    if "open_fds os4 = open_fds os2" for os4
  proof -
    have "open_fds (os_close newfd (cleanup_vectors E (rev (take j vs)) os4)) = open_fds os" using E that i(4,5) o1 by auto
    then show ?thesis using conn_outcome_failed [OF inv] by (simp add: new_conn_fail_def)
  qed
  show ?thesis
  proof (cases "ok2 \<and> \<not> r < 0")
    case ok: True
    have fds: "peer_fds ?p = insert newfd (\<Union> (notifier_fds ` set (take j vs)))" using ok i(3) by (simp add: peer_fds_def vectors_upto_def)
    have "peer_fds ?p \<inter> open_fds os = {}" "open_fds os3 = open_fds os \<union> peer_fds ?p" using i(4,5) o1 o3 unfolding fds by auto
    moreover have "int (unat c) < 2 ^ 16" using unsigned_less [of c, where ?'a = int] by simp
    ultimately have "conn_outcome s os 0 (s\<lparr>cur_id := c + 1, peer_list := peer_list s @ [?p]\<rparr>)
      (send_msgs E (advertise_self ?p) (send_msgs E (advertise_others ?s ?p) (send_msgs E (advertise_new ?s ?p) os3)))"
      using fresh i(2,3,6) ok E by (intro conn_outcome_new [OF inv]) (simp_all add: vectors_upto_def)
    then show ?thesis unfolding run using ok by simp
  qed (use fail o3 run in \<open>auto split: if_splits\<close>)
qed

lemma new_conn_result:
  assumes E: "server_env_ok E" and inv: "server_inv s os"
  shows "\<exists>r s' os'. ivshmem_server_handle_new_conn E s os = Some (r, s', os') \<and> conn_outcome s os r s' os'"
proof -
  have s0: "s = s\<lparr>cur_id := cur_id s\<rparr>" by simp
  obtain newfd os1 where a: "qemu_accept E (srv_sock_fd s) os = (newfd, os1)" by (metis surj_pair)
  note acc = server_env_okD(1) [OF E a]
  show ?thesis
  proof (cases "newfd < 0")
    case True
    then show ?thesis using a acc conn_outcome_failed [OF inv, of os1 "cur_id s"]
      by (simp add: ivshmem_server_handle_new_conn_def opens_one_def)
  next
    case False
    then have o1: "newfd \<notin> open_fds os" "open_fds os1 = insert newfd (open_fds os)" using acc by (simp_all add: opens_one_def)
    obtain ok s1 where u: "unused_id (2 ^ 16 - 1) s = (ok, s1)" by (metis surj_pair)
    then obtain c where c: "s1 = s\<lparr>cur_id := c\<rparr>" and fresh: "ok \<Longrightarrow> int (unat c) \<notin> sp_id ` set (peer_list s)"
      using unused_id_result [OF u] by auto
    have "open_fds (os_close newfd os1) = open_fds os" using o1 by simp
    then show ?thesis using a u False fresh conn_outcome_failed [OF inv, of _ c] new_conn_peer_result [OF E inv o1, of c]
      by (cases ok) (simp_all add: ivshmem_server_handle_new_conn_def c)
  qed
qed

text \<open>A disconnection closes exactly the descriptors of the peer.\<close>

lemma free_peer_result:
  assumes E: "server_env_ok E" and inv: "server_inv s os" and p: "p \<in> set (peer_list s)"
    and run: "ivshmem_server_free_peer E p s os = (s', os')"
  shows "s' = s\<lparr>peer_list := remove1 p (peer_list s)\<rparr> \<and> open_fds os' = open_fds os - peer_fds p \<and> server_inv s' os'"
proof -
  have d: "disjoint_peers (peer_list s)" using inv by (simp add: server_inv_def)
  have s': "s' = s\<lparr>peer_list := remove1 p (peer_list s)\<rparr>" and o: "open_fds os' = open_fds os - peer_fds p"
    using run E by (auto simp: ivshmem_server_free_peer_def Let_def peer_fds_def)
  have "peer_fds p \<subseteq> peers_fds (peer_list s)" using p by (auto simp: peers_fds_def)
  moreover have "set (remove1 p (peer_list s)) \<subseteq> set (peer_list s)" by (rule set_remove1_subset)
  moreover have "distinct (map sp_id (remove1 p (peer_list s)))"
    using inv by (metis distinct_map distinct_remove1 inj_on_subset server_inv_def set_remove1_subset)
  ultimately have "server_inv s' os'"
    using inv peers_fds_remove1 [OF d p] unfolding s' server_inv_def o by auto
  with s' o show ?thesis by blast
qed

lemma free_peers_result:
  assumes E: "server_env_ok E"
  shows "server_inv s os \<Longrightarrow> distinct ps \<Longrightarrow> set ps \<subseteq> set (peer_list s) \<Longrightarrow> free_peers E ps s os = (s', os') \<Longrightarrow>
    s' = s\<lparr>peer_list := filter (\<lambda>p. p \<notin> set ps) (peer_list s)\<rparr> \<and> open_fds os' = open_fds os - peers_fds ps \<and> server_inv s' os'"
proof (induction ps arbitrary: s os)
  case (Cons p ps)
  obtain s1 os1 where f: "ivshmem_server_free_peer E p s os = (s1, os1)" by (metis surj_pair)
  note r = free_peer_result [OF E Cons.prems(1) _ f]
  have dist: "distinct (peer_list s)" using Cons.prems(1) by (auto simp: server_inv_def distinct_map)
  have "s1 = s\<lparr>peer_list := remove1 p (peer_list s)\<rparr>" "open_fds os1 = open_fds os - peer_fds p" "server_inv s1 os1"
    using r Cons.prems(3) by auto
  moreover have "remove1 p (peer_list s) = filter (\<lambda>q. q \<noteq> p) (peer_list s)" using dist by (simp add: distinct_remove1_removeAll removeAll_filter_not_eq eq_commute)
  moreover have "set ps \<subseteq> set (filter (\<lambda>q. q \<noteq> p) (peer_list s))" using Cons.prems(2,3) by auto
  ultimately show ?case using Cons.IH [of s1 os1] Cons.prems(2,4) f by (auto simp: conj_commute)
qed simp

section \<open>One round of events\<close>

text \<open>
  A round accepts at most one client and then drops every client whose socket was
  reported; nobody else is dropped.
\<close>

lemma handle_fds_result:
  assumes E: "server_env_ok E" and inv: "server_inv s os"
  shows "\<exists>r s' os'. ivshmem_server_handle_fds E fds maxfd s os = Some (r, s', os') \<and> server_inv s' os' \<and>
    (r = 0 \<or> r = - 1) \<and>
    (r = 0 \<longrightarrow> (\<exists>new. set new \<inter> set (peer_list s) = {} \<and> length new \<le> 1 \<and>
       peer_list s' = filter (\<lambda>p. \<not> (sp_sock_fd p < maxfd \<and> sp_sock_fd p \<in> fds)) (peer_list s @ new)))"
proof -
  let ?hit = "\<lambda>p. sp_sock_fd p < maxfd \<and> sp_sock_fd p \<in> fds"
  define R where "R = (if srv_sock_fd s < maxfd \<and> srv_sock_fd s \<in> fds
    then do { (ret, s1, os1) \<leftarrow> ivshmem_server_handle_new_conn E s os; Some (ret < 0 \<and> errno os1 \<noteq> EINTR, s1, os1) }
    else Some (False, s, os))"
  have "\<exists>bad s1 os1 new. R = Some (bad, s1, os1) \<and> server_inv s1 os1 \<and> peer_list s1 = peer_list s @ new \<and>
    length new \<le> 1 \<and> set new \<inter> set (peer_list s) = {}"
  proof (cases "srv_sock_fd s < maxfd \<and> srv_sock_fd s \<in> fds")
    case True
    obtain r s1 os1 where c: "ivshmem_server_handle_new_conn E s os = Some (r, s1, os1)" "conn_outcome s os r s1 os1"
      using new_conn_result [OF E inv] by blast
    have "\<exists>new. peer_list s1 = peer_list s @ new \<and> length new \<le> 1 \<and> set new \<inter> set (peer_list s) = {}"
    proof (cases "r = 0")
      case True
      then obtain p where "peer_list s1 = peer_list s @ [p]" "server_inv s1 os1" using c(2) by (auto simp: conn_outcome_def)
      then show ?thesis by (intro exI [of _ "[p]"]) (auto simp: server_inv_def)
    qed (use c(2) in \<open>auto simp: conn_outcome_def\<close>)
    then show ?thesis using True c by (auto simp: R_def conn_outcome_def)
  qed (use inv in \<open>auto simp: R_def\<close>)
  then obtain bad s1 os1 new where r: "R = Some (bad, s1, os1)" "server_inv s1 os1" "peer_list s1 = peer_list s @ new"
    "length new \<le> 1" "set new \<inter> set (peer_list s) = {}" by blast
  obtain s2 os2 where f: "free_peers E (filter ?hit (peer_list s1)) s1 os1 = (s2, os2)" by (metis surj_pair)
  have "distinct (filter ?hit (peer_list s1))" using r(2) by (auto simp: server_inv_def distinct_map)
  from free_peers_result [OF E r(2) this _ f] have s2: "server_inv s2 os2"
    "peer_list s2 = filter (\<lambda>p. p \<notin> set (filter ?hit (peer_list s1))) (peer_list s1)" by auto
  have "peer_list s2 = filter (\<lambda>p. \<not> ?hit p) (peer_list s1)" unfolding s2(2) by (rule filter_cong) auto
  then show ?thesis using r f s2(1) by (cases bad) (auto simp: ivshmem_server_handle_fds_def simp flip: R_def)
qed

section \<open>Starting and closing\<close>

text \<open>
  The attempts to size the file end: the size at least doubles each time. A size of 0,
  which doubling does not change, is excluded.
\<close>

lemma truncate_loop_returns:
  assumes E: "server_env_ok E"
  shows "0 < n \<Longrightarrow> \<exists>r os'. truncate_loop E fd n os = Some (r, os')"
proof (induction "2 ^ 32 - unat n" arbitrary: n os rule: less_induct)
  case less
  show ?case
  proof (cases "n \<le> IVSHMEM_SERVER_MAX_HUGEPAGE_SIZE")
    case True
    obtain r os1 where f: "ftruncate E fd n os = (r, os1)" by (metis surj_pair)
    have "unat n \<le> 2 ^ 30" using True by (simp add: word_le_nat_alt IVSHMEM_SERVER_MAX_HUGEPAGE_SIZE_def)
    then have "unat (n * 2) = 2 * unat n" by (simp add: unat_word_ariths)
    moreover have "0 < unat n" using less.prems by (simp add: word_less_nat_alt)
    moreover from calculation have "0 < n * 2" by (simp add: word_less_nat_alt)
    moreover have "2 ^ 32 - unat (n * 2) < 2 ^ 32 - unat n" using calculation(1,2) \<open>unat n \<le> 2 ^ 30\<close> by simp
    ultimately obtain r' os' where "truncate_loop E fd (n * 2) os1 = Some (r', os')"
      using less.hyps by blast
    then show ?thesis using True f by (subst truncate_loop.simps) auto
  qed (subst truncate_loop.simps, simp)
qed

lemma ftruncate_returns:
  assumes "server_env_ok E" and "0 < (ucast (pow2ceil E (ucast n)) :: u32)"
  shows "\<exists>r os'. ivshmem_server_ftruncate E fd n os = Some (r, os')"
  using truncate_loop_returns [OF assms] by (auto simp: ivshmem_server_ftruncate_def Let_def)

lemma truncate_loop_outcome:
  assumes E: "server_env_ok E" and run: "truncate_loop E fd n os = Some x"
  shows "opens_none os (snd x) \<and> (fst x = 0 \<or> fst x = - 1)"
proof (rule truncate_loop.raw_induct [where P = "\<lambda>E' fd n os x. E' = E \<longrightarrow>
      opens_none os (snd x) \<and> (fst x = 0 \<or> fst x = - 1)", OF _ run, rule_format], goal_cases)
  case step: (1 f E' fd n os x)
  obtain r os1 where f: "ftruncate E fd n os = (r, os1)" by (metis surj_pair)
  have "opens_none os os1" using server_env_okD(7) [OF E f] .
  then show ?case using step(2,3) f step(1) [of E fd "n * 2" os1 x]
    by (cases "r = 0"; cases x) (auto simp: opens_none_def split: if_splits)
qed simp

lemma ftruncate_outcome:
  assumes "server_env_ok E" and "ivshmem_server_ftruncate E fd n os = Some (r, os')"
  shows "opens_none os os' \<and> (r = 0 \<or> r = - 1)"
  using assms(2) truncate_loop_outcome [OF assms(1)]
  by (fastforce simp: ivshmem_server_ftruncate_def Let_def opens_none_def split: if_splits)

text \<open>Starting opens the memory and the socket or leaves nothing open.\<close>

definition start_outcome :: "ivshmem_server \<Rightarrow> sock_os \<Rightarrow> int \<Rightarrow> ivshmem_server \<Rightarrow> sock_os \<Rightarrow> bool" where
  "start_outcome s os r s' os' \<longleftrightarrow>
    (if r = 0 then \<exists>sock shm. s' = s\<lparr>srv_sock_fd := sock, shm_fd := shm\<rparr> \<and> sock \<noteq> shm \<and> 0 \<le> sock \<and> 0 \<le> shm \<and>
        {sock, shm} \<inter> open_fds os = {} \<and> open_fds os' = open_fds os \<union> {sock, shm}
     else r = - 1 \<and> s' = s \<and> open_fds os' = open_fds os)"

lemma start_result:
  assumes E: "server_env_ok E" and start: "ivshmem_server_start E s os = Some (r, s', os')"
  shows "start_outcome s os r s' os'"
proof (cases "fst (open_shm E (use_shm_open s) (cstr (shm_path s)) os) < 0")
  case True
  then show ?thesis using start server_env_okD(5) [OF E, of "use_shm_open s" "cstr (shm_path s)" os]
    by (auto simp: ivshmem_server_start_def start_outcome_def opens_one_def split: prod.splits if_splits)
next
  case False
  then obtain shm os1 where a: "open_shm E (use_shm_open s) (cstr (shm_path s)) os = (shm, os1)" "\<not> shm < 0" by (metis fst_conv surj_pair)
  then obtain r2 os2 where t: "ivshmem_server_ftruncate E shm (ucast (shm_size s)) os1 = Some (r2, os2)"
    using start by (auto simp: ivshmem_server_start_def split: bind_splits)
  obtain sock os3 where k: "socket E os2 = (sock, os3)" by (metis surj_pair)
  obtain path len where sn: "snprintf (replicate sizeof_sun_path NUL) sizeof_sun_path (cstr (unix_sock_path s)) = Some (path, len)"
    by (simp add: snprintf_def sizeof_sun_path_def)
  obtain r4 os4 where b: "bind_path E sock (cstr path) os3 = (r4, os4)" by (metis surj_pair)
  obtain r5 os5 where l: "listen E sock os4 = (r5, os5)" by (metis surj_pair)
  have run: "ivshmem_server_start E s os =
    (if r2 < 0 then Some (- 1, s, os_close shm os2)
     else if sock < 0 then Some (- 1, s, os_close shm os3)
     else if len \<ge> sizeof_sun_path then Some (- 1, s, os_close shm (os_close sock os3))
     else if r4 < 0 then Some (- 1, s, os_close shm (os_close sock os4))
     else if r5 < 0 then Some (- 1, s, os_close shm (os_close sock os5))
     else Some (0, s\<lparr>srv_sock_fd := sock, shm_fd := shm\<rparr>, os5))"
    unfolding ivshmem_server_start_def a prod.case t(1) bind.bind_lunit k sn b l err_close_sock_def err_close_shm_def using a(2) by simp
  have e: "open_fds os2 = open_fds os1" "open_fds os4 = open_fds os3" "open_fds os5 = open_fds os3"
    using ftruncate_outcome [OF E t] server_env_okD(8) [OF E b] server_env_okD(9) [OF E l] by (simp_all add: opens_none_def)
  have shm: "shm \<notin> open_fds os" "open_fds os1 = insert shm (open_fds os)"
    and sock: "if sock < 0 then open_fds os3 = open_fds os1 else sock \<notin> open_fds os1 \<and> open_fds os3 = insert sock (open_fds os1)"
    using server_env_okD(5) [OF E a(1)] server_env_okD(6) [OF E k] a(2) unfolding opens_one_def e(1) by auto
  show ?thesis
  proof (cases "r2 < 0 \<or> sock < 0 \<or> sizeof_sun_path \<le> len \<or> r4 < 0 \<or> r5 < 0")
    case True
    then have "r = - 1 \<and> s' = s \<and> open_fds os' = open_fds os"
      using start shm sock e unfolding run by (cases "sock < 0") (auto split: if_splits)
    then show ?thesis by (simp add: start_outcome_def)
  next
    case False
    then have "sock \<noteq> shm" "sock \<notin> open_fds os" "open_fds os5 = open_fds os \<union> {sock, shm}"
      using shm sock e(3) by auto
    moreover have "r = 0" "s' = s\<lparr>srv_sock_fd := sock, shm_fd := shm\<rparr>" "os' = os5" using start False unfolding run by auto
    ultimately show ?thesis unfolding start_outcome_def using shm(1) False a(2) by simp (rule exI [of _ sock], rule exI [of _ shm], simp)
  qed
qed

text \<open>It returns if the attempts to size the memory do.\<close>

lemma start_returns:
  assumes "\<And>fd os. \<exists>r os'. ivshmem_server_ftruncate E fd (ucast (shm_size s)) os = Some (r, os')"
  shows "\<exists>r s' os'. ivshmem_server_start E s os = Some (r, s', os')"
proof -
  obtain shm os1 where a: "open_shm E (use_shm_open s) (cstr (shm_path s)) os = (shm, os1)" by (metis surj_pair)
  obtain r os2 where t: "ivshmem_server_ftruncate E shm (ucast (shm_size s)) os1 = Some (r, os2)" using assms by blast
  obtain path len where sn: "snprintf (replicate sizeof_sun_path NUL) sizeof_sun_path (cstr (unix_sock_path s)) = Some (path, len)"
    by (simp add: snprintf_def sizeof_sun_path_def)
  show ?thesis by (simp add: ivshmem_server_start_def a t sn err_close_shm_def err_close_sock_def split: prod.splits)
qed

text \<open>Closing drops every client and both descriptors of the server.\<close>

lemma close_result:
  assumes E: "server_env_ok E" and inv: "server_inv s os" and run: "ivshmem_server_close E s os = (s', os')"
  shows "peer_list s' = [] \<and> srv_sock_fd s' = - 1 \<and> shm_fd s' = - 1 \<and>
    open_fds os' = open_fds os - peers_fds (peer_list s) - {srv_sock_fd s, shm_fd s}"
proof -
  obtain s1 os1 where f: "free_peers E (peer_list s) s os = (s1, os1)" by (metis surj_pair)
  have "distinct (peer_list s)" using inv by (auto simp: server_inv_def distinct_map)
  from free_peers_result [OF E inv this subset_refl f]
  have "s1 = s\<lparr>peer_list := []\<rparr>" "open_fds os1 = open_fds os - peers_fds (peer_list s)" by simp_all
  moreover have "opens_none os1 (unlink_path E (cstr (unix_sock_path s1)) os1)" using server_env_okD(10) [OF E] .
  ultimately show ?thesis using run f by (auto simp: ivshmem_server_close_def Let_def opens_none_def)
qed

section \<open>What is sent\<close>

text \<open>Every message arrives.\<close>

definition sends_succeed :: "server_env \<Rightarrow> bool" where
  "sends_succeed E \<longleftrightarrow> (\<forall>sock i fd os. 0 < fst (sendmsg E sock i fd os))"

lemma send_one_msg_wire:
  assumes "server_env_ok E" and "sends_succeed E"
  shows "\<exists>os'. ivshmem_server_send_one_msg E sock i fd os = (0, os') \<and>
    wire os' = wire os @ [(sock, i, if fd \<ge> 0 then fd else - 1)]"
proof -
  obtain r os' where s: "sendmsg E sock i (if fd \<ge> 0 then fd else - 1) os = (r, os')" by (metis surj_pair)
  moreover have "0 < r" using assms(2) s by (metis fst_conv sends_succeed_def)
  ultimately show ?thesis using server_env_okD(4) [OF assms(1) s] by (simp add: ivshmem_server_send_one_msg_def)
qed

definition on_wire :: "int \<times> int \<times> int \<Rightarrow> int \<times> int \<times> int" where
  "on_wire m = (case m of (sock, i, fd) \<Rightarrow> (sock, i, if fd \<ge> 0 then fd else - 1))"

lemma send_msgs_wire:
  assumes "server_env_ok E" and "sends_succeed E"
  shows "wire (send_msgs E ms os) = wire os @ map on_wire ms"
proof (induction ms arbitrary: os)
  case (Cons m ms)
  obtain sock i fd where m: "m = (sock, i, fd)" by (metis surj_pair)
  then show ?case using send_one_msg_wire [OF assms, of sock i fd os] Cons.IH by (auto simp: on_wire_def)
qed simp

lemma send_initial_info_wire:
  assumes "server_env_ok E" and "sends_succeed E"
  shows "\<exists>os'. ivshmem_server_send_initial_info E s p os = (0, os') \<and> wire os' = wire os @
    map on_wire [(sp_sock_fd p, IVSHMEM_PROTOCOL_VERSION, - 1), (sp_sock_fd p, sp_id p, - 1), (sp_sock_fd p, - 1, shm_fd s)]"
proof -
  note w = send_one_msg_wire [OF assms]
  obtain os1 where 1: "ivshmem_server_send_one_msg E (sp_sock_fd p) IVSHMEM_PROTOCOL_VERSION (- 1) os = (0, os1)"
    "wire os1 = wire os @ [(sp_sock_fd p, IVSHMEM_PROTOCOL_VERSION, - 1)]" using w [of "sp_sock_fd p" _ "- 1" os] by auto
  obtain os2 where 2: "ivshmem_server_send_one_msg E (sp_sock_fd p) (sp_id p) (- 1) os1 = (0, os2)"
    "wire os2 = wire os1 @ [(sp_sock_fd p, sp_id p, - 1)]" using w [of "sp_sock_fd p" _ "- 1" os1] by auto
  obtain os3 where "ivshmem_server_send_one_msg E (sp_sock_fd p) (- 1) (shm_fd s) os2 = (0, os3)"
    "wire os3 = wire os2 @ [on_wire (sp_sock_fd p, - 1, shm_fd s)]" using w [of "sp_sock_fd p" "- 1" "shm_fd s" os2] by (auto simp: on_wire_def)
  then show ?thesis using 1 2 by (simp add: ivshmem_server_send_initial_info_def on_wire_def)
qed

text \<open>Every call that opens something succeeds, too, while finitely many descriptors are open.\<close>

definition calls_succeed :: "server_env \<Rightarrow> bool" where
  "calls_succeed E \<longleftrightarrow> sends_succeed E \<and>
     (\<forall>l os. finite (open_fds os) \<longrightarrow> 0 \<le> fst (qemu_accept E l os)) \<and>
     (\<forall>os. finite (open_fds os) \<longrightarrow> 0 \<le> fst (event_notifier_init E os))"

lemma init_vectors_succeeds:
  assumes E: "server_env_ok E" "calls_succeed E"
  shows "init_vectors E n i vs os = Some (ok, j, vs', os') \<Longrightarrow> finite (open_fds os) \<Longrightarrow> ok"
proof (induction n arbitrary: i vs os)
  case (Suc n)
  obtain r e os1 where e: "event_notifier_init E os = (r, e, os1)" by (metis surj_pair)
  then have "\<not> r < 0" using E(2) Suc.prems(2) by (metis calls_succeed_def fst_conv not_le)
  moreover from this have "finite (open_fds os1)" using server_env_okD(2) [OF E(1) e] Suc.prems(2) by (simp add: notifier_fds_def)
  ultimately show ?case using Suc e by (auto split: if_splits)
qed simp

lemma init_vectors_wire:
  assumes "server_env_ok E"
  shows "init_vectors E n i vs os = Some (ok, j, vs', os') \<Longrightarrow> wire os' = wire os"
proof (induction n arbitrary: i vs os)
  case (Suc n)
  obtain r e os1 where e: "event_notifier_init E os = (r, e, os1)" by (metis surj_pair)
  then show ?case using Suc server_env_okD(2) [OF assms e] by (auto split: if_splits)
qed simp

text \<open>What a new client causes to be sent: its own greeting, then the introductions.\<close>

definition introduction :: "ivshmem_server \<Rightarrow> server_peer \<Rightarrow> (int \<times> int \<times> int) list" where
  "introduction s p =
     [(sp_sock_fd p, IVSHMEM_PROTOCOL_VERSION, - 1), (sp_sock_fd p, sp_id p, - 1), (sp_sock_fd p, - 1, shm_fd s)] @
     advertise_new s p @ advertise_others s p @ advertise_self p"

lemma new_conn_zero:
  assumes E: "server_env_ok E" "sends_succeed E" and inv: "server_inv s os"
    and run: "ivshmem_server_handle_new_conn E s os = Some (0, s', os')"
  shows "\<exists>c p. s' = s\<lparr>cur_id := c, peer_list := peer_list s @ [p]\<rparr> \<and> wire os' = wire os @ map on_wire (introduction s p)"
proof -
  obtain newfd os1 where a: "qemu_accept E (srv_sock_fd s) os = (newfd, os1)" by (metis surj_pair)
  have n: "\<not> newfd < 0" using run a by (auto simp: ivshmem_server_handle_new_conn_def)
  obtain ok s1 where u: "unused_id (2 ^ 16 - 1) s = (ok, s1)" by (metis surj_pair)
  then have ok using run a n by (cases ok) (auto simp: ivshmem_server_handle_new_conn_def)
  obtain c where c: "s1 = s\<lparr>cur_id := c\<rparr>" using unused_id_result [OF u] by auto
  let ?s = "s\<lparr>cur_id := c + 1\<rparr>" and ?vs = "replicate IVSHMEM_SERVER_MAX_VECTORS \<lparr>rfd = 0, wfd = 0\<rparr>"
  have "0 + unat (n_vectors s) \<le> length ?vs" using inv by (simp add: server_inv_def)
  from init_vectors_result [OF E(1) this, of os1] obtain ok2 j vs os2 where
    i: "init_vectors E (unat (n_vectors s)) 0 ?vs os1 = Some (ok2, j, vs, os2)" by (elim exE conjE)
  let ?p = "\<lparr>sp_sock_fd = newfd, sp_id = int (unat c), sp_vectors = vs, sp_vectors_count = n_vectors s\<rparr>"
  obtain os3 where g: "ivshmem_server_send_initial_info E ?s ?p os2 = (0, os3)" "wire os3 = wire os2 @
      map on_wire [(newfd, IVSHMEM_PROTOCOL_VERSION, - 1), (newfd, int (unat c), - 1), (newfd, - 1, shm_fd s)]"
    using send_initial_info_wire [OF E, of ?s ?p os2] by auto
  let ?os = "send_msgs E (advertise_self ?p) (send_msgs E (advertise_others ?s ?p) (send_msgs E (advertise_new ?s ?p) os3))"
  have "ivshmem_server_handle_new_conn E s os =
      (if \<not> ok2 then new_conn_fail E j vs newfd ?s os2 else Some (0, ?s\<lparr>peer_list := peer_list s @ [?p]\<rparr>, ?os))"
    using a n u \<open>ok\<close> i(1) g(1) by (simp add: ivshmem_server_handle_new_conn_def new_conn_peer_def c Let_def del: replicate.simps)
  then have "s' = ?s\<lparr>peer_list := peer_list s @ [?p]\<rparr>" "os' = ?os" using run by (auto simp: new_conn_fail_def split: if_splits)
  moreover have "wire os1 = wire os" using server_env_okD(1) [OF E(1) a] by (simp add: opens_one_def)
  then have "wire ?os = wire os @ map on_wire (introduction s ?p)"
    by (simp add: send_msgs_wire [OF E] g(2) init_vectors_wire [OF E(1) i] introduction_def advertise_new_def advertise_others_def)
  ultimately show ?thesis by auto
qed

text \<open>A connection attempt succeeds if every call does and an id is left.\<close>

lemma new_conn_succeeds:
  assumes E: "server_env_ok E" "calls_succeed E" and inv: "server_inv s os" and fin: "finite (open_fds os)"
    and room: "length (peer_list s) < 2 ^ 16 - 1"
  shows "\<exists>s' os'. ivshmem_server_handle_new_conn E s os = Some (0, s', os')"
proof -
  have S: "sends_succeed E" using E(2) by (simp add: calls_succeed_def)
  obtain newfd os1 where a: "qemu_accept E (srv_sock_fd s) os = (newfd, os1)" by (metis surj_pair)
  then have n: "\<not> newfd < 0" using E(2) fin by (metis calls_succeed_def fst_conv not_le)
  then have fin1: "finite (open_fds os1)" using server_env_okD(1) [OF E(1) a] fin by (simp add: opens_one_def)
  obtain ok s1 where u: "unused_id (2 ^ 16 - 1) s = (ok, s1)" by (metis surj_pair)
  then have ok: ok using unused_id_found [OF room] by simp
  obtain c where c: "s1 = s\<lparr>cur_id := c\<rparr>" using unused_id_result [OF u] by auto
  let ?vs = "replicate IVSHMEM_SERVER_MAX_VECTORS \<lparr>rfd = 0, wfd = 0\<rparr>"
  have "0 + unat (n_vectors s) \<le> length ?vs" using inv by (simp add: server_inv_def)
  from init_vectors_result [OF E(1) this, of os1] obtain ok2 j vs os2 where
    i: "init_vectors E (unat (n_vectors s)) 0 ?vs os1 = Some (ok2, j, vs, os2)" by (elim exE conjE)
  let ?p = "\<lparr>sp_sock_fd = newfd, sp_id = int (unat c), sp_vectors = vs, sp_vectors_count = n_vectors s\<rparr>"
  obtain os3 where "ivshmem_server_send_initial_info E (s\<lparr>cur_id := c + 1\<rparr>) ?p os2 = (0, os3)"
    using send_initial_info_wire [OF E(1) S] by blast
  then show ?thesis using a n u ok i init_vectors_succeeds [OF E i fin1]
    by (simp add: ivshmem_server_handle_new_conn_def new_conn_peer_def c Let_def del: replicate.simps)
qed

section \<open>The life of a server\<close>

text \<open>
  A running server that was started with the descriptors \<open>base\<close> open: those, its own two and
  those of its peers are open, and no others.
\<close>

definition serves :: "int set \<Rightarrow> ivshmem_server \<Rightarrow> sock_os \<Rightarrow> bool" where
  "serves base s os \<longleftrightarrow> server_inv s os \<and> open_fds os = base \<union> {srv_sock_fd s, shm_fd s} \<union> peers_fds (peer_list s) \<and>
     base \<inter> ({srv_sock_fd s, shm_fd s} \<union> peers_fds (peer_list s)) = {}"

lemma serves_new_conn:
  assumes "serves base s os" and "conn_outcome s os r s' os'"
  shows "serves base s' os'"
proof -
  obtain c where s': "s' = s\<lparr>cur_id := c, peer_list := peer_list s'\<rparr>" using assms(2) by (auto simp: conn_outcome_def)
  have f: "srv_sock_fd s' = srv_sock_fd s" "shm_fd s' = shm_fd s" by (subst s', simp)+
  show ?thesis
  proof (cases "r = 0")
    case True
    then obtain p where "peer_list s' = peer_list s @ [p]" "peer_fds p \<inter> open_fds os = {}" "open_fds os' = open_fds os \<union> peer_fds p"
      "server_inv s' os'" using assms(2) by (auto simp: conn_outcome_def)
    then show ?thesis using assms(1) unfolding serves_def f by auto
  next
    case False
    then have "peer_list s' = peer_list s" "open_fds os' = open_fds os" "server_inv s' os'"
      using assms(2) by (simp_all add: conn_outcome_def)
    then show ?thesis using assms(1) unfolding serves_def f by simp
  qed
qed

lemma peers_fds_filter:
  assumes "disjoint_peers ps"
  shows "peers_fds (filter (\<lambda>p. \<not> P p) ps) = peers_fds ps - peers_fds (filter P ps)"
  using assms
proof (induction ps)
  case (Cons p ps)
  have "peers_fds (filter Q ps) \<subseteq> peers_fds ps" for Q by (auto simp: peers_fds_def)
  then show ?case using Cons by (simp add: Un_Diff) blast
qed simp

lemma serves_free_peers:
  assumes E: "server_env_ok E" and sv: "serves base s os" and f: "free_peers E (filter P (peer_list s)) s os = (s', os')"
  shows "serves base s' os'"
proof -
  have inv: "server_inv s os" using sv by (simp add: serves_def)
  then have d: "distinct (filter P (peer_list s))" "disjoint_peers (peer_list s)" by (auto simp: server_inv_def distinct_map)
  from free_peers_result [OF E inv d(1) _ f]
  have r: "s' = s\<lparr>peer_list := filter (\<lambda>p. p \<notin> set (filter P (peer_list s))) (peer_list s)\<rparr>"
    "open_fds os' = open_fds os - peers_fds (filter P (peer_list s))" "server_inv s' os'" by auto
  have "filter (\<lambda>p. p \<notin> set (filter P (peer_list s))) (peer_list s) = filter (\<lambda>p. \<not> P p) (peer_list s)" by (rule filter_cong) auto
  then have l: "peers_fds (peer_list s') = peers_fds (peer_list s) - peers_fds (filter P (peer_list s))"
    using peers_fds_filter [OF d(2)] by (simp add: r(1))
  have "peers_fds (filter P (peer_list s)) \<subseteq> peers_fds (peer_list s)" by (auto simp: peers_fds_def)
  moreover have "{srv_sock_fd s, shm_fd s} \<inter> peers_fds (peer_list s) = {}" using inv by (auto simp: server_inv_def)
  moreover have "srv_sock_fd s' = srv_sock_fd s" "shm_fd s' = shm_fd s" by (simp_all add: r(1))
  ultimately show ?thesis using sv r(3) unfolding serves_def l r(2) by auto
qed

lemma serves_handle_fds:
  assumes E: "server_env_ok E" and sv: "serves base s os" and run: "ivshmem_server_handle_fds E fds maxfd s os = Some (r, s', os')"
  shows "serves base s' os'"
proof -
  have inv: "server_inv s os" using sv by (simp add: serves_def)
  obtain r1 s1 os1 where c: "ivshmem_server_handle_new_conn E s os = Some (r1, s1, os1)" "conn_outcome s os r1 s1 os1"
    using new_conn_result [OF E inv] by blast
  note sv1 = serves_new_conn [OF sv c(2)]
  show ?thesis using run c(1) sv1 sv serves_free_peers [OF E]
    by (auto simp: ivshmem_server_handle_fds_def split: if_splits prod.splits)
qed

lemma serves_open: "serves base s os \<Longrightarrow> open_fds os' = open_fds os \<Longrightarrow> serves base s os'"
  unfolding serves_def using server_inv_open by metis

section \<open>An example server\<close>

text \<open>A system that gives out the next free number for every new descriptor and sends everything.\<close>

definition next_fd :: "sock_os \<Rightarrow> int \<times> sock_os" where
  "next_fd os =
     (if finite (open_fds os)
      then (Max (insert 2 (open_fds os)) + 1, os\<lparr>open_fds := insert (Max (insert 2 (open_fds os)) + 1) (open_fds os)\<rparr>)
      else (- 1, os))"

definition demo_server :: server_env where
  "demo_server = \<lparr>qemu_accept = (\<lambda>l. next_fd),
     event_notifier_init = (\<lambda>os. case next_fd os of (r, os1) \<Rightarrow> (r, \<lparr>rfd = r, wfd = r\<rparr>, os1)),
     event_notifier_cleanup = (\<lambda>e os. os_close (wfd e) (os_close (rfd e) os)),
     sendmsg = (\<lambda>sock i fd os. (8, os\<lparr>wire := wire os @ [(sock, i, fd)]\<rparr>)),
     open_shm = (\<lambda>u path. next_fd), fstat_size = (\<lambda>fd os. None), ftruncate = (\<lambda>fd n os. (0, os)), pow2ceil = (\<lambda>n. n),
     socket = next_fd, bind_path = (\<lambda>fd path os. (0, os)), listen = (\<lambda>fd os. (0, os)), unlink_path = (\<lambda>path os. os)\<rparr>"

definition demo_state :: ivshmem_server where
  "demo_state = \<lparr>unix_sock_path = [], srv_sock_fd = 3, shm_path = [], use_shm_open = True, shm_size = 4096, shm_fd = 4,
     n_vectors = 2, cur_id = 0, verbose = False, peer_list = []\<rparr>"

definition demo_os :: sock_os where
  "demo_os = \<lparr>open_fds = {0, 1, 2, 3, 4}, wire = [], inbox = [], kicks = [], errno = 0\<rparr>"

lemma next_fd_opens:
  "opens_one (fst (next_fd os)) os (snd (next_fd os))" "finite (open_fds os) \<Longrightarrow> 0 \<le> fst (next_fd os)"
proof -
  let ?m = "Max (insert 2 (open_fds os))"
  have "0 \<le> ?m \<and> ?m + 1 \<notin> open_fds os" if "finite (open_fds os)"
  proof -
    have le: "x \<in> insert 2 (open_fds os) \<Longrightarrow> x \<le> ?m" for x using that by (intro Max_ge) auto
    then show ?thesis using le [of 2] le [of "?m + 1"] by fastforce
  qed
  then show "opens_one (fst (next_fd os)) os (snd (next_fd os))" "finite (open_fds os) \<Longrightarrow> 0 \<le> fst (next_fd os)"
    by (auto simp: next_fd_def opens_one_def)
qed

lemma demo_server_ok: "server_env_ok demo_server" "sends_succeed demo_server" "calls_succeed demo_server"
proof -
  have n: "opens_one r os os'" if "next_fd os = (r, os')" for r os os' using next_fd_opens(1) [of os] that by simp
  show "server_env_ok demo_server" unfolding server_env_ok_def demo_server_def
    using next_fd_opens(1) n by (auto simp: opens_none_def notifier_fds_def opens_one_def split: prod.splits if_splits)
  show "sends_succeed demo_server" by (simp add: demo_server_def sends_succeed_def)
  then show "calls_succeed demo_server" using next_fd_opens(2) by (simp add: calls_succeed_def demo_server_def split: prod.splits) (metis fst_conv)
qed

lemma demo_state_ok: "server_inv demo_state demo_os" "finite (open_fds demo_os)"
  by (simp_all add: server_inv_def demo_state_def demo_os_def IVSHMEM_SERVER_MAX_VECTORS_def)

section \<open>Claims\<close>

text \<open>
  C32. Handling a new connection always returns, whichever call fails. On success exactly one
  peer was added, with an id no other peer has and with descriptors of its own that were not
  open before; on failure the peers and the open descriptors are those of before. Either way
  the state stays well formed and nothing but the next id and the list of peers changes.
\<close>

theorem new_connection_all_or_nothing:
  assumes "server_env_ok E" and "server_inv s os"
  shows "\<exists>r s' os'. ivshmem_server_handle_new_conn E s os = Some (r, s', os') \<and> server_inv s' os' \<and>
    (\<exists>c. s' = s\<lparr>cur_id := c, peer_list := peer_list s'\<rparr>) \<and>
    (if r = 0 then \<exists>p. peer_list s' = peer_list s @ [p] \<and> peer_fds p \<inter> open_fds os = {} \<and> open_fds os' = open_fds os \<union> peer_fds p
     else r = - 1 \<and> peer_list s' = peer_list s \<and> open_fds os' = open_fds os)"
  using new_conn_result [OF assms] unfolding conn_outcome_def .

theorem new_connection_all_or_nothing_witness:
  "server_env_ok demo_server \<and> server_inv demo_state demo_os \<and>
   (\<exists>r s' os'. ivshmem_server_handle_new_conn demo_server demo_state demo_os = Some (r, s', os') \<and> server_inv s' os')"
  using new_connection_all_or_nothing [OF demo_server_ok(1) demo_state_ok(1)] demo_server_ok(1) demo_state_ok(1) by blast

text \<open>
  C38. Sizing the shared memory ends after finitely many attempts, whatever \<open>ftruncate\<close>
  returns, with 0 or -1 and no descriptor opened or closed, if the size rounded up to a power
  of two is not 0 as an \<open>unsigned\<close>.
\<close>

theorem shm_sizing_terminates:
  assumes "server_env_ok E" and "0 < (ucast (pow2ceil E (ucast n)) :: u32)"
  shows "\<exists>r os'. ivshmem_server_ftruncate E fd n os = Some (r, os') \<and> (r = 0 \<or> r = - 1) \<and> open_fds os' = open_fds os"
  using ftruncate_returns [OF assms] ftruncate_outcome [OF assms(1)] unfolding opens_none_def by blast

theorem shm_sizing_terminates_witness:
  "server_env_ok demo_server \<and> 0 < (ucast (pow2ceil demo_server (ucast (4096 :: u32))) :: u32) \<and>
   (\<exists>r os'. ivshmem_server_ftruncate demo_server 4 4096 demo_os = Some (r, os') \<and> (r = 0 \<or> r = - 1) \<and> open_fds os' = open_fds demo_os)"
proof -
  have "0 < (ucast (pow2ceil demo_server (ucast (4096 :: u32))) :: u32)" by (simp add: demo_server_def)
  from shm_sizing_terminates [OF demo_server_ok(1) this] this demo_server_ok(1) show ?thesis by blast
qed

end
