(* ===== verification/Ivshmem_Server_Main.thy ===== *)
theory Ivshmem_Server_Main
  imports Ivshmem_Server
begin

text \<open>
  \<open>docs/ivshmem-server/main.c\<close>: the options, the main loop and \<open>main\<close>. \<open>main_env\<close> is what
  \<open>main\<close> gets from outside: the number parsers of QEMU, whether the two signal handlers could
  be installed, \<open>qemu_daemon\<close>, \<open>fopen\<close> of the pid file (a negative number for NULL, otherwise
  the descriptor of the stream), \<open>select\<close> and whether SIGTERM has arrived.
\<close>

section \<open>The options\<close>

record server_args =
  a_verbose :: bool
  a_foreground :: bool
  a_pid_file :: string
  a_unix_socket_path :: string
  a_shm_path :: string
  a_use_shm_open :: bool
  a_shm_size :: u64
  a_n_vectors :: u32

definition default_args :: server_args where
  "default_args = \<lparr>a_verbose = False, a_foreground = False, a_pid_file = ''/var/run/ivshmem-server.pid'',
     a_unix_socket_path = ''/tmp/ivshmem_socket'', a_shm_path = ''ivshmem'', a_use_shm_open = True,
     a_shm_size = 4 * 1024 * 1024, a_n_vectors = 1\<rparr>"

record main_env =
  parse_option_size :: "string \<Rightarrow> u64 option"
  parse_uint_full :: "string \<Rightarrow> u64 option"
  sigpipe_ignored :: bool
  sigterm_handled :: bool
  qemu_daemon :: "sock_os \<Rightarrow> int \<times> sock_os"
  fopen_w :: "string \<Rightarrow> sock_os \<Rightarrow> int \<times> sock_os"
  select_fds :: "int \<Rightarrow> int set \<Rightarrow> sock_os \<Rightarrow> int \<times> int set \<times> sock_os"
  quit_flag :: "sock_os \<Rightarrow> bool"

text \<open>
  What \<open>getopt\<close> returns, option by option with its argument, is handled in order; the left
  value is an exit status. The number of vectors is an \<open>unsigned long long\<close> stored into an
  \<open>unsigned\<close>.
\<close>

fun parse_opts :: "main_env \<Rightarrow> (char \<times> string) list \<Rightarrow> server_args \<Rightarrow> int + server_args" where
  "parse_opts M [] a = Inr a"
| "parse_opts M ((c, optarg) # rest) a =
     (if c = CHR ''h'' then Inl 0
      else if c = CHR ''v'' then parse_opts M rest (a\<lparr>a_verbose := True\<rparr>)
      else if c = CHR ''F'' then parse_opts M rest (a\<lparr>a_foreground := True\<rparr>)
      else if c = CHR ''p'' then parse_opts M rest (a\<lparr>a_pid_file := optarg\<rparr>)
      else if c = CHR ''S'' then parse_opts M rest (a\<lparr>a_unix_socket_path := optarg\<rparr>)
      else if c = CHR ''M'' \<or> c = CHR ''m'' then
        parse_opts M rest (a\<lparr>a_shm_path := optarg, a_use_shm_open := (c = CHR ''M'')\<rparr>)
      else if c = CHR ''l'' then
        (case parse_option_size M optarg of None \<Rightarrow> Inl 1 | Some v \<Rightarrow> parse_opts M rest (a\<lparr>a_shm_size := v\<rparr>))
      else if c = CHR ''n'' then
        (case parse_uint_full M optarg of None \<Rightarrow> Inl 1 | Some v \<Rightarrow> parse_opts M rest (a\<lparr>a_n_vectors := ucast v\<rparr>))
      else Inl 1)"

definition ivshmem_server_parse_args :: "main_env \<Rightarrow> (char \<times> string) list \<Rightarrow> server_args \<Rightarrow> int + server_args" where
  "ivshmem_server_parse_args M opts a =
     (case parse_opts M opts a of
        Inl e \<Rightarrow> Inl e
      | Inr a1 \<Rightarrow>
          if unat (a_n_vectors a1) > IVSHMEM_SERVER_MAX_VECTORS then Inl 1
          else if a_verbose a1 \<and> \<not> a_foreground a1 then Inl 1
          else Inr a1)"

section \<open>The main loop\<close>

definition server_poll_pass ::
  "server_env \<Rightarrow> main_env \<Rightarrow> ivshmem_server \<times> sock_os \<Rightarrow> (bool \<times> int \<times> ivshmem_server \<times> sock_os) option" where
  "server_poll_pass E M st = (case st of (s, os) \<Rightarrow> do {
     (fds, maxfd) \<leftarrow> ivshmem_server_get_fds s ({}, 0);
     (case select_fds M maxfd fds os of
        (ret, fds1, os1) \<Rightarrow>
          if ret < 0 then Some (errno os1 = EINTR, ret, s, os1)
          else if ret = 0 then Some (True, ret, s, os1)
          else do {
            (ret2, s2, os2) \<leftarrow> ivshmem_server_handle_fds E fds1 maxfd s os1;
            Some (\<not> ret2 < 0, ret, s2, os2)
          })
   })"

definition ivshmem_server_poll_events ::
  "server_env \<Rightarrow> main_env \<Rightarrow> ivshmem_server \<Rightarrow> sock_os \<Rightarrow> (int \<times> ivshmem_server \<times> sock_os) option" where
  "ivshmem_server_poll_events E M s os = run_loop (\<lambda>(s, os). quit_flag M os) (server_poll_pass E M) 0 (s, os)"

section \<open>The program\<close>

text \<open>The label \<open>err_close\<close>.\<close>

definition main_err_close :: "server_env \<Rightarrow> int \<Rightarrow> ivshmem_server \<Rightarrow> sock_os \<Rightarrow> (int \<times> sock_os) option" where
  "main_err_close E ret s os = (case ivshmem_server_close E s os of (s1, os1) \<Rightarrow> Some (ret, os1))"

text \<open>Going into the background: whether it succeeded.\<close>

definition daemonize :: "main_env \<Rightarrow> server_args \<Rightarrow> sock_os \<Rightarrow> bool \<times> sock_os" where
  "daemonize M a os =
     (if a_foreground a then (True, os)
      else case qemu_daemon M os of
        (ret, os1) \<Rightarrow>
          if ret < 0 then (False, os1)
          else case fopen_w M (a_pid_file a) os1 of
            (fp, os2) \<Rightarrow> if fp < 0 then (False, os2) else (True, os_close fp os2))"

text \<open>The part of \<open>main\<close> after the server was started.\<close>

definition main_started :: "server_env \<Rightarrow> main_env \<Rightarrow> server_args \<Rightarrow> ivshmem_server \<Rightarrow> sock_os \<Rightarrow> (int \<times> sock_os) option" where
  "main_started E M a s1 os1 =
     (case daemonize M a os1 of
        (False, os2) \<Rightarrow> main_err_close E 1 s1 os2
      | (True, os2) \<Rightarrow> do {
          (r3, s3, os3) \<leftarrow> ivshmem_server_poll_events E M s1 os2;
          main_err_close E 0 s3 os3
        })"

definition ivshmem_server_main :: "server_env \<Rightarrow> main_env \<Rightarrow> (char \<times> string) list \<Rightarrow> sock_os \<Rightarrow> (int \<times> sock_os) option" where
  "ivshmem_server_main E M opts os =
     (case ivshmem_server_parse_args M opts default_args of
        Inl e \<Rightarrow> Some (e, os)
      | Inr a \<Rightarrow>
          if \<not> sigpipe_ignored M then Some (1, os)
          else if \<not> sigterm_handled M then Some (1, os)
          else do {
            (r, s) \<leftarrow> ivshmem_server_init (a_unix_socket_path a) (a_shm_path a) (a_use_shm_open a) (a_shm_size a) (a_n_vectors a) (a_verbose a);
            if r < 0 then Some (1, os)
            else do {
              (r1, s1, os1) \<leftarrow> ivshmem_server_start E s os;
              if r1 < 0 then Some (1, os1) else main_started E M a s1 os1
            }
          })"

section \<open>Properties\<close>

definition main_env_ok :: "main_env \<Rightarrow> bool" where
  "main_env_ok M \<longleftrightarrow> (\<forall>os. opens_none os (snd (qemu_daemon M os))) \<and>
     (\<forall>path os. opens_one (fst (fopen_w M path os)) os (snd (fopen_w M path os))) \<and>
     (\<forall>m fds os. opens_none os (snd (snd (select_fds M m fds os))))"

text \<open>The arguments \<open>main\<close> goes on with fit the arrays of the server.\<close>

lemma parse_args_result:
  "ivshmem_server_parse_args M opts a = Inr a' \<Longrightarrow> unat (a_n_vectors a') \<le> IVSHMEM_SERVER_MAX_VECTORS \<and> (a_verbose a' \<longrightarrow> a_foreground a')"
  by (auto simp: ivshmem_server_parse_args_def split: sum.splits if_splits)

lemma parse_opts_status: "parse_opts M opts a = Inl e \<Longrightarrow> e = 0 \<or> e = 1"
proof (induction opts arbitrary: a)
  case (Cons x opts)
  obtain c optarg where "x = (c, optarg)" by (metis surj_pair)
  then show ?case using Cons by (simp split: if_splits option.splits)
qed simp

lemma parse_args_status: "ivshmem_server_parse_args M opts a = Inl e \<Longrightarrow> e = 0 \<or> e = 1"
  by (auto simp: ivshmem_server_parse_args_def split: sum.splits if_splits dest: parse_opts_status)

lemma init_result:
  assumes "ivshmem_server_init sp mp u sz n v = Some (r, s)"
  shows "peer_list s = [] \<and> (r < 0 \<or> r = 0 \<and> n_vectors s = n \<and> shm_size s = sz)"
  using assms by (auto simp: ivshmem_server_init_def Let_def zero_server_def split: bind_splits if_splits)

text \<open>A server that has just been started serves nobody.\<close>

lemma started_serves:
  assumes E: "server_env_ok E" and run: "ivshmem_server_start E s os = Some (0, s', os')"
    and s: "peer_list s = []" "unat (n_vectors s) \<le> IVSHMEM_SERVER_MAX_VECTORS"
  shows "serves (open_fds os) s' os'"
proof -
  obtain sock shm where s': "s' = s\<lparr>srv_sock_fd := sock, shm_fd := shm\<rparr>" "0 \<le> shm"
      "{sock, shm} \<inter> open_fds os = {}" "open_fds os' = open_fds os \<union> {sock, shm}"
    using start_result [OF E run] by (auto simp: start_outcome_def)
  then show ?thesis using s by (auto simp: serves_def server_inv_def)
qed

lemma serves_poll_pass:
  assumes E: "server_env_ok E" and M: "main_env_ok M" and sv: "serves base s os"
    and run: "server_poll_pass E M (s, os) = Some (go, r, s', os')"
  shows "serves base s' os'"
proof -
  have "serves base s (snd (snd (select_fds M m fds os)))" for m fds
    using serves_open [OF sv] M by (simp add: main_env_ok_def opens_none_def)
  then have "serves base s os1" if "select_fds M m fds os = (r, fds1, os1)" for m fds r fds1 os1 using that by (metis snd_conv)
  then show ?thesis using run sv serves_handle_fds [OF E, of base] unfolding server_poll_pass_def
    by (auto split: bind_splits prod.splits if_splits) blast+
qed

interpretation server_loop: loop_invariant "server_poll_pass E M"
  "\<lambda>st. server_env_ok E \<and> main_env_ok M \<and> serves base (fst st) (snd st)" for E M base
  by unfold_locales (auto dest: serves_poll_pass)

lemma serves_poll_events:
  assumes "server_env_ok E" and "main_env_ok M" and run: "ivshmem_server_poll_events E M s os = Some (r, s', os')" and "serves base s os"
  shows "serves base s' os'"
  using server_loop.loop_keeps [OF run [unfolded ivshmem_server_poll_events_def], of base] assms by simp

text \<open>Whatever a server does until it is told to quit, closing it leaves open what was open before it was started.\<close>

lemma serves_close:
  assumes E: "server_env_ok E" and sv: "serves base s os" and run: "ivshmem_server_close E s os = (s', os')"
  shows "open_fds os' = base"
proof -
  have inv: "server_inv s os" using sv by (simp add: serves_def)
  show ?thesis using close_result [OF E inv run] sv by (auto simp: serves_def)
qed

lemma main_err_close_result:
  assumes "server_env_ok E" and "serves base s os" and "main_err_close E ret s os = Some (r, os')"
  shows "open_fds os' = base \<and> r = ret"
  using assms(3) serves_close [OF assms(1,2)] by (auto simp: main_err_close_def split: prod.splits)

lemma daemonize_open:
  assumes "main_env_ok M" and "daemonize M a os = (ok, os')"
  shows "open_fds os' = open_fds os"
proof -
  obtain r os1 where d: "qemu_daemon M os = (r, os1)" by (metis surj_pair)
  obtain fp os2 where f: "fopen_w M (a_pid_file a) os1 = (fp, os2)" by (metis surj_pair)
  have "open_fds os1 = open_fds os" using assms(1) d by (metis main_env_ok_def opens_none_def snd_conv)
  moreover have "opens_one fp os1 os2" using assms(1) f by (metis main_env_ok_def fst_conv snd_conv)
  ultimately show ?thesis using assms(2) d f by (auto simp: daemonize_def opens_one_def split: if_splits)
qed

lemma main_started_result:
  assumes E: "server_env_ok E" and M: "main_env_ok M" and sv: "serves base s os" and run: "main_started E M a s os = Some (r, os')"
  shows "open_fds os' = base \<and> (r = 0 \<or> r = 1)"
proof -
  obtain d os2 where d: "daemonize M a os = (d, os2)" by (metis surj_pair)
  have sv2: "serves base s os2" using serves_open [OF sv daemonize_open [OF M d]] .
  show ?thesis
  proof (cases d)
    case False
    then show ?thesis using run d main_err_close_result [OF E sv2] by (simp add: main_started_def)
  next
    case True
    then obtain r3 s3 os3 where "ivshmem_server_poll_events E M s os2 = Some (r3, s3, os3)" "main_err_close E 0 s3 os3 = Some (r, os')"
      using run d by (auto simp: main_started_def split: bind_splits)
    then show ?thesis using main_err_close_result [OF E serves_poll_events [OF E M _ sv2]] by blast
  qed
qed

lemma main_result:
  assumes E: "server_env_ok E" and M: "main_env_ok M" and run: "ivshmem_server_main E M opts os = Some (r, os')"
  shows "open_fds os' = open_fds os \<and> (r = 0 \<or> r = 1)"
proof (cases "ivshmem_server_parse_args M opts default_args")
  case (Inl e)
  then show ?thesis using run parse_args_status [OF Inl] by (auto simp: ivshmem_server_main_def)
next
  case (Inr a)
  let ?init = "ivshmem_server_init (a_unix_socket_path a) (a_shm_path a) (a_use_shm_open a) (a_shm_size a) (a_n_vectors a) (a_verbose a)"
  note main = run [unfolded ivshmem_server_main_def Inr sum.case]
  consider "r = 1" "os' = os"
    | s r1 s1 os1 where "?init = Some (0, s)" "ivshmem_server_start E s os = Some (r1, s1, os1)"
        "(if r1 < 0 then Some (1, os1) else main_started E M a s1 os1) = Some (r, os')"
    using main init_result by (auto split: bind_splits if_splits) (metis order.strict_iff_not)+
  then show ?thesis
  proof cases
    case (2 s r1 s1 os1)
    then have s: "peer_list s = []" "unat (n_vectors s) \<le> IVSHMEM_SERVER_MAX_VECTORS"
      using init_result [OF 2(1)] parse_args_result [OF Inr] by auto
    show ?thesis
    proof (cases "r1 < 0")
      case True
      then show ?thesis using 2(3) start_result [OF E 2(2)] by (auto simp: start_outcome_def)
    next
      case False
      then have "r1 = 0" using start_result [OF E 2(2)] by (auto simp: start_outcome_def split: if_splits)
      with 2(2) have "serves (open_fds os) s1 os1" using started_serves [OF E _ s] by blast
      from main_started_result [OF E M this] show ?thesis using 2(3) False by simp
    qed
  qed simp
qed

section \<open>Claims\<close>

definition demo_main :: main_env where
  "demo_main = \<lparr>parse_option_size = (\<lambda>s. None), parse_uint_full = (\<lambda>s. None), sigpipe_ignored = True, sigterm_handled = True,
     qemu_daemon = (\<lambda>os. (0, os)), fopen_w = (\<lambda>path. next_fd), select_fds = (\<lambda>m fds os. (- 1, {}, os)), quit_flag = (\<lambda>os. True)\<rparr>"

lemma demo_main_ok: "main_env_ok demo_main"
  using next_fd_opens(1) by (auto simp: main_env_ok_def demo_main_def opens_none_def)

text \<open>
  C34. Whatever options the server is started with, which calls fail and what clients do
  until it is told to quit or a call of the main loop fails: when \<open>main\<close> returns, it returns 0
  or 1 and the open descriptors are those the process was started with.
\<close>

theorem server_leaves_nothing_open:
  assumes "server_env_ok E" and "main_env_ok M" and "ivshmem_server_main E M opts os = Some (r, os')"
  shows "open_fds os' = open_fds os \<and> (r = 0 \<or> r = 1)"
  using main_result [OF assms] .

lemma demo_init_returns:
  assumes "length sp < PATH_MAX" and "length mp < PATH_MAX"
  shows "\<exists>s. ivshmem_server_init sp mp u sz n v = Some (0, s) \<and> shm_size s = sz"
  using assms by (simp add: ivshmem_server_init_def Let_def snprintf_def zero_server_def)

lemma demo_main_returns: "\<exists>r os'. ivshmem_server_main demo_server demo_main [(CHR ''F'', [])] demo_os = Some (r, os')"
proof -
  let ?a = "default_args\<lparr>a_foreground := True\<rparr>"
  have a: "ivshmem_server_parse_args demo_main [(CHR ''F'', [])] default_args = Inr ?a"
    by (simp add: ivshmem_server_parse_args_def default_args_def IVSHMEM_SERVER_MAX_VECTORS_def)
  obtain s where i: "ivshmem_server_init (a_unix_socket_path ?a) (a_shm_path ?a) (a_use_shm_open ?a) (a_shm_size ?a) (a_n_vectors ?a) (a_verbose ?a) = Some (0, s)"
      "shm_size s = 4 * 1024 * 1024"
    using demo_init_returns [of "a_unix_socket_path ?a" "a_shm_path ?a" "a_use_shm_open ?a" "a_shm_size ?a" "a_n_vectors ?a" "a_verbose ?a"]
    by (auto simp: default_args_def PATH_MAX_def)
  have "0 < (ucast (pow2ceil demo_server (ucast (ucast (shm_size s) :: u32))) :: u32)" by (simp add: i(2) demo_server_def)
  from start_returns [OF ftruncate_returns [OF demo_server_ok(1) this]] obtain r s1 os1
    where st: "ivshmem_server_start demo_server s demo_os = Some (r, s1, os1)" by blast
  show ?thesis
  proof (cases "r < 0")
    case True
    then show ?thesis using a i st by (simp add: ivshmem_server_main_def demo_main_def)
  next
    case False
    have "ivshmem_server_poll_events demo_server demo_main s1 os1 = Some (0, s1, os1)"
      by (simp add: ivshmem_server_poll_events_def run_loop.simps demo_main_def)
    then show ?thesis using a i st False
      by (simp add: ivshmem_server_main_def main_started_def demo_main_def daemonize_def main_err_close_def split: prod.splits)
  qed
qed

theorem server_leaves_nothing_open_witness:
  "\<exists>r os'. ivshmem_server_main demo_server demo_main [(CHR ''F'', [])] demo_os = Some (r, os') \<and> open_fds os' = open_fds demo_os \<and> (r = 0 \<or> r = 1)"
  using demo_main_returns server_leaves_nothing_open [OF demo_server_ok(1) demo_main_ok] by blast

end
