(* ===== verification/Ivshmem_Client.thy ===== *)
theory Ivshmem_Client
  imports Ivshmem_Os
begin

text \<open>
  \<open>docs/ivshmem-client\<close>: the example client of the server. It keeps one entry per peer with
  the eventfds of its vectors, built from the messages of the server. \<open>client_env\<close> are the
  system calls it uses and the notification callback; a pointer into the client's data is a
  \<open>peer_ref\<close>. The first half follows the source; then an abstract client is specified and
  \<open>ivshmem_client_handle_server_msg\<close> is shown to implement it.
\<close>

section \<open>Data\<close>

definition IVSHMEM_CLIENT_MAX_VECTORS :: nat where
  "IVSHMEM_CLIENT_MAX_VECTORS = 64"

record client_peer =
  cp_id :: int
  cp_vectors :: "int list"
  cp_vectors_count :: u32

record ivshmem_client =
  c_unix_sock_path :: bytes
  c_sock_fd :: int
  c_shm_fd :: int
  c_peer_list :: "client_peer list"
  c_local :: client_peer
  c_verbose :: bool

datatype peer_ref = Local | Listed nat

record client_env =
  recvmsg :: "int \<Rightarrow> sock_os \<Rightarrow> int \<times> int \<times> int list \<times> sock_os"
  c_socket :: "sock_os \<Rightarrow> int \<times> sock_os"
  c_connect :: "int \<Rightarrow> string \<Rightarrow> sock_os \<Rightarrow> int \<times> sock_os"
  read_kick :: "int \<Rightarrow> sock_os \<Rightarrow> int \<times> sock_os"
  write_kick :: "int \<Rightarrow> sock_os \<Rightarrow> int \<times> sock_os"
  notif_cb :: "(ivshmem_client \<Rightarrow> nat \<Rightarrow> sock_os \<Rightarrow> sock_os) option"

section \<open>Messages from the server\<close>

text \<open>
  \<open>ret < sizeof( *index)\<close> compares as \<open>size_t\<close>: a negative result passes the check, and the
  function goes on to read an index and control data nobody has written.
\<close>

definition ivshmem_client_read_one_msg ::
  "client_env \<Rightarrow> ivshmem_client \<Rightarrow> sock_os \<Rightarrow> ((int + int \<times> int) \<times> sock_os) option" where
  "ivshmem_client_read_one_msg E c os =
     (case recvmsg E (c_sock_fd c) os of
        (ret, index, fds, os1) \<Rightarrow>
          if to_u64 ret < 8 then Some (Inl (- 1), os1)
          else if ret = 0 then Some (Inl (- 1), os1)
          else if ret < 0 then None
          else Some (Inr (index, if fds = [] then - 1 else last fds), os1))"

fun close_fds :: "int list \<Rightarrow> sock_os \<Rightarrow> sock_os" where
  "close_fds [] os = os"
| "close_fds (fd # rest) os = close_fds rest (os_close fd os)"

definition ivshmem_client_free_peer :: "nat \<Rightarrow> ivshmem_client \<Rightarrow> sock_os \<Rightarrow> ivshmem_client \<times> sock_os" where
  "ivshmem_client_free_peer k c os =
     (let p = c_peer_list c ! k in
      (c\<lparr>c_peer_list := take k (c_peer_list c) @ drop (Suc k) (c_peer_list c)\<rparr>,
       close_fds (take (unat (cp_vectors_count p)) (cp_vectors p)) os))"

fun index_of_peer :: "int \<Rightarrow> client_peer list \<Rightarrow> nat option" where
  "index_of_peer i [] = None"
| "index_of_peer i (p # ps) = (if cp_id p = i then Some 0 else map_option Suc (index_of_peer i ps))"

definition ivshmem_client_search_peer :: "ivshmem_client \<Rightarrow> int \<Rightarrow> peer_ref option" where
  "ivshmem_client_search_peer c i =
     (if i = cp_id (c_local c) then Some Local else map_option Listed (index_of_peer i (c_peer_list c)))"

definition get_peer :: "ivshmem_client \<Rightarrow> peer_ref \<Rightarrow> client_peer" where
  "get_peer c r = (case r of Local \<Rightarrow> c_local c | Listed k \<Rightarrow> c_peer_list c ! k)"

definition put_peer :: "peer_ref \<Rightarrow> client_peer \<Rightarrow> ivshmem_client \<Rightarrow> ivshmem_client" where
  "put_peer r p c = (case r of Local \<Rightarrow> c\<lparr>c_local := p\<rparr> | Listed k \<Rightarrow> c\<lparr>c_peer_list := (c_peer_list c)[k := p]\<rparr>)"

text \<open>\<open>g_malloc0\<close>\<close>

definition new_client_peer :: "int \<Rightarrow> client_peer" where
  "new_client_peer i = \<lparr>cp_id = i, cp_vectors = replicate IVSHMEM_CLIENT_MAX_VECTORS 0, cp_vectors_count = 0\<rparr>"

definition ivshmem_client_handle_server_msg ::
  "client_env \<Rightarrow> ivshmem_client \<Rightarrow> sock_os \<Rightarrow> (int \<times> ivshmem_client \<times> sock_os) option" where
  "ivshmem_client_handle_server_msg E c os = do {
     (r, os1) \<leftarrow> ivshmem_client_read_one_msg E c os;
     (case r of
        Inl e \<Rightarrow> Some (- 1, c, os1)
      | Inr (i, fd) \<Rightarrow>
          if fd = - 1 then
            (case ivshmem_client_search_peer c i of
               Some (Listed k) \<Rightarrow> (case ivshmem_client_free_peer k c os1 of (c1, os2) \<Rightarrow> Some (0, c1, os2))
             | _ \<Rightarrow> Some (- 1, c, os1))
          else
            (case (case ivshmem_client_search_peer c i of
                     None \<Rightarrow> (c\<lparr>c_peer_list := c_peer_list c @ [new_client_peer i]\<rparr>, Listed (length (c_peer_list c)))
                   | Some ref \<Rightarrow> (c, ref)) of
               (c1, ref) \<Rightarrow>
                 let p = get_peer c1 ref in
                 if unat (cp_vectors_count p) \<ge> IVSHMEM_CLIENT_MAX_VECTORS then Some (- 1, c1, os1)
                 else Some (0, put_peer ref (p\<lparr>cp_vectors := (cp_vectors p)[unat (cp_vectors_count p) := fd],
                        cp_vectors_count := cp_vectors_count p + 1\<rparr>) c1, os1)))
   }"

section \<open>Connecting and closing\<close>

definition ivshmem_client_init :: "string \<Rightarrow> bool \<Rightarrow> (int \<times> ivshmem_client) option" where
  "ivshmem_client_init path verb = do {
     let c = \<lparr>c_unix_sock_path = replicate PATH_MAX NUL, c_sock_fd = 0, c_shm_fd = 0, c_peer_list = [],
       c_local = \<lparr>cp_id = 0, cp_vectors = replicate IVSHMEM_CLIENT_MAX_VECTORS 0, cp_vectors_count = 0\<rparr>, c_verbose = False\<rparr>;
     (up, ret) \<leftarrow> snprintf (c_unix_sock_path c) PATH_MAX path;
     let c1 = c\<lparr>c_unix_sock_path := up\<rparr>;
     if ret \<ge> PATH_MAX then Some (- 1, c1)
     else Some (0, c1\<lparr>c_local := (c_local c1)\<lparr>cp_vectors := replicate IVSHMEM_CLIENT_MAX_VECTORS (- 1), cp_id := - 1\<rparr>,
       c_peer_list := [], c_shm_fd := - 1, c_sock_fd := - 1, c_verbose := verb\<rparr>)
   }"

text \<open>The label \<open>err_close\<close>.\<close>

definition client_err_close :: "ivshmem_client \<Rightarrow> sock_os \<Rightarrow> (int \<times> ivshmem_client \<times> sock_os) option" where
  "client_err_close c os = Some (- 1, c\<lparr>c_sock_fd := - 1\<rparr>, os_close (c_sock_fd c) os)"

text \<open>
  The three messages a new client expects: version, own id, shared memory. A message is read
  whole or not at all; that a short read would overwrite part of \<open>local.id\<close> before the connection
  is given up is left out (the next connection writes it anew).
\<close>

definition client_greeting :: "client_env \<Rightarrow> ivshmem_client \<Rightarrow> sock_os \<Rightarrow> (int \<times> ivshmem_client \<times> sock_os) option" where
  "client_greeting E c os = do {
     (r1, os1) \<leftarrow> ivshmem_client_read_one_msg E c os;
     (case r1 of
        Inl _ \<Rightarrow> client_err_close c os1
      | Inr (tmp, fd) \<Rightarrow>
          if tmp \<noteq> IVSHMEM_PROTOCOL_VERSION \<or> fd \<noteq> - 1 then client_err_close c os1
          else do {
            (r2, os2) \<leftarrow> ivshmem_client_read_one_msg E c os1;
            (case r2 of
               Inl _ \<Rightarrow> client_err_close c os2
             | Inr (i, fd2) \<Rightarrow>
                 let c2 = c\<lparr>c_local := (c_local c)\<lparr>cp_id := i\<rparr>\<rparr> in
                 if i < 0 \<or> fd2 \<noteq> - 1 then client_err_close c2 os2
                 else do {
                   (r3, os3) \<leftarrow> ivshmem_client_read_one_msg E c2 os2;
                   (case r3 of
                      Inl _ \<Rightarrow> client_err_close c2 os3
                    | Inr (tmp3, fd3) \<Rightarrow>
                        if tmp3 \<noteq> - 1 \<or> fd3 < 0 then client_err_close c2 (if fd3 \<ge> 0 then os_close fd3 os3 else os3)
                        else Some (0, c2\<lparr>c_shm_fd := fd3\<rparr>, os3))
                 })
          })
   }"

definition ivshmem_client_connect ::
  "client_env \<Rightarrow> ivshmem_client \<Rightarrow> sock_os \<Rightarrow> (int \<times> ivshmem_client \<times> sock_os) option" where
  "ivshmem_client_connect E c os =
     (case c_socket E os of
        (sock, os1) \<Rightarrow>
          let c1 = c\<lparr>c_sock_fd := sock\<rparr> in
          if sock < 0 then Some (- 1, c1, os1)
          else do {
            (path, len) \<leftarrow> snprintf (replicate sizeof_sun_path NUL) sizeof_sun_path (cstr (c_unix_sock_path c1));
            if len \<ge> sizeof_sun_path then client_err_close c1 os1
            else case c_connect E sock (cstr path) os1 of
              (ret, os2) \<Rightarrow> if ret < 0 then client_err_close c1 os2 else client_greeting E c1 os2
          })"

text \<open>\<open>while ((peer = QTAILQ_FIRST(...)) != NULL)\<close>\<close>

fun free_all_peers :: "nat \<Rightarrow> ivshmem_client \<Rightarrow> sock_os \<Rightarrow> ivshmem_client \<times> sock_os" where
  "free_all_peers 0 c os = (c, os)"
| "free_all_peers (Suc n) c os = (case ivshmem_client_free_peer 0 c os of (c1, os1) \<Rightarrow> free_all_peers n c1 os1)"

definition ivshmem_client_close :: "ivshmem_client \<Rightarrow> sock_os \<Rightarrow> ivshmem_client \<times> sock_os" where
  "ivshmem_client_close c os =
     (case free_all_peers (length (c_peer_list c)) c os of
        (c1, os1) \<Rightarrow>
          let os2 = os_close (c_sock_fd c1) (os_close (c_shm_fd c1) os1);
              os3 = close_fds (cp_vectors (c_local c1)) os2
          in (c1\<lparr>c_shm_fd := - 1, c_sock_fd := - 1,
                c_local := (c_local c1)\<lparr>cp_id := - 1, cp_vectors := replicate IVSHMEM_CLIENT_MAX_VECTORS (- 1), cp_vectors_count := 0\<rparr>\<rparr>, os3))"

section \<open>Events and notifications\<close>

definition ivshmem_client_get_fds :: "ivshmem_client \<Rightarrow> int set \<times> int \<Rightarrow> (int set \<times> int) option" where
  "ivshmem_client_get_fds c st =
     add_fds (c_sock_fd c # take (unat (cp_vectors_count (c_local c))) (cp_vectors (c_local c))) st"

text \<open>The loop of \<open>ivshmem_client_handle_event\<close> over the vectors from number \<open>i\<close> on.\<close>

fun event_loop :: "client_env \<Rightarrow> ivshmem_client \<Rightarrow> int set \<Rightarrow> int \<Rightarrow> nat \<Rightarrow> int list \<Rightarrow> sock_os \<Rightarrow> int \<times> sock_os" where
  "event_loop E c cur maxfd i [] os = (0, os)"
| "event_loop E c cur maxfd i (fd # rest) os =
     (if fd \<ge> maxfd \<or> fd \<notin> cur then event_loop E c cur maxfd (Suc i) rest os
      else case read_kick E fd os of
        (ret, os1) \<Rightarrow>
          if ret < 0 then (ret, os1)
          else if ret \<noteq> 8 then (- 1, os1\<lparr>errno := EINVAL\<rparr>)
          else event_loop E c cur maxfd (Suc i) rest (case notif_cb E of None \<Rightarrow> os1 | Some f \<Rightarrow> f c i os1))"

definition ivshmem_client_handle_event ::
  "client_env \<Rightarrow> ivshmem_client \<Rightarrow> int set \<Rightarrow> int \<Rightarrow> sock_os \<Rightarrow> int \<times> sock_os" where
  "ivshmem_client_handle_event E c cur maxfd os =
     event_loop E c cur maxfd 0 (take (unat (cp_vectors_count (c_local c))) (cp_vectors (c_local c))) os"

definition ivshmem_client_handle_fds ::
  "client_env \<Rightarrow> int set \<Rightarrow> int \<Rightarrow> ivshmem_client \<Rightarrow> sock_os \<Rightarrow> (int \<times> ivshmem_client \<times> sock_os) option" where
  "ivshmem_client_handle_fds E fds maxfd c os = do {
     (bad, c1, os1) \<leftarrow>
       (if c_sock_fd c < maxfd \<and> c_sock_fd c \<in> fds
        then do { (ret, c1, os1) \<leftarrow> ivshmem_client_handle_server_msg E c os; Some (ret < 0 \<and> errno os1 \<noteq> EINTR, c1, os1) }
        else Some (False, c, os));
     if bad then Some (- 1, c1, os1)
     else case ivshmem_client_handle_event E c1 fds maxfd os1 of
       (ret, os2) \<Rightarrow> if ret < 0 \<and> errno os2 \<noteq> EINTR then Some (- 1, c1, os2) else Some (0, c1, os2)
   }"

definition ivshmem_client_notify :: "client_env \<Rightarrow> client_peer \<Rightarrow> u32 \<Rightarrow> sock_os \<Rightarrow> int \<times> sock_os" where
  "ivshmem_client_notify E p vec os =
     (if vec \<ge> cp_vectors_count p then (- 1, os)
      else case write_kick E (cp_vectors p ! unat vec) os of
        (ret, os1) \<Rightarrow> if ret \<noteq> 8 then (- 1, os1) else (0, os1))"

fun notify_loop :: "client_env \<Rightarrow> client_peer \<Rightarrow> nat list \<Rightarrow> int \<Rightarrow> sock_os \<Rightarrow> int \<times> sock_os" where
  "notify_loop E p [] ret os = (ret, os)"
| "notify_loop E p (v # vs) ret os =
     (case ivshmem_client_notify E p (of_nat v) os of
        (r, os1) \<Rightarrow> notify_loop E p vs (if r < 0 then - 1 else ret) os1)"

definition ivshmem_client_notify_all_vects :: "client_env \<Rightarrow> client_peer \<Rightarrow> sock_os \<Rightarrow> int \<times> sock_os" where
  "ivshmem_client_notify_all_vects E p os = notify_loop E p [0..<unat (cp_vectors_count p)] 0 os"

fun broadcast_loop :: "client_env \<Rightarrow> client_peer list \<Rightarrow> int \<Rightarrow> sock_os \<Rightarrow> int \<times> sock_os" where
  "broadcast_loop E [] ret os = (ret, os)"
| "broadcast_loop E (p # ps) ret os =
     (case ivshmem_client_notify_all_vects E p os of
        (r, os1) \<Rightarrow> broadcast_loop E ps (if r < 0 then - 1 else ret) os1)"

definition ivshmem_client_notify_broadcast :: "client_env \<Rightarrow> ivshmem_client \<Rightarrow> sock_os \<Rightarrow> int \<times> sock_os" where
  "ivshmem_client_notify_broadcast E c os = broadcast_loop E (c_peer_list c) 0 os"

section \<open>The abstract client\<close>

text \<open>Its own id and eventfds, and those of every peer, in the order they were announced.\<close>

record client_view =
  own_id :: int
  own_fds :: "int list"
  peers :: "(int \<times> int list) list"

definition add_peer_fd :: "int \<Rightarrow> int \<Rightarrow> (int \<times> int list) list \<Rightarrow> (int \<times> int list) list" where
  "add_peer_fd i fd ps =
     (if i \<in> fst ` set ps then map (\<lambda>(j, fs). if j = i then (j, fs @ [fd]) else (j, fs)) ps else ps @ [(i, [fd])])"

text \<open>The eventfds known for \<open>i\<close>.\<close>

definition fds_of :: "client_view \<Rightarrow> int \<Rightarrow> int list" where
  "fds_of v i = (if i = own_id v then own_fds v else case map_of (peers v) i of None \<Rightarrow> [] | Some fs \<Rightarrow> fs)"

fun view_msg :: "int \<times> int \<Rightarrow> client_view \<Rightarrow> client_view option" where
  "view_msg (i, fd) v =
     (if fd < 0 then
        (if i \<noteq> own_id v \<and> i \<in> fst ` set (peers v) then Some (v\<lparr>peers := filter (\<lambda>p. fst p \<noteq> i) (peers v)\<rparr>) else None)
      else if IVSHMEM_CLIENT_MAX_VECTORS \<le> length (fds_of v i) then None
      else if i = own_id v then Some (v\<lparr>own_fds := own_fds v @ [fd]\<rparr>)
      else Some (v\<lparr>peers := add_peer_fd i fd (peers v)\<rparr>))"

definition peer_view :: "client_peer \<Rightarrow> int \<times> int list" where
  "peer_view p = (cp_id p, take (unat (cp_vectors_count p)) (cp_vectors p))"

definition abs_client :: "ivshmem_client \<Rightarrow> client_view" where
  "abs_client c = \<lparr>own_id = cp_id (c_local c), own_fds = snd (peer_view (c_local c)), peers = map peer_view (c_peer_list c)\<rparr>"

definition peer_ok :: "client_peer \<Rightarrow> bool" where
  "peer_ok p \<longleftrightarrow> length (cp_vectors p) = IVSHMEM_CLIENT_MAX_VECTORS \<and> unat (cp_vectors_count p) \<le> IVSHMEM_CLIENT_MAX_VECTORS"

definition client_inv :: "ivshmem_client \<Rightarrow> bool" where
  "client_inv c \<longleftrightarrow> peer_ok (c_local c) \<and> (\<forall>p \<in> set (c_peer_list c). peer_ok p) \<and>
     distinct (map cp_id (c_peer_list c)) \<and> cp_id (c_local c) \<notin> cp_id ` set (c_peer_list c)"

text \<open>A message that is there is received whole, with its descriptor.\<close>

definition recv_ok :: "client_env \<Rightarrow> bool" where
  "recv_ok E \<longleftrightarrow> (\<forall>sock os i fd rest. inbox os = (i, fd) # rest \<longrightarrow>
     recvmsg E sock os = (8, i, if fd < 0 then [] else [fd],
       os\<lparr>inbox := rest, open_fds := if fd < 0 then open_fds os else insert fd (open_fds os)\<rparr>))"

lemma read_one_msg_run:
  assumes "recv_ok E" and "inbox os = (i, fd) # rest"
  shows "ivshmem_client_read_one_msg E c os = Some (Inr (i, if fd < 0 then - 1 else fd),
    os\<lparr>inbox := rest, open_fds := if fd < 0 then open_fds os else insert fd (open_fds os)\<rparr>)"
  using assms by (simp add: ivshmem_client_read_one_msg_def recv_ok_def to_u64_def)

lemma index_of_peer_None: "index_of_peer i ps = None \<longleftrightarrow> i \<notin> cp_id ` set ps"
  by (induction ps) auto

lemma index_of_peer_Some:
  "index_of_peer i ps = Some k \<Longrightarrow> k < length ps \<and> cp_id (ps ! k) = i"
  by (induction ps arbitrary: k) (auto split: if_splits)

lemma close_fds_simps [simp]: "inbox (close_fds fs os) = inbox os" "open_fds (close_fds fs os) = open_fds os - set fs"
  by (induction fs arbitrary: os) auto

lemma fst_peer_view [simp]: "fst (peer_view p) = cp_id p"
  by (simp add: peer_view_def)

lemma peer_view_add:
  assumes "peer_ok p" and "\<not> IVSHMEM_CLIENT_MAX_VECTORS \<le> unat (cp_vectors_count p)"
    and q: "q = p\<lparr>cp_vectors := (cp_vectors p)[unat (cp_vectors_count p) := fd], cp_vectors_count := cp_vectors_count p + 1\<rparr>"
  shows "peer_view q = (cp_id p, snd (peer_view p) @ [fd])" and "peer_ok q"
proof -
  have "unat (cp_vectors_count p + 1) = unat (cp_vectors_count p) + 1"
    using assms(2) by (simp add: IVSHMEM_CLIENT_MAX_VECTORS_def unat_word_ariths)
  then show "peer_view q = (cp_id p, snd (peer_view p) @ [fd])" "peer_ok q"
    using assms(1,2) by (simp_all add: q peer_view_def peer_ok_def take_Suc_conv_app_nth)
qed

lemma index_of_peer_view:
  "index_of_peer i ps = Some k \<Longrightarrow> map_of (map peer_view ps) i = Some (snd (peer_view (ps ! k)))"
  by (induction ps arbitrary: k) (auto simp: peer_view_def split: if_splits)

lemma index_of_peer_remove:
  "distinct (map cp_id ps) \<Longrightarrow> index_of_peer i ps = Some k \<Longrightarrow>
    map peer_view (take k ps @ drop (Suc k) ps) = filter (\<lambda>p. fst p \<noteq> i) (map peer_view ps)"
proof (induction ps arbitrary: k)
  case (Cons p ps)
  show ?case
  proof (cases "cp_id p = i")
    case True
    then have "filter (\<lambda>p. fst p \<noteq> i) (map peer_view ps) = map peer_view ps"
      using Cons.prems(1) by (intro filter_True) (auto, metis imageI)
    then show ?thesis using True Cons.prems(2) by simp
  next
    case False
    then show ?thesis using Cons by auto
  qed
qed simp

lemma index_of_peer_update:
  "distinct (map cp_id ps) \<Longrightarrow> index_of_peer i ps = Some k \<Longrightarrow> peer_view q = (i, snd (peer_view (ps ! k)) @ [fd]) \<Longrightarrow>
    map peer_view (ps[k := q]) = map (\<lambda>(j, fs). if j = i then (j, fs @ [fd]) else (j, fs)) (map peer_view ps)"
proof (induction ps arbitrary: k)
  case (Cons p ps)
  show ?case
  proof (cases "cp_id p = i")
    case True
    then have "map (\<lambda>(j, fs). if j = i then (j, fs @ [fd]) else (j, fs)) (map peer_view ps) = map peer_view ps"
      using Cons.prems(1) by (intro map_idI) (auto simp: peer_view_def, metis imageI)
    then show ?thesis using True Cons.prems(2,3) by (simp add: peer_view_def)
  next
    case False
    then show ?thesis using Cons by (auto simp: peer_view_def)
  qed
qed simp

lemma search_peer_cases:
  assumes "client_inv c"
  obtains (own) "ivshmem_client_search_peer c i = Some Local" "i = own_id (abs_client c)"
      "fds_of (abs_client c) i = snd (peer_view (c_local c))"
    | (listed) k where "ivshmem_client_search_peer c i = Some (Listed k)" "index_of_peer i (c_peer_list c) = Some k"
      "i \<noteq> own_id (abs_client c)" "i \<in> fst ` set (peers (abs_client c))"
      "fds_of (abs_client c) i = snd (peer_view (c_peer_list c ! k))"
    | (new) "ivshmem_client_search_peer c i = None" "i \<noteq> own_id (abs_client c)" "i \<notin> fst ` set (peers (abs_client c))"
      "fds_of (abs_client c) i = []" "i \<notin> cp_id ` set (c_peer_list c)"
proof (cases "i = cp_id (c_local c)")
  case True
  then show ?thesis by (intro own) (simp_all add: ivshmem_client_search_peer_def abs_client_def fds_of_def)
next
  case False
  show ?thesis
  proof (cases "index_of_peer i (c_peer_list c)")
    case None
    moreover from this have "map_of (map peer_view (c_peer_list c)) i = None"
      by (auto simp: index_of_peer_None map_of_eq_None_iff image_image)
    ultimately show ?thesis using False index_of_peer_None [of i "c_peer_list c"]
      by (intro new) (simp_all add: ivshmem_client_search_peer_def abs_client_def fds_of_def image_image)
  next
    case (Some k)
    then show ?thesis using False index_of_peer_Some [OF Some] index_of_peer_view [OF Some]
      by (intro listed [of k]) (auto simp: ivshmem_client_search_peer_def abs_client_def fds_of_def image_image)
  qed
qed

lemma snd_peer_view_length: "peer_ok p \<Longrightarrow> length (snd (peer_view p)) = unat (cp_vectors_count p)"
  by (simp add: peer_view_def peer_ok_def)

lemma free_peer_refines:
  assumes inv: "client_inv c" and k: "index_of_peer i (c_peer_list c) = Some k"
  shows "\<exists>c' os'. ivshmem_client_free_peer k c os = (c', os') \<and> inbox os' = inbox os \<and> client_inv c' \<and>
    abs_client c' = (abs_client c)\<lparr>peers := filter (\<lambda>p. fst p \<noteq> i) (peers (abs_client c))\<rparr>"
proof -
  let ?ps = "take k (c_peer_list c) @ drop (Suc k) (c_peer_list c)"
  have d: "distinct (map cp_id (c_peer_list c))" using inv by (simp add: client_inv_def)
  have sub: "set ?ps \<subseteq> set (c_peer_list c)" using set_take_subset set_drop_subset by (metis le_sup_iff set_append)
  have "map cp_id ?ps = map fst (map peer_view ?ps)" by simp
  then have "map cp_id ?ps = map fst (filter (\<lambda>p. fst p \<noteq> i) (map peer_view (c_peer_list c)))"
    unfolding index_of_peer_remove [OF d k] .
  then have "distinct (map cp_id ?ps)" using d by (simp add: distinct_map_filter comp_def)
  then have "client_inv (c\<lparr>c_peer_list := ?ps\<rparr>)" using inv sub by (auto simp: client_inv_def)
  then show ?thesis using index_of_peer_remove [OF d k] by (simp add: ivshmem_client_free_peer_def Let_def abs_client_def)
qed

text \<open>One more eventfd for the client itself, for a peer that is listed, and for a new one.\<close>

definition with_fd :: "client_peer \<Rightarrow> int \<Rightarrow> client_peer" where
  "with_fd p fd = p\<lparr>cp_vectors := (cp_vectors p)[unat (cp_vectors_count p) := fd], cp_vectors_count := cp_vectors_count p + 1\<rparr>"

lemma own_fd_refines:
  assumes inv: "client_inv c" and room: "\<not> IVSHMEM_CLIENT_MAX_VECTORS \<le> unat (cp_vectors_count (c_local c))"
  shows "client_inv (c\<lparr>c_local := with_fd (c_local c) fd\<rparr>)"
    and "abs_client (c\<lparr>c_local := with_fd (c_local c) fd\<rparr>) = (abs_client c)\<lparr>own_fds := own_fds (abs_client c) @ [fd]\<rparr>"
proof -
  have "peer_ok (c_local c)" using inv by (simp add: client_inv_def)
  note v = peer_view_add [OF this room with_fd_def [of "c_local c" fd]]
  moreover have "cp_id (with_fd (c_local c) fd) = cp_id (c_local c)" by (simp add: with_fd_def)
  ultimately show "client_inv (c\<lparr>c_local := with_fd (c_local c) fd\<rparr>)"
    "abs_client (c\<lparr>c_local := with_fd (c_local c) fd\<rparr>) = (abs_client c)\<lparr>own_fds := own_fds (abs_client c) @ [fd]\<rparr>"
    using inv by (simp_all add: client_inv_def abs_client_def)
qed

lemma listed_fd_refines:
  assumes inv: "client_inv c" and k: "index_of_peer i (c_peer_list c) = Some k"
    and room: "\<not> IVSHMEM_CLIENT_MAX_VECTORS \<le> unat (cp_vectors_count (c_peer_list c ! k))"
    and c': "c' = c\<lparr>c_peer_list := (c_peer_list c)[k := with_fd (c_peer_list c ! k) fd]\<rparr>"
  shows "client_inv c'" and "abs_client c' = (abs_client c)\<lparr>peers := add_peer_fd i fd (peers (abs_client c))\<rparr>"
proof -
  let ?p = "c_peer_list c ! k"
  let ?ps = "(c_peer_list c)[k := with_fd ?p fd]"
  have ok: "\<And>p. p \<in> set (c_peer_list c) \<Longrightarrow> peer_ok p" "distinct (map cp_id (c_peer_list c))" using inv by (simp_all add: client_inv_def)
  have ki: "k < length (c_peer_list c)" "cp_id ?p = i" using index_of_peer_Some [OF k] by simp_all
  then have "peer_ok ?p" using ok(1) by simp
  note v = peer_view_add [OF this room with_fd_def [of ?p fd], unfolded ki(2)]
  have "map cp_id ?ps = map cp_id (c_peer_list c)" using ki by (simp add: map_update list_update_same_conv with_fd_def)
  moreover from this have "cp_id ` set ?ps = cp_id ` set (c_peer_list c)" by (metis set_map)
  moreover have "\<forall>p \<in> set ?ps. peer_ok p" using ok(1) v(2) set_update_subset_insert [of "c_peer_list c" k "with_fd ?p fd"] by auto
  ultimately show "client_inv c'" using inv by (simp add: client_inv_def c')
  have "i \<in> fst ` set (map peer_view (c_peer_list c))" using ki by (auto simp: image_image intro!: image_eqI [of _ _ ?p])
  then show "abs_client c' = (abs_client c)\<lparr>peers := add_peer_fd i fd (peers (abs_client c))\<rparr>"
    using index_of_peer_update [OF ok(2) k v(1)] by (simp add: abs_client_def add_peer_fd_def c')
qed

lemma new_fd_refines:
  assumes inv: "client_inv c" and new: "i \<noteq> own_id (abs_client c)" "i \<notin> fst ` set (peers (abs_client c))"
    and c': "c' = c\<lparr>c_peer_list := c_peer_list c @ [with_fd (new_client_peer i) fd]\<rparr>"
  shows "client_inv c'" and "abs_client c' = (abs_client c)\<lparr>peers := add_peer_fd i fd (peers (abs_client c))\<rparr>"
proof -
  let ?p = "new_client_peer i"
  have "peer_ok ?p" "\<not> IVSHMEM_CLIENT_MAX_VECTORS \<le> unat (cp_vectors_count ?p)"
    by (simp_all add: peer_ok_def new_client_peer_def IVSHMEM_CLIENT_MAX_VECTORS_def)
  from peer_view_add [OF this with_fd_def [of ?p fd]]
  have v: "peer_view (with_fd ?p fd) = (i, [fd])" "peer_ok (with_fd ?p fd)" by (simp_all add: new_client_peer_def peer_view_def)
  have "cp_id (with_fd ?p fd) = i" by (simp add: new_client_peer_def with_fd_def)
  then show "client_inv c'" using inv v(2) new by (auto simp: client_inv_def abs_client_def c' image_image)
  show "abs_client c' = (abs_client c)\<lparr>peers := add_peer_fd i fd (peers (abs_client c))\<rparr>"
    using new(2) v(1) by (simp add: abs_client_def add_peer_fd_def c')
qed

text \<open>Every message of the server does to the client what it does to the abstract client.\<close>

lemma fd_msg_step:
  assumes inv: "client_inv c" and rd: "ivshmem_client_read_one_msg E c os = Some (Inr (i, fd), os1)" and fd: "0 \<le> fd"
  shows "\<exists>r c'. ivshmem_client_handle_server_msg E c os = Some (r, c', os1) \<and> client_inv c' \<and>
    (case view_msg (i, fd) (abs_client c) of Some v \<Rightarrow> r = 0 \<and> abs_client c' = v | None \<Rightarrow> r = - 1 \<and> c' = c)"
  using inv
proof (cases rule: search_peer_cases [where i = i])
  case own
  have len: "length (fds_of (abs_client c) i) = unat (cp_vectors_count (c_local c))"
    using own(3) snd_peer_view_length inv by (simp add: client_inv_def)
  show ?thesis
  proof (cases "IVSHMEM_CLIENT_MAX_VECTORS \<le> unat (cp_vectors_count (c_local c))")
    case full: True
    then show ?thesis using rd fd len own inv by (simp add: ivshmem_client_handle_server_msg_def Let_def get_peer_def)
  next
    case room: False
    then show ?thesis using rd fd len own own_fd_refines [OF inv room, of fd]
      by (simp add: ivshmem_client_handle_server_msg_def Let_def get_peer_def put_peer_def with_fd_def)
  qed
next
  case (listed k)
  have "peer_ok (c_peer_list c ! k)" using index_of_peer_Some [OF listed(2)] inv by (simp add: client_inv_def)
  then have len: "length (fds_of (abs_client c) i) = unat (cp_vectors_count (c_peer_list c ! k))" using listed(5) snd_peer_view_length by simp
  show ?thesis
  proof (cases "IVSHMEM_CLIENT_MAX_VECTORS \<le> unat (cp_vectors_count (c_peer_list c ! k))")
    case full: True
    then show ?thesis using rd fd len listed inv by (simp add: ivshmem_client_handle_server_msg_def Let_def get_peer_def)
  next
    case room: False
    then show ?thesis using rd fd len listed listed_fd_refines [OF inv listed(2) room refl, of fd]
      by (simp add: ivshmem_client_handle_server_msg_def Let_def get_peer_def put_peer_def with_fd_def)
  qed
next
  case new
  then show ?thesis using rd fd new_fd_refines [OF inv new(2,3) refl, of fd]
    by (simp add: ivshmem_client_handle_server_msg_def Let_def get_peer_def put_peer_def with_fd_def new_client_peer_def IVSHMEM_CLIENT_MAX_VECTORS_def)
qed

lemma handle_msg_step:
  assumes inv: "client_inv c" and rd: "ivshmem_client_read_one_msg E c os = Some (Inr (i, if fd < 0 then - 1 else fd), os1)"
  shows "\<exists>r c' os'. ivshmem_client_handle_server_msg E c os = Some (r, c', os') \<and> inbox os' = inbox os1 \<and> client_inv c' \<and>
    (case view_msg (i, fd) (abs_client c) of
       Some v \<Rightarrow> r = 0 \<and> abs_client c' = v
     | None \<Rightarrow> r = - 1 \<and> c' = c)"
proof (cases "fd < 0")
  case True
  show ?thesis using inv
  proof (cases rule: search_peer_cases [where i = i])
    case (listed k)
    obtain c' os' where "ivshmem_client_free_peer k c os1 = (c', os')" "inbox os' = inbox os1" "client_inv c'"
      "abs_client c' = (abs_client c)\<lparr>peers := filter (\<lambda>p. fst p \<noteq> i) (peers (abs_client c))\<rparr>"
      using free_peer_refines [OF inv listed(2), of os1] by auto
    then show ?thesis using True rd listed by (simp add: ivshmem_client_handle_server_msg_def)
  qed (use True rd inv in \<open>simp_all add: ivshmem_client_handle_server_msg_def\<close>)
next
  case False
  then show ?thesis using fd_msg_step [OF inv, of E os i fd os1] rd by auto
qed

lemma handle_msg_refines:
  assumes inv: "client_inv c" and E: "recv_ok E" and box: "inbox os = (i, fd) # rest"
  shows "\<exists>r c' os'. ivshmem_client_handle_server_msg E c os = Some (r, c', os') \<and> inbox os' = rest \<and> client_inv c' \<and>
    (case view_msg (i, fd) (abs_client c) of
       Some v \<Rightarrow> r = 0 \<and> abs_client c' = v
     | None \<Rightarrow> r = - 1 \<and> c' = c)"
  using handle_msg_step [OF inv read_one_msg_run [OF E box]] by simp

text \<open>Whatever arrives, the data of the client stays well formed, as long as descriptors are not negative.\<close>

definition recv_fds_ok :: "client_env \<Rightarrow> bool" where
  "recv_fds_ok E \<longleftrightarrow> (\<forall>sock os. \<forall>fd \<in> set (fst (snd (snd (recvmsg E sock os)))). 0 \<le> fd)"

lemma handle_msg_inv:
  assumes inv: "client_inv c" and E: "recv_fds_ok E" and run: "ivshmem_client_handle_server_msg E c os = Some (r, c', os')"
  shows "client_inv c'"
proof -
  obtain x os1 where rd: "ivshmem_client_read_one_msg E c os = Some (x, os1)" using run
    by (cases "ivshmem_client_read_one_msg E c os") (auto simp: ivshmem_client_handle_server_msg_def)
  show ?thesis
  proof (cases x)
    case (Inl e)
    then show ?thesis using run rd inv by (simp add: ivshmem_client_handle_server_msg_def)
  next
    case (Inr m)
    obtain i fd where m: "m = (i, fd)" by (metis surj_pair)
    obtain ret i' fds os'' where rv: "recvmsg E (c_sock_fd c) os = (ret, i', fds, os'')" by (metis surj_pair)
    have "fds \<noteq> [] \<Longrightarrow> 0 \<le> last fds" using E rv by (metis fst_conv last_in_set recv_fds_ok_def snd_conv)
    then have "fd = - 1 \<or> 0 \<le> fd" using rd Inr m rv by (auto simp: ivshmem_client_read_one_msg_def split: if_splits)
    then have "ivshmem_client_read_one_msg E c os = Some (Inr (i, if fd < 0 then - 1 else fd), os1)" using rd Inr m by auto
    from handle_msg_step [OF inv this] run show ?thesis by auto
  qed
qed

lemma handle_fds_inv:
  assumes "client_inv c" and "recv_fds_ok E" and "ivshmem_client_handle_fds E fds maxfd c os = Some (r, c', os')"
  shows "client_inv c'"
  using assms(1,3) handle_msg_inv [OF assms(1,2)]
  by (auto simp: ivshmem_client_handle_fds_def split: bind_splits if_splits prod.splits)

section \<open>The greeting\<close>

text \<open>
  A client that is not connected: what \<open>ivshmem_client_init\<close> and \<open>ivshmem_client_close\<close> leave.
\<close>

definition unconnected :: "ivshmem_client \<Rightarrow> bool" where
  "unconnected c \<longleftrightarrow> c_peer_list c = [] \<and> cp_vectors_count (c_local c) = 0 \<and>
     length (cp_vectors (c_local c)) = IVSHMEM_CLIENT_MAX_VECTORS"

text \<open>The three messages are accepted exactly if they are what the protocol says.\<close>

lemma greeting_result:
  assumes E: "recv_ok E" and box: "inbox os = (ver, f1) # (i, f2) # (m, f3) # rest"
  shows "\<exists>r c' os'. client_greeting E c os = Some (r, c', os') \<and>
    (if ver = IVSHMEM_PROTOCOL_VERSION \<and> f1 < 0 \<and> 0 \<le> i \<and> f2 < 0 \<and> m = - 1 \<and> 0 \<le> f3
     then r = 0 \<and> c' = c\<lparr>c_local := (c_local c)\<lparr>cp_id := i\<rparr>, c_shm_fd := f3\<rparr> \<and> inbox os' = rest \<and>
       open_fds os' = insert f3 (open_fds os)
     else r = - 1 \<and> c_sock_fd c' = - 1 \<and> c_sock_fd c \<notin> open_fds os')"
proof -
  define n1 where "n1 = (if f1 < 0 then open_fds os else insert f1 (open_fds os))"
  define n2 where "n2 = (if f2 < 0 then n1 else insert f2 n1)"
  let ?os1 = "os\<lparr>inbox := (i, f2) # (m, f3) # rest, open_fds := n1\<rparr>"
  let ?os2 = "os\<lparr>inbox := (m, f3) # rest, open_fds := n2\<rparr>"
  let ?os3 = "os\<lparr>inbox := rest, open_fds := if f3 < 0 then n2 else insert f3 n2\<rparr>"
  let ?g = "\<lambda>f :: int. if f < 0 then - 1 else f"
  have r: "ivshmem_client_read_one_msg E d os = Some (Inr (ver, ?g f1), ?os1)"
    "ivshmem_client_read_one_msg E d ?os1 = Some (Inr (i, ?g f2), ?os2)"
    "ivshmem_client_read_one_msg E d ?os2 = Some (Inr (m, ?g f3), ?os3)" for d
    using read_one_msg_run [OF E] box by (simp_all add: n1_def n2_def)
  consider "ver \<noteq> IVSHMEM_PROTOCOL_VERSION \<or> \<not> f1 < 0" | "ver = IVSHMEM_PROTOCOL_VERSION" "f1 < 0" "i < 0 \<or> \<not> f2 < 0"
    | "ver = IVSHMEM_PROTOCOL_VERSION" "f1 < 0" "0 \<le> i" "f2 < 0" "m \<noteq> - 1 \<or> f3 < 0"
    | "ver = IVSHMEM_PROTOCOL_VERSION" "f1 < 0" "0 \<le> i" "f2 < 0" "m = - 1" "0 \<le> f3" by fastforce
  then show ?thesis
    by cases (use r n1_def n2_def in \<open>auto simp: client_greeting_def client_err_close_def\<close>)
qed

lemma greeting_view:
  assumes "unconnected c"
  shows "client_inv (c\<lparr>c_local := (c_local c)\<lparr>cp_id := i\<rparr>, c_shm_fd := f\<rparr>)"
    and "abs_client (c\<lparr>c_local := (c_local c)\<lparr>cp_id := i\<rparr>, c_shm_fd := f\<rparr>) = \<lparr>own_id = i, own_fds = [], peers = []\<rparr>"
  using assms by (simp_all add: unconnected_def client_inv_def abs_client_def peer_view_def peer_ok_def IVSHMEM_CLIENT_MAX_VECTORS_def)

text \<open>Connecting adds no peers and no vectors; those come with later messages.\<close>

lemma greeting_shape:
  assumes "client_greeting E c os = Some (r, c', os')"
  shows "c_peer_list c' = c_peer_list c \<and> cp_vectors (c_local c') = cp_vectors (c_local c) \<and>
      cp_vectors_count (c_local c') = cp_vectors_count (c_local c)"
  using assms unfolding client_greeting_def client_err_close_def Let_def
  by (auto split: bind_splits sum.splits prod.splits if_splits)

lemma unconnected_inv: "unconnected c \<Longrightarrow> client_inv c"
  by (simp add: unconnected_def client_inv_def peer_ok_def)

lemma connect_result:
  assumes "ivshmem_client_connect E c os = Some (r, c', os')" and "unconnected c"
  shows "unconnected c'"
  using assms unfolding unconnected_def
  by (auto simp: ivshmem_client_connect_def client_err_close_def Let_def split: if_splits bind_splits prod.splits dest: greeting_shape)

text \<open>Closing closes every descriptor the client holds, and it can connect again.\<close>

lemma free_all_peers_result:
  "\<exists>os'. free_all_peers (length (c_peer_list c)) c os = (c\<lparr>c_peer_list := []\<rparr>, os') \<and>
    open_fds os' = open_fds os - (\<Union>p \<in> set (c_peer_list c). set (snd (peer_view p)))"
proof (induction "c_peer_list c" arbitrary: c os)
  case Nil
  then have "c\<lparr>c_peer_list := []\<rparr> = c" by simp
  then show ?case using Nil by simp
next
  case (Cons p ps)
  let ?c = "c\<lparr>c_peer_list := ps\<rparr>" and ?os = "close_fds (snd (peer_view p)) os"
  have f: "ivshmem_client_free_peer 0 c os = (?c, ?os)" using Cons(2) [symmetric]
    by (simp add: ivshmem_client_free_peer_def peer_view_def)
  have "ps = c_peer_list ?c" by simp
  from Cons(1) [OF this, of ?os] obtain os' where "free_all_peers (length ps) ?c ?os = (?c\<lparr>c_peer_list := []\<rparr>, os')"
    "open_fds os' = open_fds ?os - (\<Union>p \<in> set ps. set (snd (peer_view p)))" by auto
  then show ?case using f Cons(2) [symmetric] by auto
qed

lemma client_close_result:
  assumes "ivshmem_client_close c os = (c', os')"
  shows "unconnected c' \<and> c_sock_fd c' = - 1 \<and> c_shm_fd c' = - 1 \<and>
    open_fds os' = open_fds os - ({c_sock_fd c, c_shm_fd c} \<union> set (cp_vectors (c_local c)) \<union>
      (\<Union>p \<in> set (c_peer_list c). set (snd (peer_view p))))"
  using assms free_all_peers_result [of c os]
  by (auto simp: ivshmem_client_close_def Let_def unconnected_def)

section \<open>Notifications\<close>

text \<open>Writing to an eventfd succeeds and is recorded.\<close>

definition kick_ok :: "client_env \<Rightarrow> bool" where
  "kick_ok E \<longleftrightarrow> (\<forall>fd os. write_kick E fd os = (8, os\<lparr>kicks := kicks os @ [fd]\<rparr>))"

lemma notify_run:
  assumes "kick_ok E" and "peer_ok p"
  shows "ivshmem_client_notify E p vec os =
    (if unat vec < length (snd (peer_view p)) then (0, os\<lparr>kicks := kicks os @ [snd (peer_view p) ! unat vec]\<rparr>) else (- 1, os))"
proof -
  have "\<not> cp_vectors_count p \<le> vec \<longleftrightarrow> unat vec < unat (cp_vectors_count p)" by (simp add: word_le_nat_alt not_le)
  then show ?thesis using assms snd_peer_view_length [OF assms(2)] by (auto simp: ivshmem_client_notify_def kick_ok_def peer_view_def)
qed

lemma notify_loop_run:
  assumes E: "kick_ok E" and p: "peer_ok p" and n: "unat (cp_vectors_count p) = n"
  shows "k \<le> n \<Longrightarrow> notify_loop E p [k..<n] ret os = (ret, os\<lparr>kicks := kicks os @ drop k (snd (peer_view p))\<rparr>)"
proof (induction "n - k" arbitrary: k os)
  case 0
  then show ?case using snd_peer_view_length [OF p] n by simp
next
  case (Suc d)
  have len: "length (snd (peer_view p)) = n" using snd_peer_view_length [OF p] n by simp
  have k: "k < n" using Suc.hyps(2) by simp
  have "n \<le> 64" using p n by (simp add: peer_ok_def IVSHMEM_CLIENT_MAX_VECTORS_def)
  then have u: "unat (of_nat k :: u32) = k" using k by (simp add: unat_of_nat)
  have "drop k (snd (peer_view p)) = snd (peer_view p) ! k # drop (Suc k) (snd (peer_view p))" using k len by (simp add: Cons_nth_drop_Suc)
  then show ?case using Suc.hyps(1) [of "Suc k"] Suc.hyps(2) k len u
    by (simp add: upt_conv_Cons notify_run [OF E p])
qed

text \<open>A broadcast reaches every vector of every peer once, in order.\<close>

lemma broadcast_loop_run:
  assumes E: "kick_ok E"
  shows "(\<And>p. p \<in> set ps \<Longrightarrow> peer_ok p) \<Longrightarrow>
    broadcast_loop E ps ret os = (ret, os\<lparr>kicks := kicks os @ concat (map (snd \<circ> peer_view) ps)\<rparr>)"
proof (induction ps arbitrary: os)
  case (Cons p ps)
  have "ivshmem_client_notify_all_vects E p os = (0, os\<lparr>kicks := kicks os @ snd (peer_view p)\<rparr>)"
    using notify_loop_run [OF E _ refl, of p 0] Cons.prems by (simp add: ivshmem_client_notify_all_vects_def)
  then show ?case using Cons by simp
qed simp

section \<open>Events\<close>

text \<open>Reading a ready eventfd succeeds.\<close>

definition read_ok :: "client_env \<Rightarrow> bool" where
  "read_ok E \<longleftrightarrow> (\<forall>fd os. fst (read_kick E fd os) = 8 \<and> snd (read_kick E fd os) = os)"

text \<open>The callback is called for the ready vectors, in order.\<close>

lemma event_loop_run:
  assumes E: "read_ok E" and f: "notif_cb E = Some f"
  shows "event_loop E c cur maxfd i fds os =
    (0, fold (f c) (map fst (filter (\<lambda>x. snd x < maxfd \<and> snd x \<in> cur) (zip [i..<i + length fds] fds))) os)"
proof (induction fds arbitrary: i os)
  case (Cons fd fds)
  have "read_kick E fd os = (8, os)" using E by (metis prod.collapse read_ok_def)
  then show ?case using Cons.IH [of "Suc i"] f by (simp add: upt_conv_Cons del: upt_Suc)
qed simp

lemma zip_upt_filter:
  "map fst (filter (\<lambda>x. P (snd x)) (zip [0..<length xs] xs)) = filter (\<lambda>k. P (xs ! k)) [0..<length xs]"
proof -
  have "zip [0..<length xs] xs = map (\<lambda>k. (k, xs ! k)) [0..<length xs]" by (rule nth_equalityI) auto
  then show ?thesis by (simp add: filter_map comp_def)
qed

section \<open>An example client\<close>

text \<open>A system that delivers what is in the inbox; the callback records the vector.\<close>

definition demo_recvmsg :: "int \<Rightarrow> sock_os \<Rightarrow> int \<times> int \<times> int list \<times> sock_os" where
  "demo_recvmsg sock os =
     (case inbox os of
        [] \<Rightarrow> (0, 0, [], os)
      | (i, fd) # rest \<Rightarrow> (8, i, if fd < 0 then [] else [fd],
          os\<lparr>inbox := rest, open_fds := if fd < 0 then open_fds os else insert fd (open_fds os)\<rparr>))"

definition demo_client :: client_env where
  "demo_client = \<lparr>recvmsg = demo_recvmsg, c_socket = (\<lambda>os. (5, os\<lparr>open_fds := insert 5 (open_fds os)\<rparr>)), c_connect = (\<lambda>fd path os. (0, os)),
     read_kick = (\<lambda>fd os. (8, os)), write_kick = (\<lambda>fd os. (8, os\<lparr>kicks := kicks os @ [fd]\<rparr>)),
     notif_cb = Some (\<lambda>c k os. os\<lparr>kicks := kicks os @ [int k]\<rparr>)\<rparr>"

definition demo_client_state :: ivshmem_client where
  "demo_client_state = \<lparr>c_unix_sock_path = [], c_sock_fd = 5, c_shm_fd = 6, c_peer_list = [],
     c_local = \<lparr>cp_id = 3, cp_vectors = [7, 8] @ replicate 62 0, cp_vectors_count = 2\<rparr>, c_verbose = False\<rparr>"

definition demo_client_os :: "(int \<times> int) list \<Rightarrow> sock_os" where
  "demo_client_os ms = \<lparr>open_fds = {0, 1, 2, 5, 6, 7, 8}, wire = [], inbox = ms, kicks = [], errno = 0\<rparr>"

lemma demo_client_ok: "recv_ok demo_client" "recv_fds_ok demo_client" "kick_ok demo_client" "read_ok demo_client"
  by (auto simp: recv_ok_def recv_fds_ok_def kick_ok_def read_ok_def demo_client_def demo_recvmsg_def split: list.splits)

lemma demo_client_state_inv: "client_inv demo_client_state"
  by (simp add: demo_client_state_def client_inv_def peer_ok_def IVSHMEM_CLIENT_MAX_VECTORS_def)

section \<open>Claims\<close>

text \<open>
  C35. \<open>ivshmem_client_handle_server_msg\<close> implements the abstract client: on a message
  \<open>view_msg\<close> accepts it returns 0 and its data represents the new view, with an eventfd added
  to the peer it belongs to, a new peer entered or a peer removed; on one \<open>view_msg\<close> rejects
  (an unknown or the own id leaving, or more than 64 vectors) it returns -1 and its data is
  unchanged; a descriptor that came with the message stays open, recorded nowhere. It consumes exactly that message and keeps the data well formed.
\<close>

theorem server_messages_refine_view:
  assumes "client_inv c" and "recv_ok E" and "inbox os = (i, fd) # rest"
  shows "\<exists>r c' os'. ivshmem_client_handle_server_msg E c os = Some (r, c', os') \<and> inbox os' = rest \<and> client_inv c' \<and>
    (case view_msg (i, fd) (abs_client c) of
       Some v \<Rightarrow> r = 0 \<and> abs_client c' = v
     | None \<Rightarrow> r = - 1 \<and> c' = c)"
  using handle_msg_refines [OF assms] .

theorem server_messages_refine_view_witness:
  "\<exists>r c' os'. ivshmem_client_handle_server_msg demo_client demo_client_state (demo_client_os [(4, 9)]) = Some (r, c', os') \<and>
     r = 0 \<and> abs_client c' = \<lparr>own_id = 3, own_fds = [7, 8], peers = [(4, [9])]\<rparr>"
proof -
  have box: "inbox (demo_client_os [(4, 9)]) = [(4, 9)]" by (simp add: demo_client_os_def)
  have "abs_client demo_client_state = \<lparr>own_id = 3, own_fds = [7, 8], peers = []\<rparr>"
    by (simp add: abs_client_def demo_client_state_def peer_view_def)
  then have "view_msg (4, 9) (abs_client demo_client_state) = Some \<lparr>own_id = 3, own_fds = [7, 8], peers = [(4, [9])]\<rparr>"
    by (simp add: fds_of_def add_peer_fd_def IVSHMEM_CLIENT_MAX_VECTORS_def)
  then show ?thesis using server_messages_refine_view [OF demo_client_state_inv demo_client_ok(1) box] by auto
qed

text \<open>
  C40. When eventfds are ready, reading them succeeds and a callback is set, the loop of \<open>ivshmem_client_handle_event\<close> does what calling
  the callback for the ready vectors, each once and in the order of their numbers, does.
\<close>

theorem events_reach_callback:
  assumes "read_ok E" and "notif_cb E = Some f" and "fds = own_fds (abs_client c)"
  shows "ivshmem_client_handle_event E c cur maxfd os =
    (0, fold (f c) (filter (\<lambda>k. fds ! k < maxfd \<and> fds ! k \<in> cur) [0..<length fds]) os)"
  using event_loop_run [OF assms(1,2), of c cur maxfd 0 fds os] zip_upt_filter [of "\<lambda>fd. fd < maxfd \<and> fd \<in> cur" fds] assms(3)
  by (simp add: ivshmem_client_handle_event_def abs_client_def peer_view_def del: upt_Suc)

theorem events_reach_callback_witness:
  "ivshmem_client_handle_event demo_client demo_client_state {8} 9 (demo_client_os []) = (0, (demo_client_os [])\<lparr>kicks := [1]\<rparr>)"
proof -
  have cb: "notif_cb demo_client = Some (\<lambda>c k os. os\<lparr>kicks := kicks os @ [int k]\<rparr>)" by (simp add: demo_client_def)
  have fds: "[7, 8] = own_fds (abs_client demo_client_state)" by (simp add: abs_client_def demo_client_state_def peer_view_def)
  have "filter (\<lambda>k. [7, 8 :: int] ! k < 9 \<and> [7, 8 :: int] ! k \<in> {8}) [0..<length [7, 8 :: int]] = [1]" by (simp add: upt_rec)
  then show ?thesis using events_reach_callback [OF demo_client_ok(4) cb fds, of "{8}" 9 "demo_client_os []"]
    by (simp add: demo_client_os_def)
qed

end
