(* ===== verification/Ivshmem_Client_Main.thy ===== *)
theory Ivshmem_Client_Main
  imports Ivshmem_Client
begin

text \<open>
  \<open>docs/ivshmem-client/main.c\<close>: the options, the commands a user types, the main loop and
  \<open>main\<close>. \<open>client_main_env\<close> is what \<open>main\<close> gets from outside: \<open>read\<close> of the standard input,
  \<open>select\<close>, \<open>sleep\<close>, and whether SIGPIPE could be ignored. What is printed is in \<open>Ivshmem_Print\<close>.
\<close>

record client_main_env =
  read_stdin :: "sock_os \<Rightarrow> int \<times> string \<times> sock_os"
  c_select :: "int \<Rightarrow> int set \<Rightarrow> sock_os \<Rightarrow> int \<times> int set \<times> sock_os"
  sleep_1 :: "sock_os \<Rightarrow> sock_os"
  c_sigpipe_ignored :: bool

section \<open>The options\<close>

record client_args =
  ca_verbose :: bool
  ca_unix_sock_path :: string

definition default_client_args :: client_args where
  "default_client_args = \<lparr>ca_verbose = False, ca_unix_sock_path = ''/tmp/ivshmem_socket''\<rparr>"

text \<open>The left value is the status \<open>ivshmem_client_usage\<close> exits with.\<close>

fun ivshmem_client_parse_args :: "(char \<times> string) list \<Rightarrow> client_args \<Rightarrow> int + client_args" where
  "ivshmem_client_parse_args [] a = Inr a"
| "ivshmem_client_parse_args ((c, optarg) # rest) a =
     (if c = CHR ''h'' then Inl 0
      else if c = CHR ''v'' then ivshmem_client_parse_args rest (a\<lparr>ca_verbose := True\<rparr>)
      else if c = CHR ''S'' then ivshmem_client_parse_args rest (a\<lparr>ca_unix_sock_path := optarg\<rparr>)
      else Inl 1)"

section \<open>Commands\<close>

text \<open>\<open>strsep(&s, "\n\r;")\<close> until NULL: the tokens, empty ones included.\<close>

fun strsep_tokens :: "string \<Rightarrow> string list" where
  "strsep_tokens [] = [[]]"
| "strsep_tokens (c # cs) =
     (if c \<in> {CHR 0x0A, CHR 0x0D, CHR '';''} then [] # strsep_tokens cs
      else case strsep_tokens cs of [] \<Rightarrow> [[c]] | t # ts \<Rightarrow> (c # t) # ts)"

text \<open>\<open>%d\<close> of the C library, which takes a plus sign, too.\<close>

definition libc_scan_d :: "string \<Rightarrow> (int \<times> string) option" where
  "libc_scan_d s0 =
     (case skip_spaces s0 of
        [] \<Rightarrow> None
      | c # cs \<Rightarrow>
          if c = CHR ''+'' then (case cs of [] \<Rightarrow> None | d # _ \<Rightarrow> if isdigit d then scan_d cs else None)
          else scan_d (c # cs))"

text \<open>
  The numbers \<open>sscanf(token, "int %d %d", ...)\<close> and \<open>sscanf(token, "int %d all", ...)\<close> store.
  The second stores its number before it looks at what follows.
\<close>

definition sscanf_int_d_d :: "string \<Rightarrow> int list" where
  "sscanf_int_d_d token =
     (if take 3 token \<noteq> ''int'' then []
      else case libc_scan_d (drop 3 token) of
        None \<Rightarrow> []
      | Some (i, r) \<Rightarrow> (case libc_scan_d r of None \<Rightarrow> [i] | Some (j, _) \<Rightarrow> [i, j]))"

definition sscanf_int_d_all :: "string \<Rightarrow> int list" where
  "sscanf_int_d_all token = take 1 (sscanf_int_d_d token)"

text \<open>A number that is no \<open>int\<close> makes the behaviour of \<open>sscanf\<close> undefined.\<close>

definition is_int :: "int \<Rightarrow> bool" where
  "is_int i \<longleftrightarrow> - (2 ^ 31) \<le> i \<and> i < 2 ^ 31"

definition client_command :: "client_env \<Rightarrow> ivshmem_client \<Rightarrow> string \<Rightarrow> sock_os \<Rightarrow> sock_os option" where
  "client_command E c token os =
     (if token = [] then Some os
      else if token = ''help'' then Some os
      else if token = ''dump'' then Some os
      else if token = ''int all'' then Some (snd (ivshmem_client_notify_broadcast E c os))
      else if \<not> list_all is_int (sscanf_int_d_d token) then None
      else case sscanf_int_d_d token of
        [peer_id, vec] \<Rightarrow>
          (case ivshmem_client_search_peer c peer_id of
             None \<Rightarrow> Some os
           | Some ref \<Rightarrow> Some (snd (ivshmem_client_notify E (get_peer c ref) (word_of_int vec) os)))
      | _ \<Rightarrow>
          (case sscanf_int_d_all token of
             [peer_id] \<Rightarrow>
               (case ivshmem_client_search_peer c peer_id of
                  None \<Rightarrow> Some os
                | Some ref \<Rightarrow> Some (snd (ivshmem_client_notify_all_vects E (get_peer c ref) os)))
           | _ \<Rightarrow> Some os))"

fun client_commands :: "client_env \<Rightarrow> ivshmem_client \<Rightarrow> string list \<Rightarrow> sock_os \<Rightarrow> sock_os option" where
  "client_commands E c [] os = Some os"
| "client_commands E c (t # ts) os = do { os1 \<leftarrow> client_command E c t os; client_commands E c ts os1 }"

text \<open>The buffer has 128 bytes, all 0, of which \<open>read\<close> may fill 127.\<close>

definition stdin_buffer :: "string \<Rightarrow> bytes" where
  "stdin_buffer input = take 127 input @ replicate (128 - length (take 127 input)) NUL"

definition ivshmem_client_handle_stdin_command ::
  "client_env \<Rightarrow> client_main_env \<Rightarrow> ivshmem_client \<Rightarrow> sock_os \<Rightarrow> (int \<times> sock_os) option" where
  "ivshmem_client_handle_stdin_command E M c os =
     (case read_stdin M os of
        (ret, input, os1) \<Rightarrow>
          if ret < 0 then Some (- 1, os1)
          else do {
            os2 \<leftarrow> client_commands E c (strsep_tokens (cstr (stdin_buffer input))) os1;
            Some (0, os2)
          })"

section \<open>The main loop\<close>

definition client_poll_pass ::
  "client_env \<Rightarrow> client_main_env \<Rightarrow> ivshmem_client \<times> sock_os \<Rightarrow> (bool \<times> int \<times> ivshmem_client \<times> sock_os) option" where
  "client_poll_pass E M st = (case st of (c, os) \<Rightarrow> do {
     fds0 \<leftarrow> FD_SET 0 {};
     (fds, maxfd) \<leftarrow> ivshmem_client_get_fds c (fds0, 1);
     (case c_select M maxfd fds os of
        (ret, fds1, os1) \<Rightarrow>
          if ret < 0 then Some (errno os1 = EINTR, ret, c, os1)
          else if ret = 0 then Some (True, ret, c, os1)
          else do {
            (bad, os2) \<leftarrow>
              (if 0 \<in> fds1
               then do { (ret2, os2) \<leftarrow> ivshmem_client_handle_stdin_command E M c os1; Some (ret2 < 0 \<and> errno os2 \<noteq> EINTR, os2) }
               else Some (False, os1));
            if bad then Some (False, ret, c, os2)
            else do {
              (ret3, c3, os3) \<leftarrow> ivshmem_client_handle_fds E fds1 maxfd c os2;
              Some (\<not> ret3 < 0, ret, c3, os3)
            }
          })
   })"

definition ivshmem_client_poll_events ::
  "client_env \<Rightarrow> client_main_env \<Rightarrow> ivshmem_client \<Rightarrow> sock_os \<Rightarrow> (int \<times> ivshmem_client \<times> sock_os) option" where
  "ivshmem_client_poll_events E M c os = run_loop (\<lambda>_. False) (client_poll_pass E M) 0 (c, os)"

section \<open>The program\<close>

text \<open>One round of the loop of \<open>main\<close>; it always goes on.\<close>

definition client_main_pass ::
  "client_env \<Rightarrow> client_main_env \<Rightarrow> ivshmem_client \<times> sock_os \<Rightarrow> (bool \<times> int \<times> ivshmem_client \<times> sock_os) option" where
  "client_main_pass E M st = (case st of (c, os) \<Rightarrow> do {
     (r, c1, os1) \<leftarrow> ivshmem_client_connect E c os;
     if r < 0 then Some (True, 0, c1, sleep_1 M os1)
     else do {
       (r2, c2, os2) \<leftarrow> ivshmem_client_poll_events E M c1 os1;
       if r2 = 0 then Some (True, 0, c2, os2)
       else case ivshmem_client_close c2 os2 of (c3, os3) \<Rightarrow> Some (True, 0, c3, os3)
     }
   })"

definition ivshmem_client_main :: "client_env \<Rightarrow> client_main_env \<Rightarrow> (char \<times> string) list \<Rightarrow> sock_os \<Rightarrow> (int \<times> sock_os) option" where
  "ivshmem_client_main E M opts os =
     (case ivshmem_client_parse_args opts default_client_args of
        Inl e \<Rightarrow> Some (e, os)
      | Inr a \<Rightarrow>
          if \<not> c_sigpipe_ignored M then Some (1, os)
          else do {
            (r, c) \<leftarrow> ivshmem_client_init (ca_unix_sock_path a) (ca_verbose a);
            if r < 0 then Some (1, os)
            else do {
              (r1, c1, os1) \<leftarrow> run_loop (\<lambda>_. False) (client_main_pass E M) 0 (c, os);
              Some (0, os1)
            }
          })"

section \<open>What a typed command does\<close>

lemma libc_scan_d_printed:
  assumes "stops r"
  shows "libc_scan_d (CHR '' '' # dec_int i @ r) = Some (i, r)"
proof -
  obtain c cs where c: "dec_int i = c # cs" "isdigit c \<or> c = CHR ''-''"
  proof (cases "i < 0")
    case True
    then show ?thesis using that by (simp add: dec_int_def)
  next
    case False
    obtain d ds where "dec_nat (nat i) = d # ds" "isdigit d" by (rule dec_nat_Cons)
    then show ?thesis using that [of d ds] False by (simp add: dec_int_def)
  qed
  then have "\<not> isspace c" "c \<noteq> CHR ''+''" by (auto simp: isdigit_def isspace_def)
  moreover have "isspace (CHR '' '')" by (simp add: isspace_def)
  ultimately show ?thesis using scan_d_dec_int [OF assms, of i] c(1) by (simp add: libc_scan_d_def skip_spaces_def)
qed

definition int_command :: "int \<Rightarrow> int \<Rightarrow> string" where
  "int_command i v = ''int '' @ dec_int i @ CHR '' '' # dec_int v"

lemma sscanf_int_command: "sscanf_int_d_d (int_command i v) = [i, v]"
proof -
  have "stops (CHR '' '' # dec_int v)" by (simp add: isdigit_def)
  then show ?thesis using libc_scan_d_printed [of "CHR '' '' # dec_int v" i] libc_scan_d_printed [of "[]" v]
    by (simp add: sscanf_int_d_d_def int_command_def)
qed

lemma dec_int_char: "c \<in> set (dec_int i) \<Longrightarrow> isdigit c \<or> c = CHR ''-''"
  by (auto simp: dec_int_def dest: dec_nat_digits split: if_splits)

lemma int_command_distinct:
  "int_command i v \<noteq> []" "int_command i v \<noteq> ''?''" "int_command i v \<noteq> ''help''" "int_command i v \<noteq> ''dump''"
  "int_command i v \<noteq> ''int all''"
proof -
  have "sscanf_int_d_d ''int all'' = []" by (simp add: sscanf_int_d_d_def libc_scan_d_def skip_spaces_def isspace_def scan_d_def isdigit_def)
  then show "int_command i v \<noteq> ''int all''" using sscanf_int_command [of i v] by (metis list.distinct(1))
qed (simp_all add: int_command_def)

text \<open>The command notifies the vector, as an unsigned number, of the peer, if there is one.\<close>

lemma client_command_int:
  assumes "is_int i" and "is_int v"
  shows "client_command E c (int_command i v) os =
    (case ivshmem_client_search_peer c i of
       None \<Rightarrow> Some os
     | Some ref \<Rightarrow> Some (snd (ivshmem_client_notify E (get_peer c ref) (word_of_int v) os)))"
  using assms by (simp add: client_command_def sscanf_int_command int_command_distinct)

lemma strsep_tokens_line:
  "(\<And>c. c \<in> set t \<Longrightarrow> c \<notin> {CHR 0x0A, CHR 0x0D, CHR '';''}) \<Longrightarrow> strsep_tokens (t @ CHR 0x0A # r) = t # strsep_tokens r"
  by (induction t) auto

lemma cstr_stdin_buffer:
  assumes "NUL \<notin> set s" and "length s \<le> 127"
  shows "cstr (stdin_buffer s) = s"
proof -
  have "128 - length s = Suc (127 - length s)" using assms(2) by simp
  then have "stdin_buffer s = s @ NUL # replicate (127 - length s) NUL" using assms(2) unfolding stdin_buffer_def
    by (metis replicate_Suc take_all)
  then show ?thesis using assms(1) by simp
qed

lemma stdin_line:
  assumes read: "read_stdin M os = (ret, t @ [CHR 0x0A], os1)" "0 \<le> ret" and len: "length t < 127"
    and t: "\<And>c. c \<in> set t \<Longrightarrow> c \<notin> {CHR 0x0A, CHR 0x0D, CHR '';'', NUL}"
  shows "ivshmem_client_handle_stdin_command E M c os = map_option (\<lambda>os2. (0, os2)) (client_command E c t os1)"
proof -
  have "cstr (stdin_buffer (t @ [CHR 0x0A])) = t @ [CHR 0x0A]" using t len by (intro cstr_stdin_buffer) auto
  moreover have "strsep_tokens (t @ [CHR 0x0A]) = [t, []]" using strsep_tokens_line [of t "[]"] t by simp
  moreover have "client_command E c [] os = Some os" for os by (simp add: client_command_def)
  ultimately show ?thesis using read by (cases "client_command E c t os1") (simp_all add: ivshmem_client_handle_stdin_command_def Let_def)
qed

lemma dec_int_length:
  assumes "is_int i"
  shows "length (dec_int i) \<le> 11"
proof -
  have "sint (word_of_int i :: s32) = i" using assms by (simp add: is_int_def signed_take_bit_int_eq_self sint_sbintrunc')
  then show ?thesis using dec_int_s32_length [of "word_of_int i"] by simp
qed

lemma stdin_int_command:
  assumes "is_int i" and "is_int v" and "read_stdin M os = (ret, int_command i v @ [CHR 0x0A], os1)" and "0 \<le> ret"
  shows "ivshmem_client_handle_stdin_command E M c os =
    (case ivshmem_client_search_peer c i of
       None \<Rightarrow> Some (0, os1)
     | Some ref \<Rightarrow> Some (0, snd (ivshmem_client_notify E (get_peer c ref) (word_of_int v) os1)))"
proof -
  have "length (int_command i v) < 127" using dec_int_length [OF assms(1)] dec_int_length [OF assms(2)] by (simp add: int_command_def)
  moreover have "c \<notin> {CHR 0x0A, CHR 0x0D, CHR '';'', NUL}" if "c \<in> set (int_command i v)" for c
    using that dec_int_char [of c] by (auto simp: int_command_def isdigit_def)
  ultimately show ?thesis using stdin_line [OF assms(3,4)] client_command_int [OF assms(1,2)] by (simp split: option.splits)
qed

section \<open>The client as a program\<close>

text \<open>\<open>main\<close> only returns before it has done anything.\<close>

lemma parse_client_args_status: "ivshmem_client_parse_args opts a = Inl e \<Longrightarrow> e = 0 \<or> e = 1"
  by (induction opts a rule: ivshmem_client_parse_args.induct) (auto split: if_splits)

lemma client_main_pass_goes_on: "client_main_pass E M st = Some (go, r, st') \<Longrightarrow> go"
  by (auto simp: client_main_pass_def split: prod.splits bind_splits if_splits)

lemma client_main_result:
  assumes "ivshmem_client_main E M opts os = Some (r, os')"
  shows "os' = os \<and> (r = 0 \<or> r = 1)"
proof -
  have "run_loop (\<lambda>_. False) (client_main_pass E M) 0 st = None" for st
    by (rule run_loop_forever) (simp, blast dest: client_main_pass_goes_on)
  then show ?thesis using assms by (auto simp: ivshmem_client_main_def split: sum.splits if_splits bind_splits dest: parse_client_args_status)
qed

text \<open>A connected client keeps its data well formed.\<close>

lemma client_poll_pass_inv:
  assumes E: "recv_fds_ok E" and st: "client_inv (fst st)" and run: "client_poll_pass E M st = Some (go, r, st')"
  shows "client_inv (fst st')"
proof -
  obtain c os where s: "st = (c, os)" by (metis surj_pair)
  with st have inv: "client_inv c" by simp
  show ?thesis using run inv handle_fds_inv [OF inv E] unfolding s client_poll_pass_def
    by (auto split: prod.splits bind_splits if_splits)
qed

interpretation client_loop: loop_invariant "client_poll_pass E M" "\<lambda>st. recv_fds_ok E \<and> client_inv (fst st)" for E M
  by unfold_locales (blast dest: client_poll_pass_inv)

lemma client_poll_events_inv:
  assumes "recv_fds_ok E" and "client_inv c" and run: "ivshmem_client_poll_events E M c os = Some (r, c', os')"
  shows "client_inv c'"
  using client_loop.loop_keeps [OF run [unfolded ivshmem_client_poll_events_def]] assms(1,2) by simp

text \<open>The main loop of a connected client never returns 0, so a connection that ends is closed.\<close>

lemma client_poll_events_nonzero:
  assumes "ivshmem_client_poll_events E M c os = Some (r, c', os')"
  shows "r \<noteq> 0"
proof -
  have "r \<noteq> 0" if "client_poll_pass E M st = Some (False, r, st')" for st r st'
    using that by (auto simp: client_poll_pass_def split: prod.splits bind_splits if_splits)
  from run_loop_last [of _ "\<lambda>r. r \<noteq> 0", OF this _ assms [unfolded ivshmem_client_poll_events_def]] show ?thesis by simp
qed

text \<open>After every round of \<open>main\<close>, whether it could connect or lost the server, the client is as it was before it connected.\<close>

lemma client_main_pass_unconnected:
  assumes "unconnected c" and run: "client_main_pass E M (c, os) = Some (go, r, c', os')"
  shows "unconnected c'"
proof -
  obtain r1 c1 os1 where k: "ivshmem_client_connect E c os = Some (r1, c1, os1)" using run
    by (auto simp: client_main_pass_def split: bind_splits)
  have u: "unconnected c1" using connect_result [OF k assms(1)] .
  show ?thesis
  proof (cases "r1 < 0")
    case True
    then show ?thesis using run k u by (simp add: client_main_pass_def)
  next
    case False
    then obtain r2 c2 os2 where p: "ivshmem_client_poll_events E M c1 os1 = Some (r2, c2, os2)" using run k
      by (auto simp: client_main_pass_def split: bind_splits)
    obtain c3 os3 where x: "ivshmem_client_close c2 os2 = (c3, os3)" by (metis surj_pair)
    then have "c' = c3" using run k p False client_poll_events_nonzero [OF p] by (simp add: client_main_pass_def)
    then show ?thesis using client_close_result [OF x] by simp
  qed
qed

section \<open>Claims\<close>

text \<open>
  C39. One connection of the client: after connecting, through whatever the server sends and
  the user types, and after closing, its data stays well formed: every peer has an id of its
  own and at most 64 vectors, and every index into them is in range. The main loop never
  returns 0, so \<open>main\<close> closes the connection; then the client is as before it connected, and
  neither its socket, the shared memory nor any eventfd recorded in its data is open. (A
  descriptor the client received and did not record is not meant: the one that comes with a
  65th vector is rejected and stays open.)
\<close>

theorem client_session_well_formed:
  assumes "recv_fds_ok E" and "unconnected c" and "ivshmem_client_connect E c os = Some (r, c1, os1)"
    and "ivshmem_client_poll_events E M c1 os1 = Some (r2, c2, os2)" and "ivshmem_client_close c2 os2 = (c3, os3)"
  shows "client_inv c1 \<and> client_inv c2 \<and> r2 \<noteq> 0 \<and> unconnected c3 \<and> c_sock_fd c3 = - 1 \<and> c_shm_fd c3 = - 1 \<and>
    open_fds os3 \<inter> ({c_sock_fd c2, c_shm_fd c2} \<union> set (own_fds (abs_client c2)) \<union> (\<Union>p \<in> set (peers (abs_client c2)). set (snd p))) = {}"
proof -
  have c1: "client_inv c1" using unconnected_inv [OF connect_result [OF assms(3,2)]] .
  have "set (own_fds (abs_client c2)) \<subseteq> set (cp_vectors (c_local c2))" by (simp add: abs_client_def peer_view_def set_take_subset)
  moreover have "(\<Union>p \<in> set (peers (abs_client c2)). set (snd p)) = (\<Union>p \<in> set (c_peer_list c2). set (snd (peer_view p)))"
    by (simp add: abs_client_def)
  ultimately show ?thesis
    using c1 client_poll_events_inv [OF assms(1) c1 assms(4)] client_poll_events_nonzero [OF assms(4)] client_close_result [OF assms(5)] by auto
qed

definition demo_client_main :: client_main_env where
  "demo_client_main = \<lparr>read_stdin = (\<lambda>os. (0, [], os)), c_select = (\<lambda>m fds os. (- 1, {}, os\<lparr>errno := EBUSY\<rparr>)), sleep_1 = id, c_sigpipe_ignored = True\<rparr>"

definition demo_unconnected :: ivshmem_client where
  "demo_unconnected = \<lparr>c_unix_sock_path = ''s'' @ [NUL], c_sock_fd = - 1, c_shm_fd = - 1, c_peer_list = [],
     c_local = \<lparr>cp_id = - 1, cp_vectors = replicate IVSHMEM_CLIENT_MAX_VECTORS (- 1), cp_vectors_count = 0\<rparr>, c_verbose = False\<rparr>"

lemma demo_unconnected_ok: "unconnected demo_unconnected"
  by (simp add: unconnected_def demo_unconnected_def)

text \<open>The three messages of the greeting of peer 3 with the shared memory as descriptor 6.\<close>

definition demo_greeting :: "(int \<times> int) list" where
  "demo_greeting = [(IVSHMEM_PROTOCOL_VERSION, - 1), (3, - 1), (- 1, 6)]"

lemma demo_connect:
  "\<exists>c1 os1. ivshmem_client_connect demo_client demo_unconnected (demo_client_os demo_greeting) = Some (0, c1, os1) \<and>
     c_sock_fd c1 = 5 \<and> cp_vectors_count (c_local c1) = 0"
proof -
  let ?c = "demo_unconnected\<lparr>c_sock_fd := 5\<rparr>" and ?os = "(demo_client_os demo_greeting)\<lparr>open_fds := insert 5 (open_fds (demo_client_os demo_greeting))\<rparr>"
  have box: "inbox ?os = (IVSHMEM_PROTOCOL_VERSION, - 1) # (3, - 1) # (- 1, 6) # []" by (simp add: demo_client_os_def demo_greeting_def)
  obtain c1 os1 where "client_greeting demo_client ?c ?os = Some (0, c1, os1)"
      "c1 = ?c\<lparr>c_local := (c_local ?c)\<lparr>cp_id := 3\<rparr>, c_shm_fd := 6\<rparr>"
    using greeting_result [OF demo_client_ok(1) box, of ?c] by auto
  moreover obtain path where "snprintf (replicate sizeof_sun_path NUL) sizeof_sun_path (cstr (c_unix_sock_path ?c)) = Some (path, 1)"
    by (simp add: snprintf_def sizeof_sun_path_def demo_unconnected_def cstr_def)
  ultimately show ?thesis
    by (simp add: ivshmem_client_connect_def demo_client_def Let_def sizeof_sun_path_def) (simp add: demo_unconnected_def)
qed

theorem client_session_well_formed_witness:
  "\<exists>r c1 os1 r2 c2 os2 c3 os3. ivshmem_client_connect demo_client demo_unconnected (demo_client_os demo_greeting) = Some (r, c1, os1) \<and>
     ivshmem_client_poll_events demo_client demo_client_main c1 os1 = Some (r2, c2, os2) \<and>
     ivshmem_client_close c2 os2 = (c3, os3) \<and> client_inv c2 \<and> unconnected c3 \<and> 5 \<notin> open_fds os3"
proof -
  obtain c1 os1 where k: "ivshmem_client_connect demo_client demo_unconnected (demo_client_os demo_greeting) = Some (0, c1, os1)"
    "c_sock_fd c1 = 5" "cp_vectors_count (c_local c1) = 0" using demo_connect by blast
  let ?os = "os1\<lparr>errno := EBUSY\<rparr>"
  obtain c3 os3 where x: "ivshmem_client_close c1 ?os = (c3, os3)" by (metis surj_pair)
  have "client_poll_pass demo_client demo_client_main (c1, os1) = Some (False, - 1, c1, ?os)"
    using k(2,3) by (simp add: client_poll_pass_def demo_client_main_def ivshmem_client_get_fds_def add_fd_def FD_SET_def FD_SETSIZE_def)
  then have p: "ivshmem_client_poll_events demo_client demo_client_main c1 os1 = Some (- 1, c1, ?os)"
    unfolding ivshmem_client_poll_events_def by (subst run_loop.simps) simp
  from client_session_well_formed [OF demo_client_ok(2) demo_unconnected_ok k(1) p x] k p x show ?thesis by auto
qed

end
