(* ===== verification/Ivshmem_Protocol.thy ===== *)
theory Ivshmem_Protocol
  imports Ivshmem_Server_Main Ivshmem_Client_Main
begin

text \<open>
  The server and its clients together: what the server sends when clients come and go
  makes every client know exactly the other clients, in the order they connected, with their
  eventfds. A descriptor gets a new number in the receiving process: a function from the
  numbers of a client to those of the server says which are the same file.
\<close>

section \<open>Delivery\<close>

definition messages_to :: "int \<Rightarrow> (int \<times> int \<times> int) list \<Rightarrow> (int \<times> int) list" where
  "messages_to sock ws = map snd (filter (\<lambda>m. fst m = sock) ws)"

definition renumbered :: "(int \<Rightarrow> int) \<Rightarrow> (int \<times> int) list \<Rightarrow> (int \<times> int) list \<Rightarrow> bool" where
  "renumbered g ms ms' \<longleftrightarrow>
     list_all2 (\<lambda>m m'. fst m' = fst m \<and> (if snd m < 0 then snd m' = - 1 else 0 \<le> snd m' \<and> g (snd m') = snd m)) ms ms'"

text \<open>A client reads \<open>n\<close> messages; one it rejects ends the connection.\<close>

fun read_msgs :: "client_env \<Rightarrow> nat \<Rightarrow> ivshmem_client \<Rightarrow> sock_os \<Rightarrow> (ivshmem_client \<times> sock_os) option" where
  "read_msgs E 0 c os = Some (c, os)"
| "read_msgs E (Suc n) c os = do {
     (r, c1, os1) \<leftarrow> ivshmem_client_handle_server_msg E c os;
     if r < 0 then None else read_msgs E n c1 os1
   }"

fun view_msgs :: "(int \<times> int) list \<Rightarrow> client_view \<Rightarrow> client_view option" where
  "view_msgs [] v = Some v"
| "view_msgs (m # ms) v = do { v1 \<leftarrow> view_msg m v; view_msgs ms v1 }"

lemma view_msgs_append: "view_msgs (ms @ ms') v = do { v1 \<leftarrow> view_msgs ms v; view_msgs ms' v1 }"
  by (induction ms arbitrary: v) (auto split: bind_splits)

lemma read_msgs_refines:
  assumes "recv_ok E"
  shows "client_inv c \<Longrightarrow> inbox os = ms @ rest \<Longrightarrow> view_msgs ms (abs_client c) = Some v \<Longrightarrow>
    \<exists>c' os'. read_msgs E (length ms) c os = Some (c', os') \<and> inbox os' = rest \<and> client_inv c' \<and> abs_client c' = v"
proof (induction ms arbitrary: c os)
  case (Cons m ms)
  obtain i fd where m: "m = (i, fd)" by (metis surj_pair)
  obtain v1 where v1: "view_msg (i, fd) (abs_client c) = Some v1" "view_msgs ms v1 = Some v"
    using Cons.prems(3) m by (auto split: bind_splits)
  obtain c1 os1 where "ivshmem_client_handle_server_msg E c os = Some (0, c1, os1)" "inbox os1 = ms @ rest" "client_inv c1" "abs_client c1 = v1"
    using handle_msg_refines [OF Cons.prems(1) assms, of os i fd "ms @ rest"] Cons.prems(2) m v1(1) by auto
  then show ?case using Cons.IH [of c1 os1] v1(2) by simp
qed simp

section \<open>Announcements\<close>

text \<open>The \<open>n\<close> eventfds of a new peer make one new entry.\<close>

lemma view_more_fds:
  assumes "i \<noteq> own_id v" and "i \<notin> fst ` set ps" and "peers v = ps @ [(i, fs)]"
  shows "\<forall>f \<in> set gs. 0 \<le> f \<Longrightarrow> length (fs @ gs) \<le> IVSHMEM_CLIENT_MAX_VECTORS \<Longrightarrow>
    view_msgs (map (Pair i) gs) v = Some (v\<lparr>peers := ps @ [(i, fs @ gs)]\<rparr>)"
  using assms(1,3)
proof (induction gs arbitrary: v fs)
  case Nil
  then have "v\<lparr>peers := ps @ [(i, fs)]\<rparr> = v" by (metis client_view.surjective client_view.update_convs(3))
  then show ?case by simp
next
  case (Cons g gs)
  have "map_of ps i = None" using assms(2) by (simp add: map_of_eq_None_iff)
  then have "map_of (ps @ [(i, fs)]) i = Some fs" by (simp add: map_add_def)
  then have fs: "fds_of v i = fs" using Cons.prems(3,4) by (simp add: fds_of_def)
  have "map (\<lambda>(j, fs). if j = i then (j, fs @ [g]) else (j, fs)) ps = ps" using assms(2) by (intro map_idI) force
  then have a: "add_peer_fd i g (peers v) = ps @ [(i, fs @ [g])]" using Cons.prems(4) by (simp add: add_peer_fd_def)
  let ?v = "v\<lparr>peers := ps @ [(i, fs @ [g])]\<rparr>"
  have "view_msgs (map (Pair i) gs) ?v = Some (?v\<lparr>peers := ps @ [(i, (fs @ [g]) @ gs)]\<rparr>)"
    using Cons.prems by (intro Cons.IH) simp_all
  then show ?case using Cons.prems fs a by simp
qed

lemma view_new_peer:
  assumes i: "i \<noteq> own_id v" "i \<notin> fst ` set (peers v)" and fs: "\<forall>f \<in> set fs. 0 \<le> f" "fs \<noteq> []" "length fs \<le> IVSHMEM_CLIENT_MAX_VECTORS"
  shows "view_msgs (map (Pair i) fs) v = Some (v\<lparr>peers := peers v @ [(i, fs)]\<rparr>)"
proof -
  obtain f gs where f: "fs = f # gs" using fs(2) by (cases fs) auto
  have "map_of (peers v) i = None" using i(2) by (simp add: map_of_eq_None_iff)
  then have "view_msg (i, f) v = Some (v\<lparr>peers := peers v @ [(i, [f])]\<rparr>)"
    using i fs(1) f by (simp add: fds_of_def add_peer_fd_def IVSHMEM_CLIENT_MAX_VECTORS_def)
  moreover have "view_msgs (map (Pair i) gs) (v\<lparr>peers := peers v @ [(i, [f])]\<rparr>) = Some (v\<lparr>peers := peers v @ [(i, [f] @ gs)]\<rparr>)"
    using view_more_fds [of i "v\<lparr>peers := peers v @ [(i, [f])]\<rparr>" "peers v" "[f]" gs] i fs f by simp
  ultimately show ?thesis by (simp add: f)
qed

lemma view_own_fds:
  "\<forall>f \<in> set fs. 0 \<le> f \<Longrightarrow> length (own_fds v @ fs) \<le> IVSHMEM_CLIENT_MAX_VECTORS \<Longrightarrow>
    view_msgs (map (Pair (own_id v)) fs) v = Some (v\<lparr>own_fds := own_fds v @ fs\<rparr>)"
proof (induction fs arbitrary: v)
  case (Cons f fs)
  let ?v = "v\<lparr>own_fds := own_fds v @ [f]\<rparr>"
  have "view_msgs (map (Pair (own_id ?v)) fs) ?v = Some (?v\<lparr>own_fds := own_fds ?v @ fs\<rparr>)"
    using Cons.prems by (intro Cons.IH) simp_all
  then show ?case using Cons.prems by (simp add: fds_of_def)
qed simp

lemma view_new_peers:
  assumes "distinct (map fst ps)" and "own_id v \<notin> fst ` set ps" and "fst ` set (peers v) \<inter> fst ` set ps = {}"
    and "\<forall>(i, fs) \<in> set ps. (\<forall>f \<in> set fs. 0 \<le> f) \<and> fs \<noteq> [] \<and> length fs \<le> IVSHMEM_CLIENT_MAX_VECTORS"
  shows "view_msgs (concat (map (\<lambda>(i, fs). map (Pair i) fs) ps)) v = Some (v\<lparr>peers := peers v @ ps\<rparr>)"
  using assms
proof (induction ps arbitrary: v)
  case (Cons p ps)
  obtain i fs where p: "p = (i, fs)" by (metis surj_pair)
  let ?v = "v\<lparr>peers := peers v @ [(i, fs)]\<rparr>"
  have "view_msgs (map (Pair i) fs) v = Some ?v" using Cons.prems p by (intro view_new_peer) auto
  moreover have "view_msgs (concat (map (\<lambda>(i, fs). map (Pair i) fs) ps)) ?v = Some (?v\<lparr>peers := peers ?v @ ps\<rparr>)"
    using Cons.prems p by (intro Cons.IH) auto
  ultimately show ?case by (simp add: p view_msgs_append)
qed simp

section \<open>Renumbering\<close>

lemma renumbered_announcement:
  assumes "renumbered g (map (\<lambda>e. (i, h e)) es) ms" and "\<forall>e \<in> set es. 0 \<le> h e"
  shows "\<exists>fs. ms = map (Pair i) fs \<and> map g fs = map h es \<and> (\<forall>f \<in> set fs. 0 \<le> f)"
  using assms
proof (induction es arbitrary: ms)
  case (Cons e es)
  from Cons.prems obtain f ms' where ms: "ms = (i, f) # ms'" "0 \<le> f" "g f = h e" "renumbered g (map (\<lambda>e. (i, h e)) es) ms'"
    by (auto simp: renumbered_def list_all2_Cons1)
  with Cons obtain fs where "ms' = map (Pair i) fs" "map g fs = map h es" "\<forall>f \<in> set fs. 0 \<le> f" by auto
  then show ?case using ms by (intro exI [of _ "f # fs"]) simp
qed (simp add: renumbered_def)

lemma renumbered_append:
  "renumbered g (as @ bs) ms \<longleftrightarrow> (\<exists>as' bs'. ms = as' @ bs' \<and> renumbered g as as' \<and> renumbered g bs bs')"
proof
  assume "renumbered g (as @ bs) ms"
  then show "\<exists>as' bs'. ms = as' @ bs' \<and> renumbered g as as' \<and> renumbered g bs bs'"
    unfolding renumbered_def list_all2_append1 by blast
next
  assume "\<exists>as' bs'. ms = as' @ bs' \<and> renumbered g as as' \<and> renumbered g bs bs'"
  then show "renumbered g (as @ bs) ms" unfolding renumbered_def by (elim exE conjE) (simp add: list_all2_appendI)
qed

text \<open>An entry of a client with the numbers of the server.\<close>

definition renamed :: "(int \<Rightarrow> int) \<Rightarrow> int \<times> int list \<Rightarrow> int \<times> int list" where
  "renamed g x = (fst x, map g (snd x))"

lemma renamed_simps [simp]: "fst (renamed g x) = fst x" "snd (renamed g x) = map g (snd x)" "renamed g (i, fs) = (i, map g fs)"
  by (simp_all add: renamed_def)

lemma renumbered_announcements:
  assumes "renumbered g (concat (map (\<lambda>p. map (\<lambda>e. (k p, h e)) (vs p)) ps)) ms" and "\<forall>p \<in> set ps. \<forall>e \<in> set (vs p). 0 \<le> h e"
  shows "\<exists>qs. ms = concat (map (\<lambda>(i, fs). map (Pair i) fs) qs) \<and>
    map (renamed g) qs = map (\<lambda>p. (k p, map h (vs p))) ps \<and> (\<forall>q \<in> set qs. \<forall>f \<in> set (snd q). 0 \<le> f)"
  using assms
proof (induction ps arbitrary: ms)
  case (Cons p ps)
  from Cons.prems(1) obtain as bs where ms: "ms = as @ bs" "renumbered g (map (\<lambda>e. (k p, h e)) (vs p)) as"
    "renumbered g (concat (map (\<lambda>p. map (\<lambda>e. (k p, h e)) (vs p)) ps)) bs" by (auto simp: renumbered_append)
  obtain fs where "as = map (Pair (k p)) fs" "map g fs = map h (vs p)" "\<forall>f \<in> set fs. 0 \<le> f"
    using renumbered_announcement [OF ms(2)] Cons.prems(2) by auto
  moreover obtain qs where "bs = concat (map (\<lambda>(i, fs). map (Pair i) fs) qs)"
    "map (renamed g) qs = map (\<lambda>p. (k p, map h (vs p))) ps" "\<forall>q \<in> set qs. \<forall>f \<in> set (snd q). 0 \<le> f"
    using Cons.IH [OF ms(3)] Cons.prems(2) by auto
  ultimately show ?case using ms(1) by (intro exI [of _ "(k p, fs) # qs"]) simp
qed (simp add: renumbered_def)

section \<open>Who is told what\<close>

lemma messages_to_append [simp]: "messages_to sock (ws @ ws') = messages_to sock ws @ messages_to sock ws'"
  by (simp add: messages_to_def)

lemma messages_to_others: "(\<And>m. m \<in> set ws \<Longrightarrow> fst m \<noteq> sock) \<Longrightarrow> messages_to sock ws = []"
  by (auto simp: messages_to_def filter_empty_conv)

lemma messages_to_all: "(\<And>m. m \<in> set ws \<Longrightarrow> fst m = sock) \<Longrightarrow> messages_to sock ws = map snd ws"
  by (simp add: messages_to_def filter_True)

lemma messages_to_each:
  assumes "distinct (map sp_sock_fd ps)" and "q \<in> set ps"
  shows "messages_to (sp_sock_fd q) (concat (map (\<lambda>p. map (\<lambda>e. (sp_sock_fd p, i, g e)) es) ps)) = map (\<lambda>e. (i, g e)) es"
  using assms
proof (induction ps)
  case (Cons p ps)
  have here: "messages_to (sp_sock_fd p) (map (\<lambda>e. (sp_sock_fd p, i, g e)) es) = map (\<lambda>e. (i, g e)) es"
    by (subst messages_to_all) auto
  show ?case
  proof (cases "q = p")
    case True
    have "messages_to (sp_sock_fd p) (concat (map (\<lambda>p. map (\<lambda>e. (sp_sock_fd p, i, g e)) es) ps)) = []"
      using Cons.prems(1) by (intro messages_to_others) (auto dest: not_image_neq [of sp_sock_fd])
    then show ?thesis using True here by simp
  next
    case False
    then have "q \<in> set ps" using Cons.prems(2) by simp
    moreover from this have "sp_sock_fd p \<noteq> sp_sock_fd q" using Cons.prems(1) by (metis distinct.simps(2) imageI list.simps(9) set_map)
    then have "messages_to (sp_sock_fd q) (map (\<lambda>e. (sp_sock_fd p, i, g e)) es) = []" by (intro messages_to_others) auto
    ultimately show ?thesis using Cons by simp
  qed
qed simp

lemma disjoint_peers_socks: "disjoint_peers ps \<Longrightarrow> distinct (map sp_sock_fd ps)"
proof (induction ps)
  case (Cons p ps)
  have "sp_sock_fd q \<noteq> sp_sock_fd p" if "q \<in> set ps" for q
    using Cons.prems that by (auto simp: peers_fds_def peer_fds_def)
  then have "sp_sock_fd p \<notin> sp_sock_fd ` set ps" by (metis imageE)
  then show ?case using Cons by simp
qed simp

lemma server_inv_socks: "server_inv s os \<Longrightarrow> distinct (map sp_sock_fd (peer_list s))"
  by (simp add: server_inv_def disjoint_peers_socks)

lemma server_inv_vectors:
  assumes "server_inv s os" and "q \<in> set (peer_list s)"
  shows "length (vectors_upto (n_vectors s) q) = unat (n_vectors s)"
    and "e \<in> set (vectors_upto (n_vectors s) q) \<Longrightarrow> 0 \<le> rfd e \<and> 0 \<le> wfd e" and "sp_vectors_count q = n_vectors s"
  using assms by (auto simp: server_inv_def vectors_upto_def)

text \<open>The state after a new client has been introduced.\<close>

lemma introduction_on_wire:
  assumes inv: "server_inv s' os'" and l: "peer_list s' = peer_list s @ [p]" "n_vectors s' = n_vectors s" "shm_fd s' = shm_fd s"
  shows "map on_wire (introduction s p) = introduction s p"
proof -
  have "sp_vectors_count p = n_vectors s" "0 \<le> shm_fd s" using inv l by (auto simp: server_inv_def)
  moreover have "0 \<le> rfd e \<and> 0 \<le> wfd e" if "e \<in> set (vectors_upto (n_vectors s) q)" "q \<in> set (peer_list s @ [p])" for e q
    using server_inv_vectors(2) [OF inv, of q e] that by (simp add: l)
  ultimately show ?thesis
    by (intro map_idI) (auto simp: introduction_def advertise_new_def advertise_others_def advertise_self_def on_wire_def)
qed

lemma introduction_to_old:
  assumes inv: "server_inv s' os'" and l: "peer_list s' = peer_list s @ [p]" "n_vectors s' = n_vectors s" and q: "q \<in> set (peer_list s)"
  shows "messages_to (sp_sock_fd q) (introduction s p) = map (\<lambda>e. (sp_id p, wfd e)) (vectors_upto (n_vectors s) p)"
proof -
  have d: "distinct (map sp_sock_fd (peer_list s @ [p]))" using server_inv_socks [OF inv] by (simp add: l)
  then have ne: "sp_sock_fd p \<noteq> sp_sock_fd q" using q by auto
  have "sp_vectors_count p = n_vectors s" using server_inv_vectors(3) [OF inv] l by simp
  then have "messages_to (sp_sock_fd q) (advertise_new s p) = map (\<lambda>e. (sp_id p, wfd e)) (vectors_upto (n_vectors s) p)"
    unfolding advertise_new_def using d q by (simp add: messages_to_each)
  moreover have "messages_to (sp_sock_fd q) (advertise_others s p) = []" "messages_to (sp_sock_fd q) (advertise_self p) = []"
    using ne by (auto simp: advertise_others_def advertise_self_def intro!: messages_to_others)
  ultimately show ?thesis using ne by (simp add: introduction_def) (simp add: messages_to_def)
qed

lemma introduction_to_new:
  assumes inv: "server_inv s' os'" and l: "peer_list s' = peer_list s @ [p]" "n_vectors s' = n_vectors s"
  shows "messages_to (sp_sock_fd p) (introduction s p) =
    [(IVSHMEM_PROTOCOL_VERSION, - 1), (sp_id p, - 1), (- 1, shm_fd s)] @
    concat (map (\<lambda>q. map (\<lambda>e. (sp_id q, wfd e)) (vectors_upto (n_vectors s) q)) (peer_list s)) @
    map (\<lambda>e. (sp_id p, rfd e)) (vectors_upto (n_vectors s) p)"
proof -
  have d: "distinct (map sp_sock_fd (peer_list s @ [p]))" using server_inv_socks [OF inv] by (simp add: l)
  then have ne: "sp_sock_fd q \<noteq> sp_sock_fd p" if "q \<in> set (peer_list s)" for q using that by (auto dest: not_image_neq [of sp_sock_fd])
  have n: "sp_vectors_count p = n_vectors s" using server_inv_vectors(3) [OF inv] l by simp
  have "messages_to (sp_sock_fd p) (advertise_new s p) = []"
    using ne by (intro messages_to_others) (auto simp: advertise_new_def)
  moreover have "messages_to (sp_sock_fd p) (advertise_others s p) = map snd (advertise_others s p)"
    by (rule messages_to_all) (auto simp: advertise_others_def)
  moreover have "messages_to (sp_sock_fd p) (advertise_self p) = map snd (advertise_self p)"
    by (rule messages_to_all) (auto simp: advertise_self_def)
  ultimately show ?thesis
    by (simp add: introduction_def n advertise_others_def advertise_self_def map_concat comp_def) (simp add: messages_to_def)
qed

section \<open>Knowing the others\<close>

text \<open>
  What the client of peer \<open>q\<close> knows: its own id and the reading ends of its own eventfds, and
  the id and the writing ends of every other peer, in the order they connected.
\<close>

definition announced :: "ivshmem_server \<Rightarrow> server_peer \<Rightarrow> int \<times> int list" where
  "announced s p = (sp_id p, map wfd (vectors_upto (n_vectors s) p))"

definition knows :: "ivshmem_server \<Rightarrow> (int \<Rightarrow> int) \<Rightarrow> server_peer \<Rightarrow> client_view \<Rightarrow> bool" where
  "knows s g q v \<longleftrightarrow> own_id v = sp_id q \<and> map g (own_fds v) = map rfd (vectors_upto (n_vectors s) q) \<and>
     map (renamed g) (peers v) = map (announced s) (filter (\<lambda>p. sp_id p \<noteq> sp_id q) (peer_list s))"

text \<open>The descriptors a client holds for vectors.\<close>

definition held :: "client_view \<Rightarrow> int set" where
  "held v = set (own_fds v) \<union> (\<Union>p \<in> set (peers v). set (snd p))"

lemma knows_cong:
  assumes "knows s g q v" and "\<forall>f \<in> held v. g' f = g f"
  shows "knows s g' q v"
proof -
  have "map g' (own_fds v) = map g (own_fds v)" using assms(2) by (simp add: held_def)
  moreover have "map (renamed g') (peers v) = map (renamed g) (peers v)"
    using assms(2) by (intro map_cong refl) (force simp: held_def renamed_def)
  ultimately show ?thesis using assms(1) unfolding knows_def by metis
qed

lemma knows_ids:
  assumes "knows s g q v"
  shows "map fst (peers v) = map sp_id (filter (\<lambda>p. sp_id p \<noteq> sp_id q) (peer_list s))"
    and "fst ` set (peers v) = sp_id ` set (filter (\<lambda>p. sp_id p \<noteq> sp_id q) (peer_list s))"
proof -
  have "map fst (map (renamed g) (peers v)) = map fst (map (announced s) (filter (\<lambda>p. sp_id p \<noteq> sp_id q) (peer_list s)))"
    using assms by (simp add: knows_def)
  then show "map fst (peers v) = map sp_id (filter (\<lambda>p. sp_id p \<noteq> sp_id q) (peer_list s))"
    by (simp add: announced_def comp_def)
  then show "fst ` set (peers v) = sp_id ` set (filter (\<lambda>p. sp_id p \<noteq> sp_id q) (peer_list s))" by (metis set_map)
qed

lemma server_inv_bound: "server_inv s os \<Longrightarrow> unat (n_vectors s) \<le> IVSHMEM_CLIENT_MAX_VECTORS"
  by (simp add: server_inv_def IVSHMEM_SERVER_MAX_VECTORS_def IVSHMEM_CLIENT_MAX_VECTORS_def)

text \<open>An old client reads the introduction of a new one.\<close>

lemma old_client_learns:
  assumes inv: "server_inv s' os'" and l: "peer_list s' = peer_list s @ [p]" "n_vectors s' = n_vectors s" and n: "0 < unat (n_vectors s)"
    and q: "q \<in> set (peer_list s)" and kn: "knows s g q v" and ms: "renumbered g (messages_to (sp_sock_fd q) (introduction s p)) ms"
  shows "\<exists>v'. view_msgs ms v = Some v' \<and> knows s' g q v'"
proof -
  have p: "p \<in> set (peer_list s')" by (simp add: l)
  obtain fs where fs: "ms = map (Pair (sp_id p)) fs" "map g fs = map wfd (vectors_upto (n_vectors s) p)" "\<forall>f \<in> set fs. 0 \<le> f"
    using renumbered_announcement [OF ms [unfolded introduction_to_old [OF inv l q]]] server_inv_vectors(2) [OF inv p] l(2) by auto
  have len: "length fs = unat (n_vectors s)"
    using arg_cong [OF fs(2), of length] server_inv_vectors(1) [OF inv p] l(2) by simp
  have ids: "sp_id p \<noteq> sp_id r" if "r \<in> set (peer_list s)" for r using inv that by (auto simp: server_inv_def l)
  then have "sp_id p \<notin> fst ` set (peers v)" using knows_ids(2) [OF kn] by auto
  moreover have "sp_id p \<noteq> own_id v" using ids [OF q] kn by (simp add: knows_def)
  ultimately have "view_msgs ms v = Some (v\<lparr>peers := peers v @ [(sp_id p, fs)]\<rparr>)"
    unfolding fs(1) using fs len n server_inv_bound [OF inv] l(2) by (intro view_new_peer) auto
  moreover have "announced s' = announced s" using l(2) by (simp add: announced_def fun_eq_iff)
  then have "knows s' g q (v\<lparr>peers := peers v @ [(sp_id p, fs)]\<rparr>)" using kn fs(2) ids [OF q] by (simp add: knows_def l announced_def)
  ultimately show ?thesis by blast
qed

text \<open>The new client reads its greeting and then the introductions of everyone.\<close>

lemma new_client_learns:
  assumes inv: "server_inv s' os'" and l: "peer_list s' = peer_list s @ [p]" "n_vectors s' = n_vectors s" and n: "0 < unat (n_vectors s)"
    and ms: "renumbered g (messages_to (sp_sock_fd p) (introduction s p)) ms" and shm: "0 \<le> shm_fd s"
  shows "\<exists>f rest v. ms = (IVSHMEM_PROTOCOL_VERSION, - 1) # (sp_id p, - 1) # (- 1, f) # rest \<and> 0 \<le> f \<and> g f = shm_fd s \<and>
    view_msgs rest \<lparr>own_id = sp_id p, own_fds = [], peers = []\<rparr> = Some v \<and> knows s' g p v"
proof -
  let ?n = "unat (n_vectors s)"
  have p: "p \<in> set (peer_list s')" by (simp add: l)
  obtain greet as bs where m: "ms = greet @ as @ bs"
    "renumbered g [(IVSHMEM_PROTOCOL_VERSION, - 1), (sp_id p, - 1), (- 1, shm_fd s)] greet"
    "renumbered g (concat (map (\<lambda>q. map (\<lambda>e. (sp_id q, wfd e)) (vectors_upto (n_vectors s) q)) (peer_list s))) as"
    "renumbered g (map (\<lambda>e. (sp_id p, rfd e)) (vectors_upto (n_vectors s) p)) bs"
    using ms unfolding introduction_to_new [OF inv l] renumbered_append by blast
  obtain f where f: "greet = [(IVSHMEM_PROTOCOL_VERSION, - 1), (sp_id p, - 1), (- 1, f)]" "0 \<le> f" "g f = shm_fd s"
    using m(2) shm by (auto simp: renumbered_def list_all2_Cons1)
  have vec: "length (vectors_upto (n_vectors s) q) = ?n" "\<forall>e \<in> set (vectors_upto (n_vectors s) q). 0 \<le> rfd e \<and> 0 \<le> wfd e"
    if "q \<in> set (peer_list s')" for q using server_inv_vectors [OF inv that] l(2) by auto
  obtain qs where qs: "as = concat (map (\<lambda>(i, fs). map (Pair i) fs) qs)"
    "map (renamed g) qs = map (announced s) (peer_list s)" "\<forall>q \<in> set qs. \<forall>f \<in> set (snd q). 0 \<le> f"
    using renumbered_announcements [OF m(3)] vec l(1) unfolding announced_def by auto
  have ids: "map fst qs = map sp_id (peer_list s)"
    using arg_cong [OF qs(2), of "map fst"] by (simp add: announced_def comp_def)
  have lens: "length (snd x) = ?n" if "x \<in> set qs" for x
  proof -
    have "renamed g x \<in> announced s ` set (peer_list s)" using qs(2) that by (metis image_eqI set_map)
    then obtain q where "q \<in> set (peer_list s)" "map g (snd x) = map wfd (vectors_upto (n_vectors s) q)"
      by (auto simp: announced_def renamed_def)
    then show ?thesis using vec(1) l(1) by (metis Un_iff length_map set_append)
  qed
  obtain fs where fs: "bs = map (Pair (sp_id p)) fs" "map g fs = map rfd (vectors_upto (n_vectors s) p)" "\<forall>f \<in> set fs. 0 \<le> f"
    using renumbered_announcement [OF m(4)] vec [OF p] by auto
  have len: "length fs = ?n" using arg_cong [OF fs(2), of length] vec(1) [OF p] by simp
  have d: "distinct (map sp_id (peer_list s))" "sp_id p \<notin> sp_id ` set (peer_list s)" using inv by (auto simp: server_inv_def l)
  have set_qs: "fst ` set qs = sp_id ` set (peer_list s)" using ids by (metis set_map)
  let ?v = "\<lparr>own_id = sp_id p, own_fds = [], peers = []\<rparr>"
  have "\<forall>(i, fs) \<in> set qs. (\<forall>f \<in> set fs. 0 \<le> f) \<and> fs \<noteq> [] \<and> length fs \<le> IVSHMEM_CLIENT_MAX_VECTORS"
    using lens qs(3) n server_inv_bound [OF inv] l(2) by force
  then have "view_msgs as ?v = Some (?v\<lparr>peers := qs\<rparr>)"
    unfolding qs(1) using d set_qs ids view_new_peers [of qs ?v] by simp
  moreover have "view_msgs bs (?v\<lparr>peers := qs\<rparr>) = Some (?v\<lparr>peers := qs, own_fds := fs\<rparr>)"
    using view_own_fds [of fs "?v\<lparr>peers := qs\<rparr>"] fs len server_inv_bound [OF inv] l(2) by simp
  moreover have "filter (\<lambda>q. sp_id q \<noteq> sp_id p) (peer_list s) = peer_list s"
    using d(2) by (intro filter_True) (metis imageI)
  moreover have "announced s' = announced s" using l(2) by (simp add: announced_def fun_eq_iff)
  ultimately have "view_msgs as ?v = Some (?v\<lparr>peers := qs\<rparr>) \<and> view_msgs bs (?v\<lparr>peers := qs\<rparr>) = Some (?v\<lparr>peers := qs, own_fds := fs\<rparr>) \<and>
      knows s' g p (?v\<lparr>peers := qs, own_fds := fs\<rparr>)" using fs(2) qs(2) l by (simp add: knows_def)
  then show ?thesis using m(1) f by (auto simp: view_msgs_append)
qed

text \<open>A client reads that another one has gone.\<close>

lemma client_forgets:
  assumes inv: "server_inv s os" and p: "p \<in> set (peer_list s)" and q: "q \<in> set (remove1 p (peer_list s))"
    and kn: "knows s g q v"
    and ms: "renumbered g (messages_to (sp_sock_fd q) (map (\<lambda>r. (sp_sock_fd r, sp_id p, - 1)) (remove1 p (peer_list s)))) ms"
  shows "\<exists>v'. view_msgs ms v = Some v' \<and> knows (s\<lparr>peer_list := remove1 p (peer_list s)\<rparr>) g q v'"
proof -
  let ?r = "remove1 p (peer_list s)"
  have d: "distinct (map sp_id (peer_list s))" using inv by (simp add: server_inv_def)
  then have dp: "distinct (peer_list s)" by (simp add: distinct_map)
  have "distinct (map sp_sock_fd ?r)" using server_inv_socks [OF inv] by (metis distinct_map distinct_remove1 inj_on_subset set_remove1_subset)
  from messages_to_each [OF this q, of "sp_id p" "\<lambda>_. - 1" "[()]"]
  have "messages_to (sp_sock_fd q) (map (\<lambda>r. (sp_sock_fd r, sp_id p, - 1)) ?r) = [(sp_id p, - 1)]" by (simp add: concat_map_singleton)
  then have m: "ms = [(sp_id p, - 1)]" using ms by (auto simp: renumbered_def list_all2_Cons1)
  have q': "q \<in> set (peer_list s)" "q \<noteq> p" using q dp by auto
  then have ne: "sp_id q \<noteq> sp_id p" using d p by (meson distinct_map inj_on_eq_iff)
  then have "sp_id p \<in> fst ` set (peers v)" using p knows_ids(2) [OF kn] by auto
  moreover have "sp_id p \<noteq> own_id v" using kn ne by (simp add: knows_def)
  ultimately have "view_msgs ms v = Some (v\<lparr>peers := filter (\<lambda>x. fst x \<noteq> sp_id p) (peers v)\<rparr>)" by (simp add: m)
  moreover have r: "?r = filter (\<lambda>r. sp_id r \<noteq> sp_id p) (peer_list s)"
    using d dp p by (auto simp: distinct_remove1_removeAll removeAll_filter_not_eq distinct_map inj_on_def intro!: filter_cong)
  have "map (renamed g) (filter (\<lambda>x. fst x \<noteq> sp_id p) (peers v)) = map (announced s) (filter (\<lambda>r. sp_id r \<noteq> sp_id q) ?r)"
  proof -
    have "map (renamed g) (filter (\<lambda>x. fst x \<noteq> sp_id p) (peers v)) = filter (\<lambda>x. fst x \<noteq> sp_id p) (map (renamed g) (peers v))" by (simp add: filter_map comp_def)
    also have "\<dots> = map (announced s) (filter (\<lambda>r. sp_id r \<noteq> sp_id q) ?r)"
      using kn unfolding knows_def r by (simp add: filter_map comp_def announced_def conj_commute)
    finally show ?thesis .
  qed
  then have "knows (s\<lparr>peer_list := ?r\<rparr>) g q (v\<lparr>peers := filter (\<lambda>x. fst x \<noteq> sp_id p) (peers v)\<rparr>)"
    using kn by (simp add: knows_def announced_def [abs_def])
  ultimately show ?thesis by blast
qed

section \<open>The fabric of server and clients\<close>

text \<open>
  A connected client reads what was sent to it, and a new client connects and then reads
  the rest. The new descriptors get any numbers under which the client does not hold
  another file already.
\<close>

definition client_reads ::
  "client_env \<Rightarrow> (int \<times> int) list \<Rightarrow> (int \<Rightarrow> int) \<Rightarrow> ivshmem_client \<Rightarrow> (int \<Rightarrow> int) \<Rightarrow> ivshmem_client \<Rightarrow> bool" where
  "client_reads C ms g c g' c' \<longleftrightarrow> (\<forall>f \<in> held (abs_client c). g' f = g f) \<and>
     (\<exists>ms' os os'. renumbered g' ms ms' \<and> inbox os = ms' \<and> read_msgs C (length ms') c os = Some (c', os'))"

definition client_joins :: "client_env \<Rightarrow> (int \<times> int) list \<Rightarrow> (int \<Rightarrow> int) \<Rightarrow> ivshmem_client \<Rightarrow> bool" where
  "client_joins C ms g' c' \<longleftrightarrow>
     (\<exists>ms' c os c1 os1 os'. renumbered g' ms ms' \<and> unconnected c \<and> inbox os = ms' \<and> client_greeting C c os = Some (0, c1, os1) \<and>
        read_msgs C (length ms' - 3) c1 os1 = Some (c', os'))"

text \<open>
  The states the server and its clients can reach. A step is one pass of the server's main
  loop: \<open>get_fds\<close>, \<open>select\<close> and \<open>handle_fds\<close>, whatever \<open>select\<close> reports; in one pass a client
  may connect and any number of others leave, and calls may fail. Then the connected clients
  read what the pass sent to them. The clients and their descriptor numbers are found by the
  id of the peer. The number of vectors is what the server was started with, also 0.
\<close>

inductive fabric ::
  "server_env \<Rightarrow> main_env \<Rightarrow> client_env \<Rightarrow> ivshmem_server \<Rightarrow> sock_os \<Rightarrow> (int \<Rightarrow> ivshmem_client) \<Rightarrow> (int \<Rightarrow> int \<Rightarrow> int) \<Rightarrow> bool"
  for E M C where
  idle: "server_inv s os \<Longrightarrow> 0 \<le> srv_sock_fd s \<Longrightarrow> peer_list s = [] \<Longrightarrow> fabric E M C s os cl g"
| pass: "fabric E M C s os cl g \<Longrightarrow> server_poll_pass E M (s, os) = Some (go, r, s', os') \<Longrightarrow> wire os' = wire os @ ws \<Longrightarrow>
    (\<forall>q \<in> set (peer_list s').
       if q \<in> set (peer_list s)
       then client_reads C (messages_to (sp_sock_fd q) ws) (g (sp_id q)) (cl (sp_id q)) (g' (sp_id q)) (cl' (sp_id q))
       else client_joins C (messages_to (sp_sock_fd q) ws) (g' (sp_id q)) (cl' (sp_id q))) \<Longrightarrow>
    fabric E M C s' os' cl' g'"

text \<open>A server that has just been started is such a state.\<close>

lemma started_fabric:
  assumes E: "server_env_ok E" and run: "ivshmem_server_start E s os = Some (0, s', os')"
    and s: "peer_list s = []" "unat (n_vectors s) \<le> IVSHMEM_SERVER_MAX_VECTORS"
  shows "fabric E M C s' os' cl g"
proof (rule fabric.idle)
  show "server_inv s' os'" using started_serves [OF E run s] by (simp add: serves_def)
  show "0 \<le> srv_sock_fd s'" "peer_list s' = []" using start_result [OF E run] s(1) by (auto simp: start_outcome_def)
qed

definition all_know :: "ivshmem_server \<Rightarrow> (int \<Rightarrow> ivshmem_client) \<Rightarrow> (int \<Rightarrow> int \<Rightarrow> int) \<Rightarrow> bool" where
  "all_know s cl g \<longleftrightarrow>
     (\<forall>q \<in> set (peer_list s). client_inv (cl (sp_id q)) \<and> knows s (g (sp_id q)) q (abs_client (cl (sp_id q))))"

lemma all_know_reads:
  assumes "all_know s cl g" and "q \<in> set (peer_list s)" and "client_reads C ms (g (sp_id q)) (cl (sp_id q)) g' c'"
  shows "knows s g' q (abs_client (cl (sp_id q)))"
  using assms knows_cong unfolding all_know_def client_reads_def by blast

lemma client_reads_run:
  assumes C: "recv_ok C" and c: "client_inv c"
    and v: "\<And>ms'. renumbered g' ms ms' \<Longrightarrow> \<exists>v. view_msgs ms' (abs_client c) = Some v \<and> K v"
  shows "client_reads C ms g c g' c' \<Longrightarrow> client_inv c' \<and> K (abs_client c')"
    and "renumbered g' ms ms' \<Longrightarrow> inbox os = ms' \<Longrightarrow> \<exists>c' os'. read_msgs C (length ms') c os = Some (c', os') \<and> inbox os' = []"
proof -
  have run: "\<exists>c' os'. read_msgs C (length ms') c os = Some (c', os') \<and> inbox os' = [] \<and> client_inv c' \<and> K (abs_client c')"
    if "renumbered g' ms ms'" "inbox os = ms'" for ms' os
  proof -
    from v [OF that(1)] obtain v where "view_msgs ms' (abs_client c) = Some v" "K v" by blast
    then show ?thesis using read_msgs_refines [OF C c, of os ms' "[]" v] that(2) by auto
  qed
  then show "client_reads C ms g c g' c' \<Longrightarrow> client_inv c' \<and> K (abs_client c')" unfolding client_reads_def by fastforce
  show "renumbered g' ms ms' \<Longrightarrow> inbox os = ms' \<Longrightarrow> \<exists>c' os'. read_msgs C (length ms') c os = Some (c', os') \<and> inbox os' = []"
    using run by blast
qed

text \<open>
  \<open>told\<close>: a client that knows the others in the state \<open>s\<close> knows them in \<open>s'\<close> after reading what
  was sent to it; \<open>joined\<close>: so does a new client after reading its greeting and the rest.
\<close>

definition told :: "ivshmem_server \<Rightarrow> ivshmem_server \<Rightarrow> (int \<times> int \<times> int) list \<Rightarrow> server_peer \<Rightarrow> bool" where
  "told s s' ws q \<longleftrightarrow> (\<forall>g v ms. knows s g q v \<longrightarrow> renumbered g (messages_to (sp_sock_fd q) ws) ms \<longrightarrow>
     (\<exists>v'. view_msgs ms v = Some v' \<and> knows s' g q v'))"

definition joined :: "ivshmem_server \<Rightarrow> (int \<times> int \<times> int) list \<Rightarrow> server_peer \<Rightarrow> bool" where
  "joined s' ws q \<longleftrightarrow> (\<forall>g ms. renumbered g (messages_to (sp_sock_fd q) ws) ms \<longrightarrow>
     (\<exists>f rest v. ms = (IVSHMEM_PROTOCOL_VERSION, - 1) # (sp_id q, - 1) # (- 1, f) # rest \<and> 0 \<le> f \<and>
        view_msgs rest \<lparr>own_id = sp_id q, own_fds = [], peers = []\<rparr> = Some v \<and> knows s' g q v))"

lemma told_trans: "told s s1 ws q \<Longrightarrow> told s1 s2 ws' q \<Longrightarrow> told s s2 (ws @ ws') q"
  unfolding told_def by (fastforce simp: renumbered_append view_msgs_append)

lemma joined_told:
  assumes "joined s1 ws q" and "told s1 s2 ws' q"
  shows "joined s2 (ws @ ws') q"
  unfolding joined_def
proof (intro allI impI)
  fix g ms assume "renumbered g (messages_to (sp_sock_fd q) (ws @ ws')) ms"
  then obtain as bs where m: "ms = as @ bs" "renumbered g (messages_to (sp_sock_fd q) ws) as"
    "renumbered g (messages_to (sp_sock_fd q) ws') bs" by (auto simp: renumbered_append)
  obtain f rest v where "as = (IVSHMEM_PROTOCOL_VERSION, - 1) # (sp_id q, - 1) # (- 1, f) # rest" "0 \<le> f"
    "view_msgs rest \<lparr>own_id = sp_id q, own_fds = [], peers = []\<rparr> = Some v" "knows s1 g q v"
    using assms(1) m(2) unfolding joined_def by blast
  moreover from this obtain v' where "view_msgs bs v = Some v'" "knows s2 g q v'" using assms(2) m(3) unfolding told_def by blast
  ultimately show "\<exists>f rest v. ms = (IVSHMEM_PROTOCOL_VERSION, - 1) # (sp_id q, - 1) # (- 1, f) # rest \<and> 0 \<le> f \<and>
      view_msgs rest \<lparr>own_id = sp_id q, own_fds = [], peers = []\<rparr> = Some v \<and> knows s2 g q v"
    using m(1) by (intro exI [of _ f] exI [of _ "rest @ bs"] exI [of _ v']) (simp add: view_msgs_append)
qed

lemma told_nothing: "n_vectors s' = n_vectors s \<Longrightarrow> peer_list s' = peer_list s \<Longrightarrow> told s s' [] q"
  by (auto simp: told_def messages_to_def renumbered_def knows_def announced_def [abs_def])

lemma joined_run:
  assumes C: "recv_ok C" and j: "joined s' ws p" and id: "0 \<le> sp_id p"
    and c: "unconnected c" and ms: "renumbered g (messages_to (sp_sock_fd p) ws) ms" and box: "inbox os = ms"
  shows "\<exists>c1 os1 c2 os2. client_greeting C c os = Some (0, c1, os1) \<and> read_msgs C (length ms - 3) c1 os1 = Some (c2, os2) \<and>
    inbox os2 = [] \<and> client_inv c2 \<and> knows s' g p (abs_client c2)"
proof -
  obtain f rest v where m: "ms = (IVSHMEM_PROTOCOL_VERSION, - 1) # (sp_id p, - 1) # (- 1, f) # rest" "0 \<le> f"
    "view_msgs rest \<lparr>own_id = sp_id p, own_fds = [], peers = []\<rparr> = Some v" "knows s' g p v"
    using j ms unfolding joined_def by blast
  let ?c = "c\<lparr>c_local := (c_local c)\<lparr>cp_id := sp_id p\<rparr>, c_shm_fd := f\<rparr>"
  have "\<exists>os1. client_greeting C c os = Some (0, ?c, os1) \<and> inbox os1 = rest"
    using greeting_result [OF C box [unfolded m(1)], of c] m(2) id by auto
  then obtain os1 where g: "client_greeting C c os = Some (0, ?c, os1)" "inbox os1 = rest" by blast
  have "length ms - 3 = length rest" by (simp add: m(1))
  then show ?thesis using g m(4) read_msgs_refines [OF C greeting_view(1) [OF c, of f "sp_id p"], of os1 rest "[]" v]
    by (auto simp: greeting_view(2) [OF c] m(3))
qed

lemma cleanup_vectors_wire: "server_env_ok E \<Longrightarrow> wire (cleanup_vectors E es os) = wire os"
  by (induction es arbitrary: os) (simp_all add: server_env_okD(11))

lemma free_peer_wire:
  assumes E: "server_env_ok E" "sends_succeed E" and run: "ivshmem_server_free_peer E p s os = (s', os')"
  shows "wire os' = wire os @ map (\<lambda>r. (sp_sock_fd r, sp_id p, - 1)) (remove1 p (peer_list s))"
  using run by (auto simp: ivshmem_server_free_peer_def Let_def cleanup_vectors_wire [OF E(1)] send_msgs_wire [OF E] on_wire_def)

lemma new_conn_state:
  assumes E: "server_env_ok E" "sends_succeed E" and inv: "server_inv s os"
    and run: "ivshmem_server_handle_new_conn E s os = Some (0, s', os')" and l: "peer_list s' = peer_list s @ [p]"
  shows "server_inv s' os'" and "n_vectors s' = n_vectors s" and "wire os' = wire os @ introduction s p" and "0 \<le> shm_fd s"
proof -
  obtain c p' where s': "s' = s\<lparr>cur_id := c, peer_list := peer_list s @ [p']\<rparr>" "wire os' = wire os @ map on_wire (introduction s p')"
    using new_conn_zero [OF E inv run] by blast
  have "p' = p" using l s'(1) by simp
  show inv': "server_inv s' os'" using new_conn_result [OF E(1) inv] run by (auto simp: conn_outcome_def)
  show "n_vectors s' = n_vectors s" using s'(1) by simp
  show "wire os' = wire os @ introduction s p"
    using s' \<open>p' = p\<close> introduction_on_wire [OF inv' l] by simp
  show "0 \<le> shm_fd s" using inv by (simp add: server_inv_def)
qed

text \<open>A connection attempt that fails sends nothing.\<close>

lemma new_conn_silent:
  assumes E: "server_env_ok E" "sends_succeed E" and inv: "server_inv s os"
    and run: "ivshmem_server_handle_new_conn E s os = Some (r, s', os')" and r: "r \<noteq> 0"
  shows "wire os' = wire os"
proof -
  obtain newfd os1 where a: "qemu_accept E (srv_sock_fd s) os = (newfd, os1)" by (metis surj_pair)
  then have w1: "wire os1 = wire os" using server_env_okD(1) [OF E(1) a] by (simp add: opens_one_def)
  obtain ok s1 where u: "unused_id (2 ^ 16 - 1) s = (ok, s1)" by (metis surj_pair)
  obtain c where c: "s1 = s\<lparr>cur_id := c\<rparr>" using unused_id_result [OF u] by auto
  let ?s = "s\<lparr>cur_id := c + 1\<rparr>" and ?vs = "replicate IVSHMEM_SERVER_MAX_VECTORS \<lparr>rfd = 0, wfd = 0\<rparr>"
  have "0 + unat (n_vectors s) \<le> length ?vs" using inv by (simp add: server_inv_def)
  from init_vectors_result [OF E(1) this, of os1] obtain ok2 j vs os2 where
    i: "init_vectors E (unat (n_vectors s)) 0 ?vs os1 = Some (ok2, j, vs, os2)" by (elim exE conjE)
  let ?p = "\<lparr>sp_sock_fd = newfd, sp_id = int (unat c), sp_vectors = vs, sp_vectors_count = n_vectors s\<rparr>"
  obtain os3 where g: "ivshmem_server_send_initial_info E ?s ?p os2 = (0, os3)"
    using send_initial_info_wire [OF E, of ?s ?p os2] by auto
  show ?thesis using run r a u i g w1 init_vectors_wire [OF E(1) i]
    by (cases ok; cases ok2) (auto simp: ivshmem_server_handle_new_conn_def new_conn_peer_def c Let_def new_conn_fail_def
        cleanup_vectors_wire [OF E(1)] simp del: replicate.simps split: if_splits)
qed

text \<open>What a connection attempt tells everyone.\<close>

lemma new_conn_told:
  assumes E: "server_env_ok E" "sends_succeed E" and inv: "server_inv s os"
    and run: "ivshmem_server_handle_new_conn E s os = Some (r, s', os')"
  shows "\<exists>ws. wire os' = wire os @ ws \<and> server_inv s' os' \<and> n_vectors s' = n_vectors s \<and> srv_sock_fd s' = srv_sock_fd s \<and>
    set (peer_list s) \<subseteq> set (peer_list s') \<and>
    (0 < unat (n_vectors s) \<longrightarrow> (\<forall>q \<in> set (peer_list s'). if q \<in> set (peer_list s) then told s s' ws q else joined s' ws q))"
proof -
  have o: "conn_outcome s os r s' os'" using new_conn_result [OF E(1) inv] run by auto
  then obtain c l where s': "s' = s\<lparr>cur_id := c, peer_list := l\<rparr>" by (auto simp: conn_outcome_def)
  show ?thesis
  proof (cases "r = 0")
    case True
    then obtain p where l: "peer_list s' = peer_list s @ [p]" using o by (auto simp: conn_outcome_def)
    note st = new_conn_state [OF E inv run [unfolded True] l]
    have "told s s' (introduction s p) q" if "0 < unat (n_vectors s)" "q \<in> set (peer_list s)" for q
      unfolding told_def using old_client_learns [OF st(1) l st(2) that] by blast
    moreover have "joined s' (introduction s p) p" if "0 < unat (n_vectors s)"
      unfolding joined_def using new_client_learns [OF st(1) l st(2) that _ st(4)] by blast
    ultimately show ?thesis using st l s' by (intro exI [of _ "introduction s p"]) auto
  next
    case False
    then have l: "peer_list s' = peer_list s" "server_inv s' os'" using o by (simp_all add: conn_outcome_def)
    then show ?thesis using new_conn_silent [OF E inv run False] told_nothing [of s' s] s' by (intro exI [of _ "[]"]) auto
  qed
qed

text \<open>What it tells the others when clients are dropped.\<close>

lemma free_peers_told:
  assumes E: "server_env_ok E" "sends_succeed E"
  shows "server_inv s os \<Longrightarrow> distinct ps \<Longrightarrow> set ps \<subseteq> set (peer_list s) \<Longrightarrow> free_peers E ps s os = (s', os') \<Longrightarrow>
    \<exists>ws. wire os' = wire os @ ws \<and> (\<forall>q \<in> set (peer_list s'). q \<in> set (peer_list s) \<and> told s s' ws q)"
proof (induction ps arbitrary: s os)
  case Nil
  then show ?case using told_nothing [of s s] by (intro exI [of _ "[]"]) auto
next
  case (Cons p ps)
  obtain s1 os1 where f: "ivshmem_server_free_peer E p s os = (s1, os1)" by (metis surj_pair)
  have p: "p \<in> set (peer_list s)" using Cons.prems(3) by simp
  have r: "s1 = s\<lparr>peer_list := remove1 p (peer_list s)\<rparr>" "server_inv s1 os1"
    using free_peer_result [OF E(1) Cons.prems(1) p f] by blast+
  define W :: "(int \<times> int \<times> int) list" where "W = map (\<lambda>r. (sp_sock_fd r, sp_id p, - 1)) (remove1 p (peer_list s))"
  have W: "wire os1 = wire os @ W" using free_peer_wire [OF E f] by (simp add: W_def)
  have told1: "told s s1 W q" if "q \<in> set (peer_list s1)" for q
    unfolding told_def W_def using client_forgets [OF Cons.prems(1) p _ _] that r(1) by simp
  have "distinct (peer_list s)" using Cons.prems(1) by (auto simp: server_inv_def distinct_map)
  then have "set ps \<subseteq> set (peer_list s1)" using Cons.prems(2,3) r(1) by auto
  with Cons.IH [OF r(2) _ this] Cons.prems(2,4) f obtain ws where
    ws: "wire os' = wire os1 @ ws" "\<forall>q \<in> set (peer_list s'). q \<in> set (peer_list s1) \<and> told s1 s' ws q" by auto
  have "told s s' (W @ ws) q" if "q \<in> set (peer_list s')" for q using ws(2) that told_trans told1 by blast
  moreover have "set (peer_list s1) \<subseteq> set (peer_list s)" using r(1) set_remove1_subset by simp
  ultimately show ?case using ws W by (intro exI [of _ "W @ ws"]) auto
qed

lemma same_server:
  "s' = s\<lparr>peer_list := l\<rparr> \<Longrightarrow> n_vectors s' = n_vectors s \<and> srv_sock_fd s' = srv_sock_fd s"
  by simp

lemma handle_fds_told:
  assumes E: "server_env_ok E" "sends_succeed E" and inv: "server_inv s os"
    and run: "ivshmem_server_handle_fds E fds maxfd s os = Some (r, s', os')"
  shows "\<exists>ws. wire os' = wire os @ ws \<and> server_inv s' os' \<and> n_vectors s' = n_vectors s \<and> srv_sock_fd s' = srv_sock_fd s \<and>
    (0 < unat (n_vectors s) \<longrightarrow> (\<forall>q \<in> set (peer_list s'). if q \<in> set (peer_list s) then told s s' ws q else joined s' ws q))"
proof -
  let ?hit = "\<lambda>p. sp_sock_fd p < maxfd \<and> sp_sock_fd p \<in> fds"
  let ?R = "if srv_sock_fd s < maxfd \<and> srv_sock_fd s \<in> fds
    then do { (ret, s1, os1) \<leftarrow> ivshmem_server_handle_new_conn E s os; Some (ret < 0 \<and> errno os1 \<noteq> EINTR, s1, os1) }
    else Some (False, s, os)"
  define R where "R = ?R"
  have step: "R \<bind> (\<lambda>(bad, s1, os1). if bad then Some (- 1, s1, os1)
      else case free_peers E (filter ?hit (peer_list s1)) s1 os1 of (s2, os2) \<Rightarrow> Some (0, s2, os2)) = Some (r, s', os')"
    using run unfolding ivshmem_server_handle_fds_def R_def .
  then obtain x where x: "R = Some x" by (cases R) simp_all
  obtain bad s1 os1 where x': "x = (bad, s1, os1)" by (rule prod_cases3)
  have "R = Some (bad, s1, os1)"
    and rest: "(if bad then Some (- 1, s1, os1)
      else case free_peers E (filter ?hit (peer_list s1)) s1 os1 of (s2, os2) \<Rightarrow> Some (0, s2, os2)) = Some (r, s', os')"
    using step by (simp_all add: x x')
  then have R: "?R = Some (bad, s1, os1)" by (simp only: R_def)
  have "\<exists>ws. wire os1 = wire os @ ws \<and> server_inv s1 os1 \<and> n_vectors s1 = n_vectors s \<and> srv_sock_fd s1 = srv_sock_fd s \<and>
    set (peer_list s) \<subseteq> set (peer_list s1) \<and>
    (0 < unat (n_vectors s) \<longrightarrow> (\<forall>q \<in> set (peer_list s1). if q \<in> set (peer_list s) then told s s1 ws q else joined s1 ws q))"
  proof (cases "srv_sock_fd s < maxfd \<and> srv_sock_fd s \<in> fds")
    case True
    then obtain ret where "ivshmem_server_handle_new_conn E s os = Some (ret, s1, os1)" using R by (auto split: bind_splits)
    then show ?thesis by (rule new_conn_told [OF E inv])
  next
    case False
    then show ?thesis using R inv told_nothing [of s s] by (intro exI [of _ "[]"]) auto
  qed
  then obtain ws where w: "wire os1 = wire os @ ws" "server_inv s1 os1" "n_vectors s1 = n_vectors s" "srv_sock_fd s1 = srv_sock_fd s"
    and k': "0 < unat (n_vectors s) \<longrightarrow> (\<forall>q \<in> set (peer_list s1). if q \<in> set (peer_list s) then told s s1 ws q else joined s1 ws q)"
    by (elim exE conjE) (rule that)
  have k: "if q \<in> set (peer_list s) then told s s1 ws q else joined s1 ws q"
    if "0 < unat (n_vectors s)" "q \<in> set (peer_list s1)" for q
    using k' that by simp
  show ?thesis
  proof (cases bad)
    case True
    then have "s' = s1" "os' = os1" using rest by simp_all
    then show ?thesis using w k' by (intro exI [of _ ws]) simp
  next
    case False
    have d: "distinct (filter ?hit (peer_list s1))" using w(2) by (auto simp: server_inv_def distinct_map)
    have f: "free_peers E (filter ?hit (peer_list s1)) s1 os1 = (s', os')" using rest False by (auto split: prod.splits)
    have r: "s' = s1\<lparr>peer_list := peer_list s'\<rparr>" "server_inv s' os'" using free_peers_result [OF E(1) w(2) d _ f] by auto
    then have n: "n_vectors s' = n_vectors s" "srv_sock_fd s' = srv_sock_fd s" using w(3,4) same_server [OF r(1)] by simp_all
    obtain ws' where ws': "wire os' = wire os1 @ ws'" "\<forall>q \<in> set (peer_list s'). q \<in> set (peer_list s1) \<and> told s1 s' ws' q"
      using free_peers_told [OF E w(2) d _ f] by auto
    have "if q \<in> set (peer_list s) then told s s' (ws @ ws') q else joined s' (ws @ ws') q"
      if "0 < unat (n_vectors s)" "q \<in> set (peer_list s')" for q
      using k [OF that(1), of q] ws'(2) that(2) told_trans joined_told by (auto split: if_splits)
    then show ?thesis using ws'(1) w(1) r(2) n by (intro exI [of _ "ws @ ws'"]) auto
  qed
qed

lemma poll_pass_told:
  assumes E: "server_env_ok E" "sends_succeed E" and M: "main_env_ok M" and inv: "server_inv s os"
    and run: "server_poll_pass E M (s, os) = Some (go, r, s', os')"
  shows "\<exists>ws. wire os' = wire os @ ws \<and> server_inv s' os' \<and> n_vectors s' = n_vectors s \<and> srv_sock_fd s' = srv_sock_fd s \<and>
    (0 < unat (n_vectors s) \<longrightarrow> (\<forall>q \<in> set (peer_list s'). if q \<in> set (peer_list s) then told s s' ws q else joined s' ws q))"
proof -
  obtain fds maxfd where g: "ivshmem_server_get_fds s ({}, 0) = Some (fds, maxfd)"
    using run by (cases "ivshmem_server_get_fds s ({}, 0)") (auto simp: server_poll_pass_def)
  obtain ret fds1 os1 where sel: "select_fds M maxfd fds os = (ret, fds1, os1)" by (metis surj_pair)
  have os1: "wire os1 = wire os" "open_fds os1 = open_fds os"
    using M sel unfolding main_env_ok_def opens_none_def by (metis snd_conv)+
  note inv1 = server_inv_open [OF inv os1(2)]
  consider "s' = s" "os' = os1" | ret2 where "ivshmem_server_handle_fds E fds1 maxfd s os1 = Some (ret2, s', os')"
  proof (cases "0 < ret")
    case True
    then obtain x where x: "ivshmem_server_handle_fds E fds1 maxfd s os1 = Some x"
      using run g sel by (cases "ivshmem_server_handle_fds E fds1 maxfd s os1") (simp_all add: server_poll_pass_def)
    obtain ret2 s2 os2 where "x = (ret2, s2, os2)" by (rule prod_cases3)
    then have "ivshmem_server_handle_fds E fds1 maxfd s os1 = Some (ret2, s', os')"
      using x run g sel True by (simp add: server_poll_pass_def)
    then show ?thesis by (rule that(2))
  next
    case False
    then have "s' = s \<and> os' = os1" using run g sel by (simp add: server_poll_pass_def split: if_splits)
    then show ?thesis using that(1) by blast
  qed
  then show ?thesis
  proof cases
    case 1
    then show ?thesis using os1(1) inv1 told_nothing [of s s] by (intro exI [of _ "[]"]) auto
  next
    case 2
    then show ?thesis using handle_fds_told [OF E inv1 2] os1(1) by simp
  qed
qed

text \<open>
  In every reachable state of a server with at least one vector every client knows exactly
  the others.
\<close>

lemma fabric_invariant:
  assumes E: "server_env_ok E" "sends_succeed E" and M: "main_env_ok M" and C: "recv_ok C"
  shows "fabric E M C s os cl g \<Longrightarrow> server_inv s os \<and> 0 \<le> srv_sock_fd s \<and> (0 < unat (n_vectors s) \<longrightarrow> all_know s cl g)"
proof (induction rule: fabric.induct)
  case (idle s os cl g)
  then show ?case by (simp add: all_know_def)
next
  case (pass s os cl g go r s' os' ws g' cl')
  then have inv: "server_inv s os" "0 \<le> srv_sock_fd s" by simp_all
  from poll_pass_told [OF E M inv(1) pass.hyps(2)] obtain ws' where
    t: "wire os' = wire os @ ws'" "server_inv s' os'" "n_vectors s' = n_vectors s" "srv_sock_fd s' = srv_sock_fd s"
    "0 < unat (n_vectors s) \<longrightarrow> (\<forall>q \<in> set (peer_list s'). if q \<in> set (peer_list s) then told s s' ws' q else joined s' ws' q)"
    by (elim exE conjE) (rule that)
  then have ws: "ws' = ws" using pass.hyps(3) by simp
  have "client_inv (cl' (sp_id q)) \<and> knows s' (g' (sp_id q)) q (abs_client (cl' (sp_id q)))"
    if n: "0 < unat (n_vectors s)" and q: "q \<in> set (peer_list s')" for q
  proof (cases "q \<in> set (peer_list s)")
    case True
    have kn: "all_know s cl g" using pass.IH n by simp
    have r: "client_reads C (messages_to (sp_sock_fd q) ws) (g (sp_id q)) (cl (sp_id q)) (g' (sp_id q)) (cl' (sp_id q))"
      using pass.hyps(4) q True by simp
    have k: "knows s (g' (sp_id q)) q (abs_client (cl (sp_id q)))" using all_know_reads [OF kn True r] .
    have "told s s' ws q" using bspec [OF mp [OF t(5) n] q, unfolded if_P [OF True]] ws by simp
    then show ?thesis using kn True k unfolding told_def all_know_def
      by (intro client_reads_run(1) [OF C _ _ r]) auto
  next
    case False
    then obtain ms' c os0 c1 os1 os2 where j: "renumbered (g' (sp_id q)) (messages_to (sp_sock_fd q) ws) ms'" "unconnected c" "inbox os0 = ms'"
      "client_greeting C c os0 = Some (0, c1, os1)" "read_msgs C (length ms' - 3) c1 os1 = Some (cl' (sp_id q), os2)"
      using bspec [OF pass.hyps(4) q, unfolded if_not_P [OF False] client_joins_def] by blast
    have "joined s' ws q" using bspec [OF mp [OF t(5) n] q, unfolded if_not_P [OF False]] ws by simp
    moreover have "0 \<le> sp_id q" using t(2) q by (simp add: server_inv_def)
    ultimately have "joined s' ws q" "0 \<le> sp_id q" by simp_all
    from joined_run [OF C this j(2,1,3)] show ?thesis using j(4,5) by auto
  qed
  then show ?case using t(2-4) inv(2) by (simp add: all_know_def)
qed

section \<open>New clients are admitted\<close>

text \<open>A new peer is the connection that was accepted.\<close>

lemma new_conn_sock:
  assumes run: "ivshmem_server_handle_new_conn E s os = Some (r, s', os')" and l: "peer_list s' = peer_list s @ [p]"
  shows "sp_sock_fd p = fst (qemu_accept E (srv_sock_fd s) os)"
proof -
  obtain newfd os1 where a: "qemu_accept E (srv_sock_fd s) os = (newfd, os1)" by (metis surj_pair)
  obtain ok s1 where u: "unused_id (2 ^ 16 - 1) s = (ok, s1)" by (metis surj_pair)
  obtain c where c: "s1 = s\<lparr>cur_id := c\<rparr>" using unused_id_result [OF u] by auto
  let ?s = "s\<lparr>cur_id := c + 1\<rparr>" and ?vs = "replicate IVSHMEM_SERVER_MAX_VECTORS \<lparr>rfd = 0, wfd = 0\<rparr>"
  show ?thesis
  proof (cases "init_vectors E (unat (n_vectors s)) 0 ?vs os1")
    case None
    then show ?thesis using run l a u by (cases ok) (auto simp: ivshmem_server_handle_new_conn_def new_conn_peer_def c Let_def
        simp del: replicate.simps split: if_splits)
  next
    case (Some x)
    obtain ok2 j vs os2 where x: "x = (ok2, j, vs, os2)" by (rule prod_cases4)
    let ?p = "\<lparr>sp_sock_fd = newfd, sp_id = int (unat c), sp_vectors = vs, sp_vectors_count = n_vectors s\<rparr>"
    obtain ret os3 where "ivshmem_server_send_initial_info E ?s ?p os2 = (ret, os3)" by (metis surj_pair)
    then show ?thesis using run l a u Some x
      by (cases ok; cases ok2) (auto simp: ivshmem_server_handle_new_conn_def new_conn_peer_def c Let_def new_conn_fail_def
          simp del: replicate.simps split: if_splits)
  qed
qed

text \<open>There is always a way to number new descriptors.\<close>

lemma renumbered_exists: "finite H \<Longrightarrow> \<exists>g' ms'. renumbered g' ms ms' \<and> (\<forall>f \<in> H. g' f = g f)"
proof (induction ms arbitrary: H g)
  case (Cons m ms)
  obtain n where n: "n \<notin> H" "0 \<le> n"
  proof
    show "Max (insert 0 H) + 1 \<notin> H" using Cons.prems by (metis Max_ge add_le_same_cancel1 finite_insert insertI2 not_one_le_zero)
    show "0 \<le> Max (insert 0 H) + 1" using Cons.prems Max_ge [of "insert 0 H" 0] by simp
  qed
  obtain g' ms' where r: "renumbered g' ms ms'" "\<forall>f \<in> insert n H. g' f = (g(n := snd m)) f"
    using Cons.IH [of "insert n H" "g(n := snd m)"] Cons.prems by auto
  have "renumbered g' (m # ms) ((fst m, if snd m < 0 then - 1 else n) # ms')" using r n(2) by (simp add: renumbered_def)
  moreover have "\<forall>f \<in> H. g' f = g f" using r(2) n(1) by auto
  ultimately show ?case by blast
qed (auto simp: renumbered_def)

lemma finite_held: "finite (held v)"
  by (simp add: held_def)

lemma with_inbox: "\<exists>os :: sock_os. inbox os = ms"
  by (rule exI [of _ "\<lparr>open_fds = {}, wire = [], inbox = ms, kicks = [], errno = 0\<rparr>"]) simp

text \<open>All clients can read what the server tells them, and a new one its greeting.\<close>

lemma told_accepted:
  assumes C: "recv_ok C" and c: "client_inv c" "knows s g q (abs_client c)" and t: "told s s' ws q"
  shows "\<exists>g' c'. client_reads C (messages_to (sp_sock_fd q) ws) g c g' c'"
proof -
  obtain g' ms where ms: "renumbered g' (messages_to (sp_sock_fd q) ws) ms"
    and g': "\<forall>f \<in> held (abs_client c). g' f = g f" using renumbered_exists [OF finite_held] by blast
  obtain co :: sock_os where co: "inbox co = ms" using with_inbox by blast
  have "\<exists>v. view_msgs ms' (abs_client c) = Some v \<and> knows s' g' q v"
    if "renumbered g' (messages_to (sp_sock_fd q) ws) ms'" for ms'
    using t knows_cong [OF c(2) g'] that unfolding told_def by blast
  from client_reads_run(2) [OF C c(1) this ms co] show ?thesis unfolding client_reads_def using g' ms co by blast
qed

lemma joined_accepted:
  assumes C: "recv_ok C" and j: "joined s' ws p" and id: "0 \<le> sp_id p"
  shows "\<exists>g' c'. client_joins C (messages_to (sp_sock_fd p) ws) g' c'"
proof -
  obtain gp ms where ms: "renumbered gp (messages_to (sp_sock_fd p) ws) ms" using renumbered_exists [of "{}"] by blast
  obtain co :: sock_os where co: "inbox co = ms" using with_inbox by blast
  show ?thesis using joined_run [OF C j id demo_unconnected_ok ms co] ms co demo_unconnected_ok
    unfolding client_joins_def by blast
qed

text \<open>So whatever a pass of the main loop does, the clients can follow it.\<close>

lemma fabric_follows:
  assumes E: "server_env_ok E" "sends_succeed E" and M: "main_env_ok M" and C: "recv_ok C" and F: "fabric E M C s os cl g"
    and n: "0 < unat (n_vectors s)" and run: "server_poll_pass E M (s, os) = Some (go, r, s', os')"
  shows "\<exists>cl' g'. fabric E M C s' os' cl' g'"
proof -
  have inv: "server_inv s os" and kn: "all_know s cl g" using fabric_invariant [OF E M C F] n by simp_all
  obtain ws where t: "wire os' = wire os @ ws" "server_inv s' os'"
    "\<forall>q \<in> set (peer_list s'). if q \<in> set (peer_list s) then told s s' ws q else joined s' ws q"
    using poll_pass_told [OF E M inv run] n by blast
  let ?to = "\<lambda>q. messages_to (sp_sock_fd q) ws"
  have "\<forall>q \<in> set (peer_list s'). \<exists>x. if q \<in> set (peer_list s)
      then client_reads C (?to q) (g (sp_id q)) (cl (sp_id q)) (fst x) (snd x) else client_joins C (?to q) (fst x) (snd x)"
  proof
    fix q assume q: "q \<in> set (peer_list s')"
    then have "0 \<le> sp_id q" using t(2) by (simp add: server_inv_def)
    then show "\<exists>x. if q \<in> set (peer_list s)
      then client_reads C (?to q) (g (sp_id q)) (cl (sp_id q)) (fst x) (snd x) else client_joins C (?to q) (fst x) (snd x)"
      using t(3) q kn told_accepted [OF C, of "cl (sp_id q)" s "g (sp_id q)" q s' ws] joined_accepted [OF C, of s' ws q]
      by (cases "q \<in> set (peer_list s)") (simp_all add: all_know_def)
  qed
  from bchoice [OF this] obtain x where x: "\<forall>q \<in> set (peer_list s'). if q \<in> set (peer_list s)
      then client_reads C (?to q) (g (sp_id q)) (cl (sp_id q)) (fst (x q)) (snd (x q)) else client_joins C (?to q) (fst (x q)) (snd (x q))"
    by blast
  define y where "y i = x (the (ivshmem_server_search_peer s' i))" for i
  have "distinct (map sp_id (peer_list s'))" using t(2) by (simp add: server_inv_def)
  then have "ivshmem_server_search_peer s' (sp_id q) = Some q" if "q \<in> set (peer_list s')" for q
    using that by (auto simp: ivshmem_server_search_peer_def find_Some_iff distinct_conv_nth in_set_conv_nth)
  then have "\<forall>q \<in> set (peer_list s'). y (sp_id q) = x q" by (simp add: y_def)
  then have "fabric E M C s' os' (snd \<circ> y) (fst \<circ> y)"
    using x by (intro fabric.pass [OF F run t(1)]) simp
  then show ?thesis by blast
qed

text \<open>A pass in which only the listening socket is ready.\<close>

lemma accepting_pass:
  assumes E: "server_env_ok E" "calls_succeed E" and M: "main_env_ok M" and inv: "server_inv s os"
    and fin: "finite (open_fds os)" and room: "length (peer_list s) < 2 ^ 16 - 1"
    and fds: "ivshmem_server_get_fds s ({}, 0) = Some (fds, maxfd)" "srv_sock_fd s < maxfd"
    and sel: "select_fds M maxfd fds os = (ret, {srv_sock_fd s}, os1)" "0 < ret"
  shows "\<exists>s' os' p. server_poll_pass E M (s, os) = Some (True, ret, s', os') \<and> peer_list s' = peer_list s @ [p] \<and>
    sp_sock_fd p = fst (qemu_accept E (srv_sock_fd s) os1) \<and> finite (open_fds os')"
proof -
  have o: "open_fds os1 = open_fds os" using M sel unfolding main_env_ok_def opens_none_def by (metis snd_conv)
  note inv1 = server_inv_open [OF inv o]
  obtain s' os' where run: "ivshmem_server_handle_new_conn E s os1 = Some (0, s', os')"
    using new_conn_succeeds [OF E inv1 _ room] fin o by auto
  obtain p where l: "peer_list s' = peer_list s @ [p]" "open_fds os' = open_fds os1 \<union> peer_fds p" "server_inv s' os'"
    using new_conn_result [OF E(1) inv1] run by (auto simp: conn_outcome_def)
  have "conn_outcome s os1 0 s' os'" using new_conn_result [OF E(1) inv1] run by auto
  then obtain c where "s' = s\<lparr>cur_id := c, peer_list := peer_list s'\<rparr>" by (auto simp: conn_outcome_def)
  then have "srv_sock_fd s' = srv_sock_fd s" by (rule ssubst) simp
  then have "sp_sock_fd q \<noteq> srv_sock_fd s" if "q \<in> set (peer_list s')" for q
    using l(3) that by (auto simp: server_inv_def peers_fds_def peer_fds_def)
  then have "filter (\<lambda>q. sp_sock_fd q < maxfd \<and> sp_sock_fd q = srv_sock_fd s) (peer_list s') = []" by (auto simp: filter_empty_conv)
  then have "server_poll_pass E M (s, os) = Some (True, ret, s', os')"
    using fds sel run by (simp add: server_poll_pass_def ivshmem_server_handle_fds_def)
  moreover have "finite (open_fds os')" using fin o by (simp add: l(2) peer_fds_def notifier_fds_def)
  ultimately show ?thesis using l(1) new_conn_sock [OF run l(1)] by blast
qed

text \<open>The descriptors the server watches, and what \<open>FD_SET\<close> makes of them.\<close>

definition watched :: "ivshmem_server \<Rightarrow> int list" where
  "watched s = srv_sock_fd s # map sp_sock_fd (peer_list s)"

lemma get_fds_watched:
  assumes "0 \<le> srv_sock_fd s"
  shows "(\<forall>fd \<in> set (watched s). 0 \<le> fd \<and> fd < FD_SETSIZE) \<Longrightarrow>
      \<exists>maxfd. ivshmem_server_get_fds s ({}, 0) = Some (set (watched s), maxfd) \<and> srv_sock_fd s < maxfd"
    and "\<not> (\<forall>fd \<in> set (watched s). 0 \<le> fd \<and> fd < FD_SETSIZE) \<Longrightarrow> server_poll_pass E M (s, os) = None"
proof -
  have g: "ivshmem_server_get_fds s ({}, 0) = add_fds (watched s) ({}, 0)"
    using assms by (simp add: ivshmem_server_get_fds_def watched_def)
  show "\<exists>maxfd. ivshmem_server_get_fds s ({}, 0) = Some (set (watched s), maxfd) \<and> srv_sock_fd s < maxfd"
    if "\<forall>fd \<in> set (watched s). 0 \<le> fd \<and> fd < FD_SETSIZE"
    using add_fds_result [OF that, of "{}" 0] unfolding g by (auto simp: watched_def)
  show "server_poll_pass E M (s, os) = None" if "\<not> (\<forall>fd \<in> set (watched s). 0 \<le> fd \<and> fd < FD_SETSIZE)"
    using that add_fds_too_large [of _ "watched s"] by (auto simp: server_poll_pass_def g)
qed

lemma fabric_can_join:
  assumes E: "server_env_ok E" "calls_succeed E" and M: "main_env_ok M" and C: "recv_ok C" and F: "fabric E M C s os cl g"
    and n: "0 < unat (n_vectors s)" and fin: "finite (open_fds os)" and room: "length (peer_list s) < 2 ^ 16 - 1"
    and fds: "\<forall>fd \<in> set (watched s). 0 \<le> fd \<and> fd < FD_SETSIZE"
  shows "\<exists>maxfd. ivshmem_server_get_fds s ({}, 0) = Some (set (watched s), maxfd) \<and>
    (\<forall>ret os1. select_fds M maxfd (set (watched s)) os = (ret, {srv_sock_fd s}, os1) \<longrightarrow> 0 < ret \<longrightarrow>
      (\<exists>s' os' cl' g' p. server_poll_pass E M (s, os) = Some (True, ret, s', os') \<and> fabric E M C s' os' cl' g' \<and>
         peer_list s' = peer_list s @ [p] \<and> sp_sock_fd p = fst (qemu_accept E (srv_sock_fd s) os1) \<and> finite (open_fds os')))"
proof -
  have S: "sends_succeed E" using E(2) by (simp add: calls_succeed_def)
  have inv: "server_inv s os" "0 \<le> srv_sock_fd s" using fabric_invariant [OF E(1) S M C F] by simp_all
  obtain maxfd where g: "ivshmem_server_get_fds s ({}, 0) = Some (set (watched s), maxfd)" "srv_sock_fd s < maxfd"
    using get_fds_watched(1) [OF inv(2) fds] by blast
  show ?thesis
  proof (intro exI [of _ maxfd] conjI allI impI)
    fix ret os1
    assume "select_fds M maxfd (set (watched s)) os = (ret, {srv_sock_fd s}, os1)" "0 < ret"
    from accepting_pass [OF E M inv(1) fin room g this] obtain s' os' p where
      a: "server_poll_pass E M (s, os) = Some (True, ret, s', os')" "peer_list s' = peer_list s @ [p]"
      "sp_sock_fd p = fst (qemu_accept E (srv_sock_fd s) os1)" "finite (open_fds os')" by blast
    with fabric_follows [OF E(1) S M C F n a(1)]
    show "\<exists>s' os' cl' g' p. server_poll_pass E M (s, os) = Some (True, ret, s', os') \<and> fabric E M C s' os' cl' g' \<and>
       peer_list s' = peer_list s @ [p] \<and> sp_sock_fd p = fst (qemu_accept E (srv_sock_fd s) os1) \<and> finite (open_fds os')" by blast
  qed (rule g(1))
qed

section \<open>Interrupts arrive\<close>

lemma knows_fds:
  assumes kn: "knows s g q v" and inv: "server_inv s os" and p: "p \<in> set (peer_list s)" and ne: "sp_id p \<noteq> sp_id q"
  shows "\<exists>fs. map_of (peers v) (sp_id p) = Some fs \<and> map g fs = map wfd (vectors_upto (n_vectors s) p)"
proof -
  have "renamed g ` set (peers v) = announced s ` set (filter (\<lambda>p. sp_id p \<noteq> sp_id q) (peer_list s))"
    using kn unfolding knows_def by (metis set_map)
  then have "announced s p \<in> renamed g ` set (peers v)" using p ne by simp
  then obtain fs where fs: "(sp_id p, fs) \<in> set (peers v)" "map g fs = map wfd (vectors_upto (n_vectors s) p)"
    by (auto simp: announced_def renamed_def)
  have "distinct (map sp_id (peer_list s))" using inv by (simp add: server_inv_def)
  then have "distinct (map fst (peers v))" by (simp add: knows_ids(1) [OF kn] distinct_map_filter)
  then show ?thesis using fs by auto
qed

text \<open>
  A client that notifies vector \<open>v\<close> of another one writes to the eventfd of that vector,
  on whose other end the other client waits with its own descriptor for \<open>v\<close>.
\<close>

lemma doorbell_rings:
  assumes inv: "server_inv s os" and kn: "all_know s cl g" and C: "kick_ok C"
    and q: "q \<in> set (peer_list s)" and p: "p \<in> set (peer_list s)" and ne: "sp_id p \<noteq> sp_id q" and v: "v < n_vectors s"
  shows "\<exists>ref fd. ivshmem_client_search_peer (cl (sp_id q)) (sp_id p) = Some ref \<and>
    ivshmem_client_notify C (get_peer (cl (sp_id q)) ref) v co = (0, co\<lparr>kicks := kicks co @ [fd]\<rparr>) \<and>
    g (sp_id q) fd = wfd (sp_vectors p ! unat v)"
    and "unat v < length (own_fds (abs_client (cl (sp_id p)))) \<and>
      g (sp_id p) (own_fds (abs_client (cl (sp_id p))) ! unat v) = rfd (sp_vectors p ! unat v)"
proof -
  let ?c = "cl (sp_id q)"
  have c: "client_inv ?c" "knows s (g (sp_id q)) q (abs_client ?c)" "knows s (g (sp_id p)) p (abs_client (cl (sp_id p)))"
    using kn q p by (simp_all add: all_know_def)
  have n: "unat v < unat (n_vectors s)" using v by (simp add: word_less_nat_alt)
  have vec: "length (vectors_upto (n_vectors s) p) = unat (n_vectors s)" "vectors_upto (n_vectors s) p ! unat v = sp_vectors p ! unat v"
    using server_inv_vectors(1) [OF inv p] n by (simp_all add: vectors_upto_def)
  obtain fs where fs: "map_of (peers (abs_client ?c)) (sp_id p) = Some fs" "map (g (sp_id q)) fs = map wfd (vectors_upto (n_vectors s) p)"
    using knows_fds [OF c(2) inv p ne] by blast
  have len: "length fs = unat (n_vectors s)" using arg_cong [OF fs(2), of length] vec(1) by simp
  have fd: "g (sp_id q) (fs ! unat v) = wfd (sp_vectors p ! unat v)"
    using arg_cong [OF fs(2), of "\<lambda>l. l ! unat v"] n len vec by simp
  have own: "sp_id p \<noteq> own_id (abs_client ?c)" using c(2) ne by (simp add: knows_def)
  then have "fds_of (abs_client ?c) (sp_id p) = fs" using fs(1) by (simp add: fds_of_def)
  moreover have "sp_id p \<in> fst ` set (peers (abs_client ?c))" using fs(1) by (metis map_of_eq_None_iff option.distinct(1))
  ultimately obtain k where k: "ivshmem_client_search_peer ?c (sp_id p) = Some (Listed k)" "index_of_peer (sp_id p) (c_peer_list ?c) = Some k"
    "snd (peer_view (c_peer_list ?c ! k)) = fs" using own by (cases rule: search_peer_cases [OF c(1), of "sp_id p"]) auto
  have "peer_ok (c_peer_list ?c ! k)" using c(1) index_of_peer_Some [OF k(2)] by (simp add: client_inv_def)
  from notify_run [OF C this, of v co] have "ivshmem_client_notify C (get_peer ?c (Listed k)) v co = (0, co\<lparr>kicks := kicks co @ [fs ! unat v]\<rparr>)"
    using n len k(3) by (simp add: get_peer_def)
  then show "\<exists>ref fd. ivshmem_client_search_peer ?c (sp_id p) = Some ref \<and>
      ivshmem_client_notify C (get_peer ?c ref) v co = (0, co\<lparr>kicks := kicks co @ [fd]\<rparr>) \<and> g (sp_id q) fd = wfd (sp_vectors p ! unat v)"
    using k(1) fd by blast
  have own: "map (g (sp_id p)) (own_fds (abs_client (cl (sp_id p)))) = map rfd (vectors_upto (n_vectors s) p)" using c(3) by (simp add: knows_def)
  have "length (own_fds (abs_client (cl (sp_id p)))) = unat (n_vectors s)"
    using arg_cong [OF own, of length] vec(1) by simp
  then show "unat v < length (own_fds (abs_client (cl (sp_id p)))) \<and>
      g (sp_id p) (own_fds (abs_client (cl (sp_id p))) ! unat v) = rfd (sp_vectors p ! unat v)"
    using arg_cong [OF own, of "\<lambda>l. l ! unat v"] n vec by simp
qed

section \<open>Claims\<close>

text \<open>
  C24. A server that was started with at least one vector, whose sends to connected clients
  succeed: in every state the passes of its main loop can lead to, with clients connecting
  and leaving in any order, calls that open something failing, and every descriptor
  renumbered on its way, every client that has read what was sent to it knows exactly the
  other clients, in the order they connected: their ids, with the eventfds they were
  introduced with, and its own id with its own eventfds. (The option parser also accepts no
  vectors; then nobody is introduced to anybody.)
\<close>

theorem clients_know_each_other:
  assumes "server_env_ok E" and "sends_succeed E" and "main_env_ok M" and "recv_ok C" and "fabric E M C s os cl g"
    and "0 < unat (n_vectors s)" and "q \<in> set (peer_list s)" and "v = abs_client (cl (sp_id q))"
  shows "own_id v = sp_id q \<and> map (g (sp_id q)) (own_fds v) = map rfd (vectors_upto (n_vectors s) q) \<and>
    map (renamed (g (sp_id q))) (peers v) =
      map (\<lambda>p. (sp_id p, map wfd (vectors_upto (n_vectors s) p))) (filter (\<lambda>p. sp_id p \<noteq> sp_id q) (peer_list s))"
  using fabric_invariant [OF assms(1-5)] assms(6-8) by (simp add: all_know_def knows_def announced_def [abs_def])

text \<open>An example: \<open>select\<close> reports the listening socket each time.\<close>

definition demo_accepting :: main_env where
  "demo_accepting = demo_main\<lparr>select_fds := \<lambda>m fds os. (1, {3}, os)\<rparr>"

lemma demo_accepting_ok: "main_env_ok demo_accepting"
  using demo_main_ok by (simp add: main_env_ok_def demo_accepting_def opens_none_def)

lemma demo_idle: "fabric demo_server demo_accepting demo_client demo_state demo_os cl g"
  using demo_state_ok(1) by (intro fabric.idle) (simp_all add: demo_state_def)

lemma demo_next_fd: "finite (open_fds os) \<Longrightarrow> next_fd os = (Max (insert 2 (open_fds os)) + 1,
    os\<lparr>open_fds := insert (Max (insert 2 (open_fds os)) + 1) (open_fds os)\<rparr>)"
  by (simp add: next_fd_def)

lemma demo_two_clients:
  "\<exists>s os cl g q p. fabric demo_server demo_accepting demo_client s os cl g \<and> peer_list s = [q, p] \<and> sp_id p \<noteq> sp_id q \<and> n_vectors s = 2"
proof -
  note ok = demo_server_ok(1,3) demo_accepting_ok demo_client_ok(1)
  have S: "sends_succeed demo_server" by (rule demo_server_ok)
  have sel: "select_fds demo_accepting m fds os = (1, {3}, os)" for m fds os by (simp add: demo_accepting_def)
  have st: "srv_sock_fd demo_state = 3" "n_vectors demo_state = 2" "watched demo_state = [3]" "peer_list demo_state = []"
    by (simp_all add: demo_state_def watched_def)
  obtain s os cl g q where 1: "server_poll_pass demo_server demo_accepting (demo_state, demo_os) = Some (True, 1, s, os)"
    "fabric demo_server demo_accepting demo_client s os cl g" "peer_list s = [q]" "finite (open_fds os)"
    "sp_sock_fd q = fst (qemu_accept demo_server 3 demo_os)"
    using fabric_can_join [OF ok demo_idle _ demo_state_ok(2)] sel by (auto simp: st FD_SETSIZE_def)
  have s: "n_vectors s = 2" "srv_sock_fd s = 3"
    using poll_pass_told [OF ok(1) S ok(3) demo_state_ok(1) 1(1)] st by auto
  have "sp_sock_fd q = 5" using 1(5) by (simp add: demo_server_def demo_next_fd demo_os_def)
  then have w: "watched s = [3, 5]" using 1(3) s(2) by (simp add: watched_def)
  obtain s' os' cl' g' p where 2: "server_poll_pass demo_server demo_accepting (s, os) = Some (True, 1, s', os')"
    "fabric demo_server demo_accepting demo_client s' os' cl' g'" "peer_list s' = [q, p]"
    using fabric_can_join [OF ok 1(2) _ 1(4)] sel by (auto simp: s w 1(3) FD_SETSIZE_def)
  note inv = fabric_invariant [OF ok(1) S ok(3,4)]
  have "n_vectors s' = 2" using poll_pass_told [OF ok(1) S ok(3) _ 2(1)] inv [OF 1(2)] s by auto
  moreover have "sp_id p \<noteq> sp_id q" using inv [OF 2(2)] 2(3) by (auto simp: server_inv_def)
  ultimately show ?thesis using 2 by metis
qed

theorem clients_know_each_other_witness:
  "\<exists>s os cl g q p. fabric demo_server demo_accepting demo_client s os cl g \<and> peer_list s = [q, p] \<and>
     map fst (peers (abs_client (cl (sp_id q)))) = [sp_id p]"
proof -
  obtain s os cl g q p where f: "fabric demo_server demo_accepting demo_client s os cl g" "peer_list s = [q, p]" "sp_id p \<noteq> sp_id q" "n_vectors s = 2"
    using demo_two_clients by blast
  from clients_know_each_other [OF demo_server_ok(1,2) demo_accepting_ok demo_client_ok(1) f(1) _ _ refl, of q]
  have "map fst (map (renamed (g (sp_id q))) (peers (abs_client (cl (sp_id q))))) = [sp_id p]" using f(2-4) by simp
  then have "map fst (peers (abs_client (cl (sp_id q)))) = [sp_id p]" by (simp add: comp_def)
  with f(1,2) show ?thesis by (intro exI conjI)
qed

text \<open>
  C28. In every reachable state of a server with vectors whose calls succeed, while fewer than 65535
  clients are connected: if all descriptors the server watches fit into an \<open>fd_set\<close>, then it
  waits for all of them, and when \<open>select\<close> reports the listening socket alone, that pass of
  the main loop admits one more client, which accepts the greeting and all introductions, as
  do the clients that were there before. If one of them does not fit (a number of \<open>FD_SETSIZE\<close>
  or more), the pass is undefined: the loop does not check what it gives to \<open>FD_SET\<close>.
\<close>

theorem new_clients_are_admitted:
  assumes "server_env_ok E" and "calls_succeed E" and "main_env_ok M" and "recv_ok C" and "fabric E M C s os cl g"
    and "0 < unat (n_vectors s)" and "finite (open_fds os)" and "length (peer_list s) < 2 ^ 16 - 1"
  shows "if \<forall>fd \<in> set (watched s). 0 \<le> fd \<and> fd < FD_SETSIZE
    then \<exists>maxfd. ivshmem_server_get_fds s ({}, 0) = Some (set (watched s), maxfd) \<and>
      (\<forall>ret os1. select_fds M maxfd (set (watched s)) os = (ret, {srv_sock_fd s}, os1) \<longrightarrow> 0 < ret \<longrightarrow>
        (\<exists>s' os' cl' g' p. server_poll_pass E M (s, os) = Some (True, ret, s', os') \<and> fabric E M C s' os' cl' g' \<and>
           peer_list s' = peer_list s @ [p]))
    else server_poll_pass E M (s, os) = None"
proof (cases "\<forall>fd \<in> set (watched s). 0 \<le> fd \<and> fd < FD_SETSIZE")
  case True
  from fabric_can_join [OF assms True] obtain maxfd where g: "ivshmem_server_get_fds s ({}, 0) = Some (set (watched s), maxfd)"
    and K: "\<And>ret os1. select_fds M maxfd (set (watched s)) os = (ret, {srv_sock_fd s}, os1) \<Longrightarrow> 0 < ret \<Longrightarrow>
      \<exists>s' os' cl' g' p. server_poll_pass E M (s, os) = Some (True, ret, s', os') \<and> fabric E M C s' os' cl' g' \<and>
        peer_list s' = peer_list s @ [p] \<and> sp_sock_fd p = fst (qemu_accept E (srv_sock_fd s) os1) \<and> finite (open_fds os')"
    by (elim exE conjE) simp
  show ?thesis unfolding if_P [OF True]
  proof (intro exI [of _ maxfd] conjI allI impI)
    fix ret os1
    assume "select_fds M maxfd (set (watched s)) os = (ret, {srv_sock_fd s}, os1)" "0 < ret"
    from K [OF this] show "\<exists>s' os' cl' g' p. server_poll_pass E M (s, os) = Some (True, ret, s', os') \<and>
      fabric E M C s' os' cl' g' \<and> peer_list s' = peer_list s @ [p]" by blast
  qed (rule g)
next
  case False
  have "sends_succeed E" using assms(2) by (simp add: calls_succeed_def)
  then have "0 \<le> srv_sock_fd s" using fabric_invariant [OF assms(1) _ assms(3-5)] by simp
  then show ?thesis using get_fds_watched(2) [of s E M os] False unfolding if_not_P [OF False] by blast
qed

theorem new_clients_are_admitted_witness:
  "\<exists>s' os' cl' g' p. server_poll_pass demo_server demo_accepting (demo_state, demo_os) = Some (True, 1, s', os') \<and>
     fabric demo_server demo_accepting demo_client s' os' cl' g' \<and> peer_list s' = [p]"
proof -
  have st: "0 < unat (n_vectors demo_state)" "length (peer_list demo_state) < 2 ^ 16 - 1" "peer_list demo_state = []"
    "srv_sock_fd demo_state = 3" "\<forall>fd \<in> set (watched demo_state). 0 \<le> fd \<and> fd < FD_SETSIZE"
    by (simp_all add: demo_state_def watched_def FD_SETSIZE_def)
  have sel: "select_fds demo_accepting m fds os = (1, {3}, os)" for m fds os by (simp add: demo_accepting_def)
  from new_clients_are_admitted [OF demo_server_ok(1,3) demo_accepting_ok demo_client_ok(1) demo_idle st(1) demo_state_ok(2) st(2),
      unfolded if_P [OF st(5)]] sel
  obtain s' os' cl' g' p where "server_poll_pass demo_server demo_accepting (demo_state, demo_os) = Some (True, 1, s', os')"
    "fabric demo_server demo_accepting demo_client s' os' cl' g'" "peer_list s' = peer_list demo_state @ [p]"
    unfolding st(4) by fastforce
  then show ?thesis unfolding st(3) append_Nil by blast
qed

text \<open>
  C29. In every reachable state a user of the client of \<open>q\<close> who types the command
  \<open>int\<close> with the id of another connected client \<open>p\<close> and the number of a vector makes it write
  once, to the eventfd of that vector of \<open>p\<close>; on the other end of that eventfd the client of
  \<open>p\<close> waits with its own descriptor of that number.
\<close>

theorem typed_command_rings_doorbell:
  assumes "server_env_ok E" and "sends_succeed E" and "main_env_ok W" and "recv_ok C" and "kick_ok C" and "fabric E W C s os cl g"
    and "q \<in> set (peer_list s)" and "p \<in> set (peer_list s)" and "sp_id p \<noteq> sp_id q" and "v < n_vectors s"
    and "read_stdin M co = (ret, int_command (sp_id p) (uint v) @ [CHR 0x0A], co1)" and "0 \<le> ret"
  shows "\<exists>fd. ivshmem_client_handle_stdin_command C M (cl (sp_id q)) co = Some (0, co1\<lparr>kicks := kicks co1 @ [fd]\<rparr>) \<and>
    g (sp_id q) fd = wfd (sp_vectors p ! unat v) \<and>
    g (sp_id p) (own_fds (abs_client (cl (sp_id p))) ! unat v) = rfd (sp_vectors p ! unat v)"
proof -
  have "0 < unat (n_vectors s)" using assms(10) by (simp add: word_less_nat_alt)
  then have inv: "server_inv s os" and kn: "all_know s cl g" using fabric_invariant [OF assms(1-4,6)] by simp_all
  note ring = doorbell_rings [OF inv kn assms(5,7,8,9,10)]
  have "0 \<le> sp_id p" "sp_id p < 2 ^ 16" using inv assms(8) by (simp_all add: server_inv_def)
  then have i: "is_int (sp_id p)" by (simp add: is_int_def)
  have "unat v < 64" using assms(10) inv by (simp add: server_inv_def IVSHMEM_SERVER_MAX_VECTORS_def word_less_nat_alt)
  then have "int (unat v) < 64" by linarith
  then have "uint v < 64" by simp
  then have v: "is_int (uint v)" unfolding is_int_def by (intro conjI) (rule order_trans [of _ 0], simp_all)
  obtain ref fd where "ivshmem_client_search_peer (cl (sp_id q)) (sp_id p) = Some ref"
    "ivshmem_client_notify C (get_peer (cl (sp_id q)) ref) v co1 = (0, co1\<lparr>kicks := kicks co1 @ [fd]\<rparr>)"
    "g (sp_id q) fd = wfd (sp_vectors p ! unat v)" using ring(1) [of co1] by blast
  then show ?thesis using stdin_int_command [OF i v assms(11,12)] ring(2) by auto
qed

theorem typed_command_rings_doorbell_witness:
  "\<exists>s os cl g q p M fd. fabric demo_server demo_accepting demo_client s os cl g \<and> peer_list s = [q, p] \<and>
     read_stdin M (demo_client_os []) = (8, int_command (sp_id p) 1 @ [CHR 0x0A], demo_client_os []) \<and>
     ivshmem_client_handle_stdin_command demo_client M (cl (sp_id q)) (demo_client_os []) = Some (0, (demo_client_os [])\<lparr>kicks := [fd]\<rparr>)"
proof -
  obtain s os cl g q p where f: "fabric demo_server demo_accepting demo_client s os cl g" "peer_list s = [q, p]" "sp_id p \<noteq> sp_id q" "n_vectors s = 2"
    using demo_two_clients by blast
  let ?M = "demo_client_main\<lparr>read_stdin := \<lambda>os. (8, int_command (sp_id p) 1 @ [CHR 0x0A], os)\<rparr>"
  have "q \<in> set (peer_list s)" "p \<in> set (peer_list s)" "1 < n_vectors s"
    "read_stdin ?M (demo_client_os []) = (8, int_command (sp_id p) (uint (1 :: u32)) @ [CHR 0x0A], demo_client_os [])"
    using f(2,4) by simp_all
  from typed_command_rings_doorbell [OF demo_server_ok(1,2) demo_accepting_ok demo_client_ok(1,3) f(1) this(1,2) f(3) this(3,4)]
  obtain fd where "ivshmem_client_handle_stdin_command demo_client ?M (cl (sp_id q)) (demo_client_os []) = Some (0, (demo_client_os [])\<lparr>kicks := [fd]\<rparr>)"
    by (auto simp: demo_client_os_def)
  moreover have "read_stdin ?M (demo_client_os []) = (8, int_command (sp_id p) 1 @ [CHR 0x0A], demo_client_os [])" by simp
  ultimately show ?thesis using f(1,2) by blast
qed

end
