(* ===== verification/Ivshmem_Print.thy ===== *)
theory Ivshmem_Print
  imports Ivshmem_Protocol
begin

text \<open>
  What the host programs print about their state: \<open>ivshmem_client_dump\<close> and
  \<open>ivshmem_server_dump\<close>, and what the client answers to a typed command. A dump is the list of
  its lines, one per call of \<open>printf\<close>; reading a vector past the end of the array has no
  result. Debug messages of the verbose mode are left out.
\<close>

section \<open>Dumps\<close>

definition id_line :: "string \<Rightarrow> int \<Rightarrow> string" where
  "id_line name i = name @ '' = '' @ dec_int i @ [CHR 0x0A]"

definition vector_line :: "nat \<times> int \<Rightarrow> string" where
  "vector_line vf = ''  vector '' @ dec_nat (fst vf) @ '' is enabled (fd='' @ dec_int (snd vf) @ '')'' @ [CHR 0x0A]"

text \<open>One peer: its id under a name, then its vectors.\<close>

definition peer_lines :: "string \<Rightarrow> int \<times> int list \<Rightarrow> string list" where
  "peer_lines name p = id_line name (fst p) # map vector_line (enumerate 0 (snd p))"

definition dump_client_peer :: "string \<Rightarrow> client_peer \<Rightarrow> string list option" where
  "dump_client_peer name p =
     (if unat (cp_vectors_count p) \<le> length (cp_vectors p)
      then Some (peer_lines name (cp_id p, take (unat (cp_vectors_count p)) (cp_vectors p))) else None)"

definition ivshmem_client_dump :: "ivshmem_client \<Rightarrow> string list option" where
  "ivshmem_client_dump c = do {
     own \<leftarrow> dump_client_peer ''our_id'' (c_local c);
     rest \<leftarrow> those (map (dump_client_peer ''peer_id'') (c_peer_list c));
     Some (own @ concat rest)
   }"

definition dump_server_peer :: "server_peer \<Rightarrow> string list option" where
  "dump_server_peer p =
     (if unat (sp_vectors_count p) \<le> length (sp_vectors p)
      then Some (peer_lines ''peer_id'' (sp_id p, map rfd (vectors_upto (sp_vectors_count p) p))) else None)"

definition ivshmem_server_dump :: "ivshmem_server \<Rightarrow> string list option" where
  "ivshmem_server_dump s = do {
     rest \<leftarrow> those (map dump_server_peer (peer_list s));
     Some (concat rest)
   }"

section \<open>Answers to typed commands\<close>

definition ivshmem_client_cmdline_help :: "string list" where
  "ivshmem_client_cmdline_help = [
     ''dump: dump peers (including us)'' @ [CHR 0x0A] @
     ''int <peer> <vector>: notify one vector on a peer'' @ [CHR 0x0A] @
     ''int <peer> all: notify all vectors of a peer'' @ [CHR 0x0A] @
     ''int all: notify all vectors of all peers (excepting us)'' @ [CHR 0x0A]]"

definition no_such_peer :: "ivshmem_client \<Rightarrow> int \<Rightarrow> string list" where
  "no_such_peer c i = (if ivshmem_client_search_peer c i = None then [''cannot find peer_id = '' @ dec_int i @ [CHR 0x0A]] else [])"

text \<open>The test for \<open>?\<close> is no branch of the chain that follows.\<close>

definition command_answer :: "ivshmem_client \<Rightarrow> string \<Rightarrow> string list option" where
  "command_answer c token =
     (if token = [] then Some []
      else do {
        let first = (if token = ''?'' then ivshmem_client_cmdline_help else []);
        rest \<leftarrow>
          (if token = ''help'' then Some ivshmem_client_cmdline_help
           else if token = ''dump'' then ivshmem_client_dump c
           else if token = ''int all'' then Some []
           else if \<not> list_all is_int (sscanf_int_d_d token) then None
           else case sscanf_int_d_d token of
             [peer_id, _] \<Rightarrow> Some (no_such_peer c peer_id)
           | _ \<Rightarrow>
               (case sscanf_int_d_all token of
                  [peer_id] \<Rightarrow> Some (no_such_peer c peer_id)
                | _ \<Rightarrow> Some [''invalid command, type help'' @ [CHR 0x0A]]));
        Some (first @ rest)
      })"

definition ivshmem_client_notification_cb :: "int \<Rightarrow> nat \<Rightarrow> string" where
  "ivshmem_client_notification_cb i vect =
     ''receive notification from peer_id='' @ dec_int i @ '' vector='' @ dec_nat vect @ [CHR 0x0A]"

section \<open>What a dump shows\<close>

lemma those_map_Some: "(\<And>x. x \<in> set xs \<Longrightarrow> f x = Some (g x)) \<Longrightarrow> those (map f xs) = Some (map g xs)"
  by (induction xs) auto

text \<open>The dump of a client is a function of its view.\<close>

definition view_lines :: "client_view \<Rightarrow> string list" where
  "view_lines v = peer_lines ''our_id'' (own_id v, own_fds v) @ concat (map (peer_lines ''peer_id'') (peers v))"

lemma client_dump_view:
  assumes "client_inv c"
  shows "ivshmem_client_dump c = Some (view_lines (abs_client c))"
proof -
  have p: "dump_client_peer name p = Some (peer_lines name (peer_view p))" if "peer_ok p" for name p
    using that by (simp add: dump_client_peer_def peer_ok_def peer_view_def)
  have "those (map (dump_client_peer ''peer_id'') (c_peer_list c)) = Some (map (peer_lines ''peer_id'' \<circ> peer_view) (c_peer_list c))"
    using assms p by (intro those_map_Some) (simp add: client_inv_def)
  then show ?thesis using assms p
    by (simp add: ivshmem_client_dump_def client_inv_def view_lines_def abs_client_def peer_view_def)
qed

lemma server_dump_lines:
  assumes "server_inv s os"
  shows "ivshmem_server_dump s =
    Some (concat (map (\<lambda>p. peer_lines ''peer_id'' (sp_id p, map rfd (vectors_upto (n_vectors s) p))) (peer_list s)))"
proof -
  have "those (map dump_server_peer (peer_list s)) =
      Some (map (\<lambda>p. peer_lines ''peer_id'' (sp_id p, map rfd (vectors_upto (n_vectors s) p))) (peer_list s))"
    using assms by (intro those_map_Some)
      (auto simp: dump_server_peer_def server_inv_def IVSHMEM_SERVER_MAX_VECTORS_def)
  then show ?thesis by (simp add: ivshmem_server_dump_def)
qed

text \<open>The lines that name a peer.\<close>

definition names_peer :: "string \<Rightarrow> bool" where
  "names_peer l \<longleftrightarrow> take 7 l = ''peer_id''"

lemma names_peer_lines:
  "filter names_peer (peer_lines ''peer_id'' p) = [id_line ''peer_id'' (fst p)]"
  "filter names_peer (peer_lines ''our_id'' p) = []"
  by (simp_all add: peer_lines_def names_peer_def id_line_def vector_line_def filter_empty_conv)

lemma names_peer_concat:
  "filter names_peer (concat (map (peer_lines ''peer_id'') ps)) = map (id_line ''peer_id'' \<circ> fst) ps"
  by (induction ps) (simp_all add: names_peer_lines)

text \<open>
  In every state a server with vectors and its clients can reach, all dumps agree on who is connected: the
  peers a client lists are those the server lists, in the same order, without itself.
\<close>

theorem dumps_agree:
  assumes "server_env_ok E" and "sends_succeed E" and "main_env_ok M" and "recv_ok C" and "fabric E M C s os cl g"
    and "0 < unat (n_vectors s)" and "q \<in> set (peer_list s)"
  shows "\<exists>ls cs. ivshmem_server_dump s = Some ls \<and> ivshmem_client_dump (cl (sp_id q)) = Some cs \<and>
    filter names_peer ls = map (id_line ''peer_id'' \<circ> sp_id) (peer_list s) \<and>
    filter names_peer cs = map (id_line ''peer_id'' \<circ> sp_id) (filter (\<lambda>p. sp_id p \<noteq> sp_id q) (peer_list s))"
proof -
  have inv: "server_inv s os" and know: "client_inv (cl (sp_id q))" "knows s (g (sp_id q)) q (abs_client (cl (sp_id q)))"
    using fabric_invariant [OF assms(1-5)] assms(6,7) by (simp_all add: all_know_def)
  let ?v = "abs_client (cl (sp_id q))" and ?ps = "filter (\<lambda>p. sp_id p \<noteq> sp_id q) (peer_list s)"
  have "map fst (map (renamed (g (sp_id q))) (peers ?v)) = map fst (map (announced s) ?ps)" using know(2) by (simp add: knows_def)
  then have "map fst (peers ?v) = map sp_id ?ps" by (simp add: comp_def announced_def)
  then have "filter names_peer (view_lines ?v) = map (id_line ''peer_id'' \<circ> sp_id) ?ps"
    by (simp add: view_lines_def names_peer_lines names_peer_concat flip: map_map)
  moreover have "filter names_peer (concat (map (\<lambda>p. peer_lines ''peer_id'' (sp_id p, map rfd (vectors_upto (n_vectors s) p))) (peer_list s)))
      = map (id_line ''peer_id'' \<circ> sp_id) (peer_list s)"
    using names_peer_concat [of "map (\<lambda>p. (sp_id p, map rfd (vectors_upto (n_vectors s) p))) (peer_list s)"] by (simp add: comp_def)
  ultimately show ?thesis using server_dump_lines [OF inv] client_dump_view [OF know(1)] by blast
qed

text \<open>The command \<open>?\<close> prints the help and is then called invalid.\<close>

lemma question_mark_is_called_invalid:
  "command_answer c ''?'' = Some (ivshmem_client_cmdline_help @ [''invalid command, type help'' @ [CHR 0x0A]])"
  by (simp add: command_answer_def sscanf_int_d_d_def sscanf_int_d_all_def Let_def)

text \<open>A number nobody has is reported, and the command has no effect.\<close>

lemma unknown_peer_is_reported:
  assumes "is_int i" and "is_int v" and "ivshmem_client_search_peer c i = None"
  shows "command_answer c (int_command i v) = Some [''cannot find peer_id = '' @ dec_int i @ [CHR 0x0A]]"
    and "client_command E c (int_command i v) os = Some os"
  using assms by (simp_all add: command_answer_def sscanf_int_command int_command_distinct no_such_peer_def client_command_int)

end
