(* ===== verification/Bloop.thy ===== *)
theory Bloop
  imports Ivshmem_Os
begin

text \<open>
  \<open>kernel/rocpyle/bloop.c\<close>: a program that writes the same message to a bridge until it is
  interrupted. \<open>bloop_env\<close> are the system calls and whether SIGINT has arrived.
\<close>

record bloop_env =
  bl_open :: "string \<Rightarrow> sock_os \<Rightarrow> int \<times> sock_os"
  bl_write :: "int \<Rightarrow> bytes \<Rightarrow> sock_os \<Rightarrow> int \<times> sock_os"
  bl_time :: "sock_os \<Rightarrow> int"
  bl_interrupted :: "sock_os \<Rightarrow> bool"

text \<open>\<open>strtoul(s, NULL, 10)\<close>, and its result as an \<open>int\<close>.\<close>

definition strtoul10 :: "string \<Rightarrow> u64" where
  "strtoul10 s =
     (let t = skip_spaces s;
          neg = (t \<noteq> [] \<and> hd t = CHR ''-'');
          n = fst (read_digits 0 (if t \<noteq> [] \<and> (hd t = CHR ''-'' \<or> hd t = CHR ''+'') then tl t else t))
      in if 2 ^ 64 \<le> n then - 1 else if neg then - of_nat n else of_nat n)"

definition arg_int :: "string \<Rightarrow> int" where
  "arg_int s = sint (ucast (strtoul10 s) :: s32)"

text \<open>\<open>strcat\<close>, which has no result if the array is too small.\<close>

definition strcat :: "bytes \<Rightarrow> string \<Rightarrow> bytes option" where
  "strcat dst s =
     (let n = strlen dst in
      if n + length s < length dst then Some (take n dst @ s @ NUL # drop (n + length s + 1) dst) else None)"

fun append_digits :: "nat \<Rightarrow> bytes \<Rightarrow> bytes option" where
  "append_digits 0 b = Some b"
| "append_digits (Suc k) b = do { b1 \<leftarrow> strcat b ''0123456789''; append_digits k b1 }"

definition bloop_message :: "int \<Rightarrow> int \<Rightarrow> bytes option" where
  "bloop_message target mult = do {
     gbuf \<leftarrow> sprintf (replicate 300 NUL) (dec_int target @ '':'');
     append_digits (nat (if mult > 18 then 18 else mult)) gbuf
   }"

text \<open>One round of the loop; the number of writes is an \<open>int\<close>.\<close>

definition bloop_pass ::
  "bloop_env \<Rightarrow> int \<Rightarrow> bytes \<Rightarrow> int \<times> sock_os \<Rightarrow> (bool \<times> int \<times> int \<times> sock_os) option" where
  "bloop_pass E fd msg st =
     (case st of (w, os) \<Rightarrow>
        case bl_write E fd msg os of
          (ret, os1) \<Rightarrow>
            if ret \<noteq> int (length msg) then Some (False, 1, w, os1)
            else if w + 1 < 2 ^ 31 then Some (True, 0, w + 1, os1) else None)"

text \<open>The statistics divide by the seconds that have passed.\<close>

definition bloop_main :: "bloop_env \<Rightarrow> string list \<Rightarrow> sock_os \<Rightarrow> (int \<times> sock_os) option" where
  "bloop_main E argv os =
     (if length argv \<noteq> 4 then Some (1, os)
      else do {
        let mult = arg_int (argv ! 2);
        gbuf \<leftarrow> bloop_message (arg_int (argv ! 1)) mult;
        (case bl_open E (argv ! 3) os of
           (fd, os1) \<Rightarrow>
             if fd = - 1 then Some (1, os1)
             else do {
               (r, w, os2) \<leftarrow> run_loop (\<lambda>st. bl_interrupted E (snd st)) (bloop_pass E fd (cstr gbuf)) 0 (0, os1);
               if r = 1 then Some (1, os2)
               else if bl_time E os2 = bl_time E os1 then None
               else if - (2 ^ 31) \<le> w * ((if mult > 18 then 18 else mult) * 10) \<and> w * ((if mult > 18 then 18 else mult) * 10) < 2 ^ 31
               then Some (0, os2) else None
             })
      })"

section \<open>The message fits\<close>

lemma strcat_result:
  assumes "cstr b = t" and "NUL \<notin> set s" and "length t + length s < length b"
  shows "\<exists>b'. strcat b s = Some b' \<and> cstr b' = t @ s \<and> length b' = length b"
proof -
  have "take (length t) b = t" using assms(1) unfolding cstr_def by (metis takeWhile_eq_take)
  moreover have "NUL \<notin> set t" using assms(1) by auto
  ultimately show ?thesis using assms cstr_append_nul [of "t @ s"] by (auto simp: strcat_def strlen_def Let_def)
qed

lemma append_digits_result:
  "cstr b = t \<Longrightarrow> length t + 10 * k < length b \<Longrightarrow>
    \<exists>b'. append_digits k b = Some b' \<and> cstr b' = t @ concat (replicate k ''0123456789'')"
proof (induction k arbitrary: b t)
  case (Suc k)
  obtain b1 where b1: "strcat b ''0123456789'' = Some b1" "cstr b1 = t @ ''0123456789''" "length b1 = length b"
    using strcat_result [OF Suc.prems(1), of "''0123456789''"] Suc.prems(2) by auto
  then show ?case using Suc.IH [OF b1(2)] Suc.prems(2) by auto
qed simp

text \<open>Whatever the arguments, the message fits into the buffer and is the number of the target, a colon and the digits.\<close>

lemma bloop_message_fits:
  "\<exists>b. bloop_message (arg_int a) mult = Some b \<and>
     cstr b = dec_int (arg_int a) @ '':'' @ concat (replicate (nat (min 18 mult)) ''0123456789'')"
proof -
  let ?h = "dec_int (arg_int a) @ '':''"
  have len: "length ?h \<le> 12" using dec_int_s32_length [of "ucast (strtoul10 a)"] by (simp add: arg_int_def)
  then obtain b where b: "sprintf (replicate 300 NUL) ?h = Some b" "cstr b = ?h" "length b = 300"
    using sprintf_fits [of ?h "replicate 300 NUL"] by auto
  have "(if mult > 18 then 18 else mult) = min 18 mult" "nat (min 18 mult) \<le> 18" by auto
  then show ?thesis using append_digits_result [OF b(2), of "nat (min 18 mult)"] b(1,3) len by (auto simp: bloop_message_def)
qed

text \<open>Interrupted within the second it was started in, the program divides by 0.\<close>

lemma bloop_divides_by_zero:
  assumes "bl_open E dev os = (fd, os1)" and "fd \<noteq> - 1" and "bl_interrupted E os1"
  shows "bloop_main E [prog, target, mult, dev] os = None"
proof -
  obtain b where "bloop_message (arg_int target) (arg_int mult) = Some b" using bloop_message_fits by blast
  moreover have "run_loop (\<lambda>st. bl_interrupted E (snd st)) pass 0 (0 :: int, os1) = Some (0, 0, os1)" for pass
    using assms(3) by (subst run_loop.simps) simp
  ultimately show ?thesis using assms by (simp add: bloop_main_def Let_def numeral_2_eq_2 numeral_3_eq_3)
qed

end
