(* ===== verification/Spec2Isabelle.thy ===== *)
theory Spec2Isabelle
  imports Guest_Pair Famez_Hotplug Genz_Bus Mono_Config Ivshmem_Print Bloop
begin

text \<open>
  FAME-Z emulates a Gen-Z fabric between virtual machines. Each guest has an IVSHMEM PCI
  device: BAR 0 holds a doorbell register, BAR 2 is memory shared by all guests. The shared
  memory is a mailbox of equal slots, one per guest and one for the server; a guest writes
  a message into its own slot and rings the doorbell of the receiver, whose interrupt
  handler finds the sender's slot. A user process sends and receives by writing and reading
  a character device. The eventfds behind the doorbells are handed out by a server on the
  host. This development models the kernel side of that system, from the PCI probe to the
  bytes a \<open>read\<close> returns, and the server with its example client.

  \<^bold>\<open>Parts of the program and the theories that model them\<close>

  \<^item> \<open>kernel/famez\<close>, the FAME-Z modules.
    \<open>Famez_Mailbox\<close>: the structures of \<open>famez.h\<close> and \<open>calculate_mailslot\<close>.
    \<open>Famez_IVSHMSG\<close>: \<open>famez_IVSHMSG.c\<close>, sending a message and waiting for one.
    \<open>Famez_Link\<close>: \<open>famez_link.c\<close>, the requests the interrupt handler answers itself.
    \<open>Famez_MSIX\<close>: \<open>famez_MSI-X.c\<close>, the interrupt handler and the set-up of the vectors.
    \<open>Famez_Adapter\<close>: \<open>famez_adapter.c\<close>, the life of an adapter.
    \<open>Famez_Pci\<close>: \<open>famez_pci.c\<close>, probing and removing a device, the list of adapters.
    \<open>Famez_Hotplug\<close>: any sequence of probes and removals of any number of devices.
    \<open>Famez_Register\<close>: \<open>famez_register.c\<close>, binding a driver to every adapter.
    \<open>Fz_Bridge\<close>: \<open>fz_bridge.c\<close>, the character device.
    \<open>Guest_Pair\<close>: two guests on one shared memory, whose operations take turns.
  \<^item> \<open>kernel/genz\<close>, the Gen-Z subsystem.
    \<open>Genz_Core\<close> and \<open>Genz_Device\<close>: \<open>genz_device.c\<close>, core structures and bridge devices.
    \<open>Genz_Class\<close>: \<open>genz_class.c\<close>. \<open>Genz_Bus\<close>: \<open>genz_bus.c\<close>.
  \<^item> \<open>kernel/famez/monolithic\<close>, the earlier driver in one module, with a mailbox of another
    layout and the misc device interface.
    \<open>Mono_MSIX\<close>: \<open>famez_MSI-X.c\<close>. \<open>Mono_Bridge\<close>: \<open>famez_bridge.c\<close>. \<open>Mono_Config\<close>: \<open>famez_config.c\<close>.
  \<^item> \<open>docs/ivshmem-server\<close> and \<open>docs/ivshmem-client\<close>, the programs on the host.
    \<open>Ivshmem_Os\<close>: descriptors, sockets and the loop both programs run.
    \<open>Ivshmem_Server\<close>: \<open>ivshmem-server.c\<close>. \<open>Ivshmem_Server_Main\<close>: its \<open>main.c\<close>.
    \<open>Ivshmem_Client\<close>: \<open>ivshmem-client.c\<close>. \<open>Ivshmem_Client_Main\<close>: its \<open>main.c\<close>.
    \<open>Ivshmem_Protocol\<close>: the server and any number of clients together.
    \<open>Ivshmem_Print\<close>: the dumps of both programs and the client's answers to typed commands.
  \<^item> \<open>kernel/rocpyle\<close>. \<open>Bloop\<close>: \<open>bloop.c\<close>, a program that writes to a bridge.
  \<^item> Shared by all: \<open>Famez_Prelude\<close> (error numbers, machine integers, locks, list lemmas),
    \<open>Famez_Cstring\<close> (C strings and the conversions of \<open>printf\<close> and \<open>sscanf\<close> the code uses),
    \<open>Famez_Kalloc\<close> (the kernel heap), and the interfaces \<open>Mail_Sender\<close>, \<open>Famez_Rollback\<close> and
    \<open>File_Life\<close> (an open file: what the kernel calls, in which order).

  \<^bold>\<open>How the code is modelled\<close>

  \<^item> A C structure is a record, an enumeration a datatype, an integer that can wrap a word of
    its width. Slots are byte offsets into BAR 2. Functions have the names of the source; a
    second function of the same name carries the prefix \<open>m_\<close> or \<open>mono_\<close> (monolithic driver).
  \<^item> Each function takes the state it touches and returns it changed. The result type is an
    \<open>option\<close>: \<open>None\<close> stands for behaviour the source gives no meaning to (a null or freed
    pointer, a write past an array, a lock taken twice by its holder, a \<open>BUG_ON\<close>) and for a loop that does
    not end. So a theorem with the conclusion \<open>f x = Some y\<close> says that \<open>f\<close> returns and is safe.
    Errors are negative integers, as in the code, or \<open>Inl\<close> of one where the code returns \<open>ERR_PTR\<close>.
  \<^item> A label reached by \<open>goto\<close> is a definition of its own, called from every branch that
    jumps there.
  \<^item> The wait loops of the send operations are \<open>partial_function (option)\<close>. No fuel is used. The
    clock hypotheses (\<open>clock_runs\<close>, \<open>clock_room\<close>) say that a delay advances \<open>jiffies\<close>, by less than
    \<open>2^32\<close>, and that \<open>jiffies\<close> is more than the time-out away from wrapping. From them the wait
    of a process, which sleeps between two looks, is proved to end. In the interrupt handler
    the delay is \<open>mdelay\<close>, which promises nothing about \<open>jiffies\<close>: the theorems about the handler
    (\<open>irq_handler_unlocks\<close>, \<open>link_request_discipline\<close>) do without a clock, and say when no wait
    is needed; \<open>send_never_returns_without_clock\<close> is the other case.
    The main loops of the host programs are \<open>run_loop\<close>, which has no result if it runs forever;
    invariants are carried through it by the locale \<open>loop_invariant\<close>.
  \<^item> The kernel, the PCI core and user memory are parameters (\<open>kenv\<close>, \<open>pci_env\<close>, \<open>irq_env\<close>,
    \<open>user_env\<close>, \<open>mono_env\<close>), as are the system calls of the host programs (\<open>server_env\<close>,
    \<open>client_env\<close>, ...), and what the code relies on is a named hypothesis (\<open>delay_keeps_layout\<close>,
    \<open>irq_env_ok\<close>, \<open>user_env_ok\<close>, \<open>server_env_ok\<close>, \<open>recv_ok\<close>, ...). Each property that has
    one is applied to a concrete instance in its witness.
    Allocation failures are chosen by an arbitrary sequence in the heap.
  \<^item> What other guests and processors do is visible in the states after a delay or a sleep;
    between two sleeps an operation runs alone. The order of the single stores into a slot
    is not observable in the model.
  \<^item> A descriptor is a number. When it is sent to another process it gets another number
    there; in \<open>Ivshmem_Protocol\<close> a function per client says which descriptor of the server each
    of its own stands for. Server and clients exchange whole messages, and the clients read all
    messages of one pass of the server's main loop before the next.

  \<^bold>\<open>What is shown\<close>

  \<^item> Messages. \<open>send_contract\<close>, \<open>send_terminates\<close>, \<open>sendmail_contract\<close>: both drivers' send operations
    satisfy the contract of the locale \<open>mail_sender\<close>, whose consequences (a restarted send never
    posts twice) the character device uses. \<open>write_delivers_text\<close>, \<open>irq_hands_message_to_readers\<close>
    and \<open>read_returns_text\<close> are composed to \<open>message_end_to_end\<close> below, and that by induction to
    \<open>dialogue_delivered\<close>, for any number of messages in both directions (with whatever \<open>peer_id\<close>
    the slots hold: the driver clears that of its own, so the example reads the CID 0); \<open>mono_message_delivered\<close>
    is the counterpart for one message of the monolithic driver.
  \<^item> Locks. \<open>irq_handler_unlocks\<close>, \<open>link_request_discipline\<close>, \<open>write_sends_at_most_once\<close>.
  \<^item> Resources. The locale of \<open>Famez_Rollback\<close> describes acquiring a list of resources and
    releasing the prefix on failure; interrupts and device classes interpret it.
    \<open>probe_all_or_nothing\<close> (with the greeting that does not fit as an outcome of its own), \<open>classes_all_or_nothing\<close>, \<open>bus_load_all_or_nothing\<close>
    and the round trips \<open>probe_then_remove\<close>, \<open>mono_probe_then_remove\<close>, \<open>adapter_lifecycle\<close>, \<open>core_lifecycle\<close>.
  \<^item> State machines. The locale \<open>exclusive_file\<close> of \<open>File_Life\<close> has the laws of a driver that admits one
    file at a time, over an inductive relation of opens, duplications, closes, reads, writes and
    interrupts; it is interpreted on the file operations of both drivers, which gives
    \<open>bridge_open_is_exclusive\<close> and \<open>mono_open_is_exclusive\<close>. \<open>hotplug_keeps_driver_consistent\<close> is the
    invariant of the inductive relation of probes, removals and changes of the shared memory, each
    probe and removal in an environment of its own. Probes whose greeting fails are not among
    its steps, because they break it.
  \<^item> The fabric. \<open>fabric\<close> is the inductive relation of states the server and its clients reach by
    passes of the server's main loop (\<open>get_fds\<close>, \<open>select\<close>, \<open>handle_fds\<close>), in which clients connect
    and leave. \<open>clients_know_each_other\<close> is its invariant for a server with vectors, built from the refinement
    \<open>server_messages_refine_view\<close> of an abstract client and from what the server sends;
    \<open>new_clients_are_admitted\<close> says that it does not get stuck while the descriptors fit an
    \<open>fd_set\<close>, and that it does after that, \<open>typed_command_rings_doorbell\<close> and
    \<open>events_reach_callback\<close> that an interrupt goes to the vector and the peer it was meant for.
    \<open>new_connection_all_or_nothing\<close>, \<open>server_leaves_nothing_open\<close> and \<open>client_session_well_formed\<close>
    are about descriptors and well-formedness, \<open>shm_sizing_terminates\<close> about the one loop of the
    server that could be endless.
  \<^item> What goes wrong. Several theorems pin down behaviour that is probably not meant:
    \<open>read_overruns_user_buffer\<close>, \<open>close_during_system_call_is_fatal\<close>, \<open>minors_exhausted_after_14\<close>,
    \<open>failed_greeting_leaves_freed_adapter_listed\<close>, \<open>interrupted_write_lets_another_in\<close>,
    \<open>failed_mapping_blocks_the_device\<close>.

  \<^bold>\<open>Not modelled\<close>

  Log output; the module init and exit functions that only hand a structure to the PCI
  core; code under \<open>#if 0\<close>; \<open>genz_routing_fabric.h\<close>, which declares structures nothing uses; the
  usage texts of the host programs, \<open>getopt\<close>'s splitting of the command line and the installation
  of signal handlers; the Python server.
\<close>

text \<open>
  C1. From one guest's \<open>write\<close> to the other guest's \<open>read\<close>. Guest \<open>a\<close> writes "\<open>d\<close>:\<open>msg\<close>", where
  \<open>msg\<close> is not a link request; the write returns the full length and rings the bell of
  \<open>d\<close> once. The interrupt that bell raises in guest \<open>d\<close>, which maps the same memory, wakes
  its readers, and its \<open>read\<close> returns exactly "\<open>CID\<close>,27:\<open>msg\<close>", where the CID is a hundred times the
  sender's peer id; afterwards the mailbox of \<open>a\<close> is empty again, so \<open>a\<close> can send anew.
\<close>

theorem message_end_to_end:
  assumes "adapter_inv a w" and "buffers_ok a" and "user_env_ok U" and "copy_from_user U ubuf (length ubuf) = (0, got)"
    and "ubuf = dec_int (int d) @ CHR '':'' # msg" and "length ubuf + 1 < unat (max_buflen a)" and "msg \<noteq> []" and "plain_text msg"
    and "length msg < 2 ^ 30"
    and "0 < d" and "d \<le> unat (server_id (bar2_globals w))" and "mail w (unat (my_id a)) = None"
    and "unat (peer_id (bar2 w (slot_off (bar2_globals w) (unat (my_id a))))) = pid" and "pid < 2 ^ 16"
    and "adapter_inv b (on_memory_of w v)" and "unat (my_id b) = d" and "\<not> incoming_slot_lock b" and "core_str_ok b"
    and "irq_table_ok b (on_memory_of w v)" and "IRQ_private b = Some (tab, es)"
    and "unat (my_id a) < unat (nEvents (bar2_globals w))" and "word_of_int irq = vector (es ! unat (my_id a))"
    and "user_env_ok UB" and "\<And>off src um. \<exists>um'. copy_to_user UB off src um = (0, um')"
    and "reply = dec_nat (100 * pid) @ '',27:'' @ msg" and "length reply \<le> unat count"
  shows "\<exists>a' w' b' v1 v2. famez_bridge_write K U ubuf (of_nat (length ubuf)) a w = Some (int (length ubuf), a', w') \<and>
    bells w' = bells w @ [(d, unat (my_id a))] \<and>
    all_msix KB irq b (on_memory_of w' v) = Some (IRQ_HANDLED, True, b', v1) \<and>
    famez_bridge_read KB UB count f um b' v1
      = Some (int (length reply), f\<lparr>f_pos := 0\<rparr>, stored 0 reply um, b\<lparr>incoming_slot := None\<rparr>, v2) \<and>
    mail v2 (unat (my_id a)) = None"
proof -
  have "mail v2 (unat (my_id a)) = None" if "passed (unat (my_id a)) w v v2" for v2
    using that unsigned_less [of "my_id a", where ?'a = nat] by (simp add: passed_def)
  with message_passes [OF assms, where K = K and KB = KB and f = f and um = um] show ?thesis by blast
qed

definition demo_reader :: famez_adapter where
  "demo_reader = demo_bound\<lparr>my_id := 3, my_slot := Some 1536\<rparr>"

lemma demo_reader_ok:
  "adapter_inv demo_reader (on_memory_of demo_world demo_world)" "irq_table_ok demo_reader (on_memory_of demo_world demo_world)"
  "\<not> incoming_slot_lock demo_reader" "core_str_ok demo_reader" "IRQ_private demo_reader = Some (9, demo_table)"
  "unat (my_id demo_reader) = 3" "incoming_slot demo_reader = None"
proof -
  have m: "on_memory_of demo_world demo_world = demo_world" by (simp add: on_memory_of_def)
  have "adapter_inv demo_bound demo_world" using demo_bound_ok(2) by simp
  then show "adapter_inv demo_reader (on_memory_of demo_world demo_world)"
    unfolding m by (simp add: adapter_inv_def demo_reader_def demo_globals_def slot_off_def)
  show "irq_table_ok demo_reader (on_memory_of demo_world demo_world)"
    using demo_bound_ok(1) [of demo_world] unfolding m by (simp add: irq_table_ok_def demo_reader_def)
  show "core_str_ok demo_reader" using demo_bound_ok(3) by (simp add: core_str_ok_def demo_reader_def)
qed (simp_all add: demo_reader_def demo_bound_def demo_adapter_def)

lemma demo_plain_text: "plain_text ''hello''"
  by (simp add: plain_text_def STREQ_N_def LINK_CTL_PEER_ATTRIBUTE_def CTL_WRITE_0_SID_CID_def cstr_def strlen_def isspace_def)

theorem message_end_to_end_witness:
  "\<exists>a' w' b' v1 v2. famez_bridge_write demo_kenv demo_user (dec_int (int 3) @ '':hello'') 7 demo_open demo_world = Some (7, a', w') \<and>
    bells w' = [(3, 1)] \<and>
    all_msix demo_kenv 41 demo_reader (on_memory_of w' demo_world) = Some (IRQ_HANDLED, True, b', v1) \<and>
    famez_bridge_read demo_kenv demo_user 64 (file_of 1) (\<lambda>_. NUL) b' v1
      = Some (12, file_of 1, stored 0 ''100,27:hello'' (\<lambda>_. NUL), demo_reader, v2) \<and> mail v2 1 = None"
proof -
  let ?u = "dec_int (int 3) @ '':hello''"
  have l: "length ?u = 7" by (simp add: dec_int_def dec_nat.simps)
  have c: "copy_from_user demo_user ?u (length ?u) = (0, ?u)" by (simp add: demo_user_def)
  have b: "bells demo_world = []" by (simp add: bells_def demo_world_def)
  have i: "max_buflen demo_open = 384" "server_id (bar2_globals demo_world) = 5" "my_id demo_open = 1"
    by (simp_all add: demo_open_def demo_adapter_def demo_globals_def)
  have pid: "unat (peer_id (bar2 demo_world (slot_off (bar2_globals demo_world) (unat (my_id demo_open))))) = 1"
    by (simp add: demo_world_def demo_slot_def demo_globals_def slot_off_def)
  have rep: "''100,27:hello'' = dec_nat (100 * 1) @ '',27:'' @ ''hello''"
    by (simp add: dec_nat.simps digit_char_def digit_chars)
  have f: "(file_of 1)\<lparr>f_pos := 0\<rparr> = file_of 1" "demo_reader\<lparr>incoming_slot := None\<rparr> = demo_reader"
    using demo_reader_ok(7) by (simp_all add: file_of_def)
  have u: "\<exists>um'. copy_to_user demo_user off src um = (0, um')" for off src um by (simp add: demo_user_def)
  have n: "1 < unat (nEvents (bar2_globals demo_world))" "word_of_int 41 = vector (demo_table ! 1)"
    by (simp_all add: demo_globals_def demo_table_def upt_rec)
  show ?thesis
    using message_end_to_end [OF _ demo_open_ok(1) demo_user_ok c refl _ _ demo_plain_text _ _ _ _ pid _
        demo_reader_ok(1,6,3,4,2,5) _ _ demo_user_ok u rep, of 41 64 demo_kenv demo_kenv "file_of 1" "\<lambda>_. NUL"]
      l b i n f by simp
qed

text \<open>
  C2. A dialogue. Two guests with their files open exchange any number of messages in any
  order of speakers, each a non-empty text that fits and is not a link request: every
  read returns exactly what was written, in the order of the writes, with the sender's CID
  and SID in front; each message rings one bell of the other guest; and at the end both
  guests are ready to go on, their mailboxes empty. The CID is a hundred times the \<open>peer_id\<close>
  in the sender's slot, whatever it is: for a guest as the driver leaves it, with its slot
  cleared, that is 0, and its messages arrive as "0,27:\<dots>", as in the witness.
\<close>

theorem dialogue_delivered:
  assumes "linked A B" and "\<And>sm. sm \<in> set ms \<Longrightarrow> sendable count (unat (max_buflen (g_adapter A))) (snd sm)"
  shows "\<exists>A' B'. dialogue count ms A B = Some (map (\<lambda>(s, m). heard (if s then A else B) m) ms, A', B') \<and> linked A' B' \<and>
    bells (g_world A') = bells (g_world A) @ replicate (length (filter fst ms)) (guest_id B, guest_id A) \<and>
    bells (g_world B') = bells (g_world B) @ replicate (length (filter (\<lambda>x. \<not> fst x) ms)) (guest_id A, guest_id B)"
  by (rule dialogue_runs [OF assms])

text \<open>
  Guests 1 and 3 of the small machine, both with their file open and their slots cleared
  as \<open>famez_adapter_create\<close> leaves them.
\<close>

definition demo_wiped :: fz_world where
  "demo_wiped = put_slot 512 (zero_slot demo_globals) (put_slot 1536 (zero_slot demo_globals) demo_world)"

lemma demo_wiped_simps [simp]: "bar2_globals demo_wiped = demo_globals" "bells demo_wiped = []"
  "bar2 demo_wiped 512 = zero_slot demo_globals" "bar2 demo_wiped 1536 = zero_slot demo_globals"
  by (simp_all add: demo_wiped_def demo_world_def bells_def)

definition demo_guest :: "u16 \<Rightarrow> guest" where
  "demo_guest i = \<lparr>g_adapter = demo_bound\<lparr>my_id := i, my_slot := Some (512 * ucast i),
       outgoing := Some \<lparr>buffers_addr = 1, wbuf_addr = 2, wbuf = replicate 384 NUL, wbuf_mutex = False\<rparr>\<rparr>,
     g_world = demo_wiped, g_kenv = demo_kenv, g_user = demo_user\<rparr>"

lemma demo_linked: "linked (demo_guest 1) (demo_guest 3)"
proof -
  have "length (buf (zero_slot demo_globals)) = unat (max_buflen demo_adapter)" by (simp add: zero_slot_def demo_globals_def demo_adapter_def offsetof_buf_def)
  then have "adapter_inv demo_adapter demo_wiped" using demo_inv unfolding demo_wiped_def adapter_inv_def by simp
  then have inv: "adapter_inv demo_bound demo_wiped" "irq_table_ok demo_bound demo_wiped" "core_str_ok demo_bound"
    using demo_bound_ok by simp_all
  have ready: "guest_ready (demo_guest i)" if i: "i = 1 \<or> i = 3" for i
    unfolding guest_ready_def guest_id_def own_peer_id_def demo_guest_def using inv i demo_user_ok
    by (auto simp: adapter_inv_def irq_table_ok_def core_str_ok_def buffers_ok_def demo_user_def demo_globals_def slot_off_def
        zero_slot_def mail_def slot_mail_def demo_bound_def demo_adapter_def simp del: replicate.simps)
  show ?thesis using ready [of 1] ready [of 3] by (simp add: linked_def) (simp add: demo_guest_def guest_id_def)
qed

theorem dialogue_delivered_witness:
  "\<exists>A' B'. dialogue 64 [(True, ''hello''), (False, ''hello''), (False, ''hello'')] (demo_guest 1) (demo_guest 3)
      = Some ([''0,27:hello'', ''0,27:hello'', ''0,27:hello''], A', B') \<and>
    bells (g_world A') = [(3, 1)] \<and> bells (g_world B') = [(1, 3), (1, 3)]"
proof -
  have "own_peer_id (demo_guest 1) = 0" "own_peer_id (demo_guest 3) = 0"
    by (simp_all add: own_peer_id_def guest_id_def demo_guest_def demo_globals_def slot_off_def zero_slot_def)
  then have h: "heard (demo_guest 1) ''hello'' = ''0,27:hello''" "heard (demo_guest 3) ''hello'' = ''0,27:hello''"
    "guest_id (demo_guest 1) = 1" "guest_id (demo_guest 3) = 3" "bells (g_world (demo_guest i)) = []" for i
    by (simp_all add: heard_def guest_id_def demo_guest_def dec_nat.simps digit_char_def digit_chars)
  have "sendable 64 (unat (max_buflen (g_adapter (demo_guest 1)))) (snd sm)"
    if "sm \<in> set [(True, ''hello''), (False, ''hello''), (False, ''hello'')]" for sm
    using that demo_plain_text by (auto simp: sendable_def demo_guest_def demo_bound_def demo_adapter_def)
  from dialogue_delivered [of _ _ "[(True, ''hello''), (False, ''hello''), (False, ''hello'')]", OF demo_linked this] show ?thesis by (auto simp: h simp del: dialogue.simps)
qed

end
